(* ===== verification/Prelude.thy ===== *)
theory Prelude
  imports Main
begin

text \<open>
  What every component of the development shares: Go's error values and results, buffered
  channels, the search-and-replace loops over slices, iteration over a Go map in an arbitrary
  order, and the lemmas about them.  The named collections gather the facts the component
  proofs are run with: \<open>chan_simps\<close> (channel operations), \<open>slice_simps\<close> (slice loops) and
  \<open>inv_intros\<close> (preservation of invariants).
\<close>

named_theorems chan_simps "equations of the channel operations"
named_theorems slice_simps "equations and set-level facts of the slice loops"
named_theorems inv_intros "an operation keeps the invariant of its component"

section \<open>Errors and results\<close>

text \<open>
  A Go error is a sentinel made by \<open>errors.New\<close> or a value that \<open>fmt.Errorf\<close> wraps with
  \<open>%w\<close>.  No two sentinels of the repository carry the same text, so the text identifies them.
  A function that returns \<open>error\<close> returns a \<open>go_error option\<close> (\<open>None\<close> is \<open>nil\<close>); a function
  that returns a value and an error returns a sum.
\<close>

datatype go_error = Err string | Wrap string go_error

type_synonym 'a result = "go_error + 'a"

fun error_text :: "go_error \<Rightarrow> string" where
  "error_text (Err s) = s"
| "error_text (Wrap p e) = p @ '': '' @ error_text e"

text \<open>\<open>errors.Is\<close>: the target is somewhere along the chain of wrapped errors.\<close>

fun error_is :: "go_error \<Rightarrow> go_error \<Rightarrow> bool" where
  "error_is (Err s) t \<longleftrightarrow> Err s = t"
| "error_is (Wrap p e) t \<longleftrightarrow> Wrap p e = t \<or> error_is e t"

lemma error_is_refl [simp]: "error_is e e"
  by (cases e) auto

text \<open>How a call ends: it returns a value or it panics.\<close>

datatype 'a outcome = Ret 'a | Panicked string

text \<open>Times and durations are counts of nanoseconds.\<close>

type_synonym time = int
type_synonym duration = int

abbreviation (input) second :: duration where "second \<equiv> 1000000000"
abbreviation (input) millisecond :: duration where "millisecond \<equiv> 1000000"

section \<open>Buffered channels\<close>

record 'a chan =
  chan_cap :: nat
  chan_buf :: "'a list"

definition chan_make :: "nat \<Rightarrow> 'a chan" where
  "chan_make n = \<lparr>chan_cap = n, chan_buf = []\<rparr>"

text \<open>A send in a \<open>select\<close> with a \<open>default\<close> branch: \<open>None\<close> is the default branch.\<close>

definition chan_trysend :: "'a \<Rightarrow> 'a chan \<Rightarrow> 'a chan option" where
  "chan_trysend x c =
     (if length (chan_buf c) < chan_cap c then Some (c\<lparr>chan_buf := chan_buf c @ [x]\<rparr>) else None)"

text \<open>A receive: \<open>None\<close> is a receive that is not ready.\<close>

definition chan_recv :: "'a chan \<Rightarrow> ('a \<times> 'a chan) option" where
  "chan_recv c = (case chan_buf c of [] \<Rightarrow> None | x # xs \<Rightarrow> Some (x, c\<lparr>chan_buf := xs\<rparr>))"

definition chan_ok :: "'a chan \<Rightarrow> bool" where
  "chan_ok c \<longleftrightarrow> length (chan_buf c) \<le> chan_cap c"

lemma chan_make_simps [simp, chan_simps]:
  "chan_buf (chan_make n) = []" "chan_cap (chan_make n) = n" "chan_ok (chan_make n)"
  by (simp_all add: chan_make_def chan_ok_def)

lemma chan_trysend_Some [chan_simps]:
  "chan_trysend x c = Some c' \<longleftrightarrow>
     length (chan_buf c) < chan_cap c \<and> c' = c\<lparr>chan_buf := chan_buf c @ [x]\<rparr>"
  by (auto simp: chan_trysend_def)

lemma chan_trysend_None [chan_simps]:
  "chan_trysend x c = None \<longleftrightarrow> chan_cap c \<le> length (chan_buf c)"
  by (auto simp: chan_trysend_def)

lemma chan_recv_Some [chan_simps]:
  "chan_recv c = Some (x, c') \<longleftrightarrow> (\<exists>xs. chan_buf c = x # xs \<and> c' = c\<lparr>chan_buf := xs\<rparr>)"
  by (auto simp: chan_recv_def split: list.splits)

lemma chan_recv_None [chan_simps]: "chan_recv c = None \<longleftrightarrow> chan_buf c = []"
  by (auto simp: chan_recv_def split: list.splits)

lemma chan_ok_trysend [inv_intros]: "chan_trysend x c = Some c' \<Longrightarrow> chan_ok c'"
  by (auto simp: chan_simps chan_ok_def)

lemma chan_ok_recv [inv_intros]: "chan_ok c \<Longrightarrow> chan_recv c = Some (x, c') \<Longrightarrow> chan_ok c'"
  by (auto simp: chan_simps chan_ok_def)

text \<open>
  A send whose \<open>default\<close> branch drops the message, as the watchers' notify loops do it.
\<close>

definition chan_offer :: "'a \<Rightarrow> 'a chan \<Rightarrow> 'a chan" where
  "chan_offer x c = (case chan_trysend x c of Some c' \<Rightarrow> c' | None \<Rightarrow> c)"

lemma chan_offer_cap [simp, chan_simps]: "chan_cap (chan_offer x c) = chan_cap c"
  by (auto simp: chan_offer_def chan_trysend_def)

lemma chan_offer_buf [chan_simps]:
  "chan_buf (chan_offer x c) =
     (if length (chan_buf c) < chan_cap c then chan_buf c @ [x] else chan_buf c)"
  by (simp add: chan_offer_def chan_trysend_def)

lemma chan_ok_offer [inv_intros]: "chan_ok c \<Longrightarrow> chan_ok (chan_offer x c)"
  by (auto simp: chan_ok_def chan_offer_buf)

subsection \<open>The contract of a bounded first-in first-out buffer\<close>

text \<open>
  What the senders and receivers of a channel rely on.  Inside the locale: whatever the order
  of sends and receives, what has been received followed by what is still buffered is exactly
  what was accepted, in the order it was accepted.
\<close>

datatype 'a chan_op = Send 'a | Recv

locale bounded_fifo =
  fixes trysend :: "'a \<Rightarrow> 'c \<Rightarrow> 'c option"
    and recv :: "'c \<Rightarrow> ('a \<times> 'c) option"
    and content :: "'c \<Rightarrow> 'a list"
    and limit :: "'c \<Rightarrow> nat"
  assumes trysend_content: "trysend x c = Some c' \<Longrightarrow> content c' = content c @ [x]"
    and trysend_limit: "trysend x c = Some c' \<Longrightarrow> length (content c') \<le> limit c' \<and> limit c' = limit c"
    and trysend_full: "trysend x c = None \<Longrightarrow> limit c \<le> length (content c)"
    and recv_content: "recv c = Some (x, c') \<Longrightarrow> content c = x # content c'"
    and recv_limit: "recv c = Some (x, c') \<Longrightarrow> limit c' = limit c"
    and recv_empty: "recv c = None \<Longrightarrow> content c = []"
begin

text \<open>One operation: the new buffer, what was accepted and what was delivered.\<close>

fun op_step :: "'a chan_op \<Rightarrow> 'c \<Rightarrow> 'c \<times> 'a list \<times> 'a list" where
  "op_step (Send x) c = (case trysend x c of Some c' \<Rightarrow> (c', [x], []) | None \<Rightarrow> (c, [], []))"
| "op_step Recv c = (case recv c of Some (x, c') \<Rightarrow> (c', [], [x]) | None \<Rightarrow> (c, [], []))"

fun op_run :: "'a chan_op list \<Rightarrow> 'c \<Rightarrow> 'c \<times> 'a list \<times> 'a list" where
  "op_run [] c = (c, [], [])"
| "op_run (a # as) c =
     (let (c', acc, del) = op_step a c; (c'', acc', del') = op_run as c'
      in (c'', acc @ acc', del @ del'))"

lemma op_step_fifo: "op_step a c = (c', acc, del) \<Longrightarrow> content c @ acc = del @ content c'"
  by (cases a) (auto split: option.splits dest: trysend_content recv_content)

lemma op_run_fifo: "op_run as c = (c', acc, del) \<Longrightarrow> content c @ acc = del @ content c'"
proof (induction as arbitrary: c c' acc del)
  case (Cons a as)
  obtain c1 acc1 del1 where one: "op_step a c = (c1, acc1, del1)" by (cases "op_step a c")
  obtain acc2 del2 where two: "op_run as c1 = (c', acc2, del2)"
    and eqs: "acc = acc1 @ acc2" "del = del1 @ del2"
    using Cons.prems one by (auto split: prod.splits)
  show ?case
    using op_step_fifo [OF one] Cons.IH [OF two] eqs by (metis append.assoc)
qed simp

lemma op_step_bounded:
  "length (content c) \<le> limit c \<Longrightarrow> op_step a c = (c', acc, del) \<Longrightarrow>
     length (content c') \<le> limit c' \<and> limit c' = limit c"
proof (cases a)
  case (Send x)
  then show "length (content c) \<le> limit c \<Longrightarrow> op_step a c = (c', acc, del) \<Longrightarrow> ?thesis"
    by (auto split: option.splits dest: trysend_limit)
next
  case Recv
  show "length (content c) \<le> limit c \<Longrightarrow> op_step a c = (c', acc, del) \<Longrightarrow> ?thesis"
    using Recv recv_limit recv_content by (fastforce split: option.splits)
qed

lemma op_run_bounded:
  "length (content c) \<le> limit c \<Longrightarrow> op_run as c = (c', acc, del) \<Longrightarrow>
     length (content c') \<le> limit c' \<and> limit c' = limit c"
proof (induction as arbitrary: c c' acc del)
  case (Cons a as)
  obtain c1 acc1 del1 where one: "op_step a c = (c1, acc1, del1)" by (cases "op_step a c")
  obtain acc2 del2 where two: "op_run as c1 = (c', acc2, del2)"
    using Cons.prems(2) one by (auto split: prod.splits)
  from op_step_bounded [OF Cons.prems(1) one] Cons.IH [OF _ two] show ?case by simp
qed simp

end

interpretation go_chan: bounded_fifo chan_trysend chan_recv chan_buf chan_cap
  by unfold_locales (auto simp: chan_simps)

section \<open>Slice loops\<close>

text \<open>
  \<open>for i, x := range xs { if p(x) { xs = append(xs[:i], xs[i+1:]...); break } }\<close>
\<close>

fun remove_first :: "('a \<Rightarrow> bool) \<Rightarrow> 'a list \<Rightarrow> 'a list" where
  "remove_first p [] = []"
| "remove_first p (x # xs) = (if p x then xs else x # remove_first p xs)"

text \<open>
  \<open>for i, x := range xs { if p(x) { xs[i] = y; found = true; break } }\<close>
\<close>

fun replace_first :: "('a \<Rightarrow> bool) \<Rightarrow> 'a \<Rightarrow> 'a list \<Rightarrow> 'a list" where
  "replace_first p y [] = []"
| "replace_first p y (x # xs) = (if p x then y # xs else x # replace_first p y xs)"

text \<open>The same loop followed by \<open>if !found { xs = append(xs, y) }\<close>.\<close>

definition upsert :: "('a \<Rightarrow> bool) \<Rightarrow> 'a \<Rightarrow> 'a list \<Rightarrow> 'a list" where
  "upsert p y xs = (if \<exists>x\<in>set xs. p x then replace_first p y xs else xs @ [y])"

lemma image_key: "k \<in> f ` A \<longleftrightarrow> (\<exists>x\<in>A. f x = k)"
  by auto

lemma remove_first_none [simp, slice_simps]: "\<not> (\<exists>x\<in>set xs. p x) \<Longrightarrow> remove_first p xs = xs"
  by (induction xs) auto

lemma remove_first_snoc [slice_simps]:
  "\<forall>x\<in>set xs. \<not> p x \<Longrightarrow> remove_first p (xs @ [y]) = (if p y then xs else xs @ [y])"
  by (induction xs) auto

lemma remove_first_subset: "set (remove_first p xs) \<subseteq> set xs"
  by (induction xs) auto

lemma length_remove_first [slice_simps]:
  "length (remove_first p xs) = (if \<exists>x\<in>set xs. p x then length xs - 1 else length xs)"
proof (induction xs)
  case (Cons x xs)
  then show ?case by (cases xs) auto
qed simp

lemma length_replace_first [simp, slice_simps]: "length (replace_first p y xs) = length xs"
  by (induction xs) auto

lemma length_upsert [slice_simps]:
  "length (upsert p y xs) = (if \<exists>x\<in>set xs. p x then length xs else Suc (length xs))"
  by (simp add: upsert_def)

text \<open>With distinct keys the loops act on the key's element alone.\<close>

lemma remove_first_filter [slice_simps]:
  "distinct (map f xs) \<Longrightarrow> remove_first (\<lambda>x. f x = k) xs = filter (\<lambda>x. f x \<noteq> k) xs"
proof (induction xs)
  case (Cons x xs)
  show ?case
  proof (cases "f x = k")
    case True
    with Cons.prems have "\<forall>y\<in>set xs. f y \<noteq> k" by (force simp: image_iff)
    then have "filter (\<lambda>x. f x \<noteq> k) xs = xs" by (rule filter_True)
    with True show ?thesis by simp
  qed (use Cons in simp)
qed simp

lemma replace_first_map [slice_simps]:
  "distinct (map f xs) \<Longrightarrow>
     replace_first (\<lambda>x. f x = k) y xs = map (\<lambda>x. if f x = k then y else x) xs"
proof (induction xs)
  case (Cons x xs)
  show ?case
  proof (cases "f x = k")
    case True
    with Cons.prems have "\<forall>z\<in>set xs. f z \<noteq> k" by (force simp: image_iff)
    then have "map (\<lambda>x. if f x = k then y else x) xs = xs" by (simp add: map_idI)
    with True show ?thesis by simp
  qed (use Cons in simp)
qed simp

lemma map_replace_first [slice_simps]:
  "f y = k \<Longrightarrow> map f (replace_first (\<lambda>x. f x = k) y xs) = map f xs"
  by (induction xs) auto

lemma map_upsert [slice_simps]:
  "f y = k \<Longrightarrow>
     map f (upsert (\<lambda>x. f x = k) y xs) = (if k \<in> f ` set xs then map f xs else map f xs @ [k])"
  by (cases "\<exists>x\<in>set xs. f x = k") (auto simp: upsert_def map_replace_first intro: rev_image_eqI)

lemma distinct_upsert [inv_intros]:
  "distinct (map f xs) \<Longrightarrow> f y = k \<Longrightarrow> distinct (map f (upsert (\<lambda>x. f x = k) y xs))"
  by (simp add: map_upsert)

lemma distinct_remove_first [inv_intros]:
  "distinct (map f xs) \<Longrightarrow> distinct (map f (remove_first p xs))"
proof (induction xs)
  case (Cons x xs)
  have "set (map f (remove_first p xs)) \<subseteq> set (map f xs)"
    using remove_first_subset [of p xs] by auto
  with Cons show ?case by auto
qed simp

lemma set_upsert: "set (upsert p y xs) \<subseteq> insert y (set xs)"
proof -
  have "set (replace_first p y xs) \<subseteq> insert y (set xs)" by (induction xs) auto
  then show ?thesis by (auto simp: upsert_def)
qed

text \<open>Looking an element up by its key, as the caches of the registries are read.\<close>

definition find_key :: "('a \<Rightarrow> 'k) \<Rightarrow> 'k \<Rightarrow> 'a list \<Rightarrow> 'a option" where
  "find_key f k xs = find (\<lambda>x. f x = k) xs"

lemma find_key_simps [simp, slice_simps]:
  "find_key f k [] = None"
  "find_key f k (x # xs) = (if f x = k then Some x else find_key f k xs)"
  by (simp_all add: find_key_def)

lemma find_key_append [slice_simps]:
  "find_key f k (xs @ ys) = (case find_key f k xs of Some x \<Rightarrow> Some x | None \<Rightarrow> find_key f k ys)"
  by (induction xs) auto

lemma find_key_None [slice_simps]: "find_key f k xs = None \<longleftrightarrow> k \<notin> f ` set xs"
  by (induction xs) auto

lemma find_key_SomeD: "find_key f k xs = Some x \<Longrightarrow> x \<in> set xs \<and> f x = k"
  by (induction xs) (auto split: if_splits)

lemma find_key_in: "distinct (map f xs) \<Longrightarrow> x \<in> set xs \<Longrightarrow> find_key f (f x) xs = Some x"
  by (induction xs) (auto simp: image_iff)

lemma find_key_replace_first:
  "f y = k \<Longrightarrow> k \<in> f ` set xs \<Longrightarrow>
     find_key f j (replace_first (\<lambda>x. f x = k) y xs) = (if j = k then Some y else find_key f j xs)"
  by (induction xs) auto

lemma find_key_upsert [slice_simps]:
  "f y = k \<Longrightarrow>
     find_key f j (upsert (\<lambda>x. f x = k) y xs) = (if j = k then Some y else find_key f j xs)"
proof (cases "k \<in> f ` set xs")
  case True
  then have "\<exists>x\<in>set xs. f x = k" by auto
  with True show "f y = k \<Longrightarrow> ?thesis" by (simp add: upsert_def find_key_replace_first)
next
  case False
  then have no: "\<not> (\<exists>x\<in>set xs. f x = k)" "find_key f k xs = None" by (auto simp: find_key_None)
  then show "f y = k \<Longrightarrow> ?thesis" by (auto simp: upsert_def find_key_append split: option.splits)
qed

lemma find_key_remove_first [slice_simps]:
  "distinct (map f xs) \<Longrightarrow>
     find_key f j (remove_first (\<lambda>x. f x = k) xs) = (if j = k then None else find_key f j xs)"
  by (induction xs) (auto simp: find_key_None image_iff)

lemma find_key_filter [slice_simps]:
  "distinct (map f xs) \<Longrightarrow> find_key f j (filter p xs) =
     (case find_key f j xs of Some x \<Rightarrow> if p x then Some x else None | None \<Rightarrow> None)"
proof (induction xs)
  case (Cons x xs)
  show ?case
  proof (cases "f x = j")
    case True
    with Cons.prems have "find_key f j (filter p xs) = None"
      by (auto simp: find_key_None image_iff)
    with True show ?thesis by simp
  qed (use Cons in simp)
qed simp

section \<open>Iterating over a Go map\<close>

lemma empty_map_delete [simp]: "(\<lambda>_. None)(k := None) = (\<lambda>_. None)"
  by auto


text \<open>
  Go leaves the order of \<open>range\<close> over a map unspecified, so every operation that iterates takes
  the order of the keys as an argument.  \<open>iterates ks m\<close> says that \<open>ks\<close> is an order in which
  the keys of \<open>m\<close> can come; theorems hold for every such order.
\<close>

definition iterates :: "'k list \<Rightarrow> ('k \<Rightarrow> 'v option) \<Rightarrow> bool" where
  "iterates ks m \<longleftrightarrow> distinct ks \<and> set ks = dom m"

definition range_over :: "'k list \<Rightarrow> ('k \<Rightarrow> 'v option) \<Rightarrow> ('k \<times> 'v) list" where
  "range_over ks m = List.map_filter (\<lambda>k. map_option (Pair k) (m k)) ks"

lemma range_over_simps [simp]:
  "range_over [] m = []"
  "range_over (k # ks) m = (case m k of Some v \<Rightarrow> (k, v) # range_over ks m | None \<Rightarrow> range_over ks m)"
  by (auto simp: range_over_def List.map_filter_def split: option.splits)

lemma in_range_over: "(k, v) \<in> set (range_over ks m) \<longleftrightarrow> k \<in> set ks \<and> m k = Some v"
  by (induction ks) (auto split: option.splits)

lemma set_range_over [simp]: "iterates ks m \<Longrightarrow> set (range_over ks m) = {(k, v). m k = Some v}"
  by (auto simp: iterates_def in_range_over)

lemma map_fst_range_over [simp]: "iterates ks m \<Longrightarrow> map fst (range_over ks m) = ks"
proof -
  have "set ks \<subseteq> dom m \<Longrightarrow> map fst (range_over ks m) = ks"
    by (induction ks) auto
  then show "iterates ks m \<Longrightarrow> map fst (range_over ks m) = ks" by (simp add: iterates_def)
qed

lemma iterates_finite: "iterates ks m \<Longrightarrow> finite (dom m)"
  unfolding iterates_def by (metis List.finite_set)

lemma distinct_concat_upt:
  "(\<And>k. k < n \<Longrightarrow> distinct (f k)) \<Longrightarrow>
   (\<And>j k x. j < n \<Longrightarrow> k < n \<Longrightarrow> x \<in> set (f j) \<Longrightarrow> x \<in> set (f k) \<Longrightarrow> j = k) \<Longrightarrow>
     distinct (concat (map f [0..<n]))"
proof (induction n)
  case (Suc n)
  have "distinct (concat (map f [0..<n]))" by (rule Suc.IH) (use Suc.prems less_SucI in blast)+
  moreover have "distinct (f n)" using Suc.prems(1) by blast
  moreover have "set (f n) \<inter> (\<Union>k<n. set (f k)) = {}"
    using Suc.prems(2) [of n] by (fastforce simp: less_Suc_eq)
  ultimately show ?case by (auto simp: atLeast0LessThan)
qed simp

section \<open>Runs of a step relation\<close>

lemma step_then: "r a b \<Longrightarrow> r\<^sup>*\<^sup>* b c \<Longrightarrow> r\<^sup>*\<^sup>* a c"
  by (rule converse_rtranclp_into_rtranclp)

section \<open>Folding middleware around a handler\<close>

text \<open>
  \<open>for i := len(ms) - 1; i >= 0; i-- { h = ms[i](h) }\<close>: the first middleware ends up
  outermost.
\<close>

definition wrap_all :: "('h \<Rightarrow> 'h) list \<Rightarrow> 'h \<Rightarrow> 'h" where
  "wrap_all ms h = foldr (\<lambda>m h. m h) ms h"

lemma wrap_all_simps [simp]:
  "wrap_all [] h = h" "wrap_all (m # ms) h = m (wrap_all ms h)"
  by (simp_all add: wrap_all_def)

lemma wrap_all_append [simp]: "wrap_all (ms @ ns) h = wrap_all ms (wrap_all ns h)"
  by (simp add: wrap_all_def)

text \<open>What is left of a list slot after its owner has returned or moved on.\<close>

definition opt_list :: "'a option \<Rightarrow> 'a list" where
  "opt_list x = (case x of Some a \<Rightarrow> [a] | None \<Rightarrow> [])"

lemma opt_list_simps [simp]: "opt_list (Some a) = [a]" "opt_list None = []"
  by (simp_all add: opt_list_def)

end
