(* ===== verification/GoStrings.thy ===== *)
theory GoStrings
  imports Prelude
begin

text \<open>
  The functions of Go's packages \<open>strings\<close> and \<open>strconv\<close> the program calls: splitting at a
  one-byte separator, joining, trimming one byte, prefixes, and printing and reading numbers.
  Strings are lists of bytes.
\<close>

section \<open>Splitting, joining, trimming\<close>

text \<open>\<open>strings.Split(s, sep)\<close> for a one-byte separator.\<close>

fun split_on :: "char \<Rightarrow> string \<Rightarrow> string list" where
  "split_on c [] = [[]]"
| "split_on c (x # xs) =
     (if x = c then [] # split_on c xs
      else (case split_on c xs of [] \<Rightarrow> [[x]] | w # ws \<Rightarrow> (x # w) # ws))"

text \<open>\<open>strings.Join\<close>, and the loop of \<open>joinStrings\<close>.\<close>

fun join_with :: "string \<Rightarrow> string list \<Rightarrow> string" where
  "join_with s [] = []"
| "join_with s [w] = w"
| "join_with s (w # ws) = w @ s @ join_with s ws"

text \<open>\<open>strings.Trim(s, cutset)\<close> for a cutset of one byte.\<close>

definition trim_char :: "char \<Rightarrow> string \<Rightarrow> string" where
  "trim_char c s = rev (dropWhile (\<lambda>x. x = c) (rev (dropWhile (\<lambda>x. x = c) s)))"

definition has_prefix :: "string \<Rightarrow> string \<Rightarrow> bool" where
  "has_prefix p s \<longleftrightarrow> take (length p) s = p"

definition trim_prefix :: "string \<Rightarrow> string \<Rightarrow> string" where
  "trim_prefix p s = (if has_prefix p s then drop (length p) s else s)"

lemma split_on_nonempty [simp]: "split_on c s \<noteq> []"
  by (induction s) (auto split: list.splits)

lemma join_split [simp]: "join_with [c] (split_on c s) = s"
proof (induction s)
  case (Cons x xs)
  show ?case
  proof (cases "split_on c xs")
    case (Cons w ws)
    with \<open>join_with [c] (split_on c xs) = xs\<close> show ?thesis by (cases ws) auto
  qed simp
qed simp

lemma split_on_sep_free: "w \<in> set (split_on c s) \<Longrightarrow> c \<notin> set w"
proof (induction s arbitrary: w)
  case (Cons x xs)
  then show ?case by (cases "split_on c xs") (auto split: if_splits)
qed simp

lemma split_on_word [simp]: "c \<notin> set w \<Longrightarrow> split_on c w = [w]"
  by (induction w) auto

lemma split_on_append: "c \<notin> set w \<Longrightarrow> split_on c (w @ c # s) = w # split_on c s"
  by (induction w) auto

lemma split_join: "ws \<noteq> [] \<Longrightarrow> (\<forall>w\<in>set ws. c \<notin> set w) \<Longrightarrow> split_on c (join_with [c] ws) = ws"
proof (induction "[c]" ws rule: join_with.induct)
  case (3 w v ws)
  then show ?case by (simp add: split_on_append)
qed auto

lemma trim_char_id: "s = [] \<or> hd s \<noteq> c \<and> last s \<noteq> c \<Longrightarrow> trim_char c s = s"
proof -
  assume "s = [] \<or> hd s \<noteq> c \<and> last s \<noteq> c"
  then consider "s = []" | "s \<noteq> []" "hd s \<noteq> c" "hd (rev s) \<noteq> c" by (auto simp: hd_rev)
  then show ?thesis
  proof cases
    case 2
    then have "dropWhile (\<lambda>x. x = c) s = s" "dropWhile (\<lambda>x. x = c) (rev s) = rev s"
      by (cases s; cases "rev s"; auto)+
    then show ?thesis by (simp add: trim_char_def)
  qed (simp add: trim_char_def)
qed

lemma trim_char_Cons [simp]: "trim_char c (c # s) = trim_char c s"
  by (simp add: trim_char_def)

lemma trim_char_snoc [simp]: "trim_char c (s @ [c]) = trim_char c s"
proof (cases "\<forall>x\<in>set s. x = c")
  case True
  then have a: "dropWhile (\<lambda>x. x = c) s = []" by (simp only: dropWhile_eq_Nil_conv)
  have "dropWhile (\<lambda>x. x = c) (s @ [c]) = dropWhile (\<lambda>x. x = c) [c]"
    by (rule dropWhile_append2) (use True in blast)
  then show ?thesis unfolding trim_char_def a by simp
next
  case False
  then have "dropWhile (\<lambda>x. x = c) (s @ [c]) = dropWhile (\<lambda>x. x = c) s @ [c]"
    by (auto simp: dropWhile_append1)
  then show ?thesis by (simp add: trim_char_def)
qed

lemma has_prefix_append [simp]: "has_prefix p (p @ s)"
  by (simp add: has_prefix_def)

lemma trim_prefix_append [simp]: "trim_prefix p (p @ s) = s"
  by (simp add: trim_prefix_def)

lemma has_prefix_char [simp]: "has_prefix [c] s \<longleftrightarrow> s \<noteq> [] \<and> hd s = c"
  by (cases s) (auto simp: has_prefix_def)

section \<open>Numbers\<close>

definition digit_chars :: string where
  "digit_chars = ''0123456789abcdefghijklmnopqrstuvwxyz''"

text \<open>The value of a digit; \<open>None\<close> for any other byte.\<close>

definition digit_val :: "char \<Rightarrow> nat option" where
  "digit_val ch = map_option fst (find (\<lambda>(i, d). d = ch) (enumerate 0 digit_chars))"

text \<open>\<open>strconv.FormatUint(n, base)\<close> for a base of 2 to 36.\<close>

fun format_base :: "nat \<Rightarrow> nat \<Rightarrow> string" where
  "format_base b n =
     (if n < b \<or> b < 2 then [digit_chars ! n]
      else format_base b (n div b) @ [digit_chars ! (n mod b)])"

declare format_base.simps [simp del]

text \<open>Reading digits, most significant first, with an accumulator as \<open>strconv\<close> does it.\<close>

fun parse_digits :: "nat \<Rightarrow> nat \<Rightarrow> string \<Rightarrow> nat option" where
  "parse_digits b acc [] = Some acc"
| "parse_digits b acc (ch # chs) =
     (case digit_val ch of
        Some d \<Rightarrow> if d < b then parse_digits b (acc * b + d) chs else None
      | None \<Rightarrow> None)"

lemma digit_val_char: "d < 36 \<Longrightarrow> digit_val (digit_chars ! d) = Some d"
proof -
  have "list_all (\<lambda>d. digit_val (digit_chars ! d) = Some d) [0..<36]" by code_simp
  then show "d < 36 \<Longrightarrow> ?thesis" by (simp add: list_all_iff)
qed

lemma parse_digits_append:
  "parse_digits b acc (xs @ ys) =
     (case parse_digits b acc xs of Some a \<Rightarrow> parse_digits b a ys | None \<Rightarrow> None)"
  by (induction xs arbitrary: acc) (auto split: option.splits)

lemma parse_format: "2 \<le> b \<Longrightarrow> b \<le> 36 \<Longrightarrow> parse_digits b 0 (format_base b n) = Some n"
proof (induction b n rule: format_base.induct)
  case (1 b n)
  show ?case
  proof (cases "n < b")
    case True
    with 1 show ?thesis by (subst format_base.simps) (simp add: digit_val_char)
  next
    case False
    have lt: "n mod b < b" using 1 by simp
    then have "n mod b < 36" using 1 by linarith
    with lt False 1 show ?thesis
      by (subst format_base.simps) (simp add: parse_digits_append digit_val_char)
  qed
qed

lemma format_base_nonempty [simp]: "format_base b n \<noteq> []"
  by (subst format_base.simps) simp

lemma format_base_inj: "2 \<le> b \<Longrightarrow> b \<le> 36 \<Longrightarrow> format_base b m = format_base b n \<Longrightarrow> m = n"
  by (metis option.inject parse_format)

text \<open>\<open>strconv.Itoa\<close> and \<open>strconv.FormatInt(i, 10)\<close>.\<close>

definition itoa :: "int \<Rightarrow> string" where
  "itoa i = (if i < 0 then ''-'' @ format_base 10 (nat (- i)) else format_base 10 (nat i))"

abbreviation ErrSyntax :: go_error where "ErrSyntax \<equiv> Err ''invalid syntax''"
abbreviation ErrRange :: go_error where "ErrRange \<equiv> Err ''value out of range''"

definition in_int64 :: "int \<Rightarrow> bool" where
  "in_int64 i \<longleftrightarrow> - (2 ^ 63) \<le> i \<and> i < 2 ^ 63"

text \<open>\<open>strconv.Atoi\<close> on a 64-bit platform: an optional sign, then digits, then the range.\<close>

definition atoi :: "string \<Rightarrow> int result" where
  "atoi s =
     (let (neg, ds) = (case s of
          [] \<Rightarrow> (False, [])
        | ch # chs \<Rightarrow> if ch = CHR ''-'' then (True, chs)
                      else if ch = CHR ''+'' then (False, chs) else (False, s))
      in if ds = [] then Inl ErrSyntax
         else (case parse_digits 10 0 ds of
             None \<Rightarrow> Inl ErrSyntax
           | Some n \<Rightarrow> (let i = (if neg then - int n else int n)
                        in if in_int64 i then Inr i else Inl ErrRange)))"

lemma digit_chars_no_sign: "d < 36 \<Longrightarrow> digit_chars ! d \<noteq> CHR ''-'' \<and> digit_chars ! d \<noteq> CHR ''+''"
proof -
  have "list_all (\<lambda>d. digit_chars ! d \<noteq> CHR ''-'' \<and> digit_chars ! d \<noteq> CHR ''+'') [0..<36]"
    by code_simp
  then show "d < 36 \<Longrightarrow> ?thesis" by (simp add: list_all_iff)
qed

lemma set_format_base: "2 \<le> b \<Longrightarrow> b \<le> 36 \<Longrightarrow> set (format_base b n) \<subseteq> (\<lambda>d. digit_chars ! d) ` {..<36}"
proof (induction b n rule: format_base.induct)
  case (1 b n)
  have "n mod b < b" using 1 by simp
  then have "n mod b < 36" using 1 by linarith
  with 1 show ?case by (subst format_base.simps) auto
qed

lemma hd_format_base_no_sign: "hd (format_base 10 n) \<noteq> CHR ''-'' \<and> hd (format_base 10 n) \<noteq> CHR ''+''"
proof -
  have "hd (format_base 10 n) \<in> set (format_base 10 n)" by simp
  then have "hd (format_base 10 n) \<in> (\<lambda>d. digit_chars ! d) ` {..<36}"
    using set_format_base [of 10 n] by auto
  then obtain d where "d < 36" "hd (format_base 10 n) = digit_chars ! d" by auto
  then show ?thesis using digit_chars_no_sign by simp
qed

lemma atoi_itoa: "in_int64 i \<Longrightarrow> atoi (itoa i) = Inr i"
proof -
  assume i: "in_int64 i"
  obtain ch chs where f: "format_base 10 (nat \<bar>i\<bar>) = ch # chs"
    by (meson format_base_nonempty neq_Nil_conv)
  with hd_format_base_no_sign [of "nat \<bar>i\<bar>"] have s: "ch \<noteq> CHR ''-''" "ch \<noteq> CHR ''+''" by auto
  have p: "parse_digits 10 0 (ch # chs) = Some (nat \<bar>i\<bar>)"
    using parse_format [of 10 "nat \<bar>i\<bar>"] f by simp
  show ?thesis
  proof (cases "i < 0")
    case True
    with f have "itoa i = CHR ''-'' # ch # chs" by (simp add: itoa_def)
    with True p i show ?thesis by (simp add: atoi_def del: parse_digits.simps)
  next
    case False
    with f have "itoa i = ch # chs" by (simp add: itoa_def)
    with False p i s show ?thesis by (simp add: atoi_def del: parse_digits.simps)
  qed
qed

lemma itoa_digits_no: "c \<notin> set digit_chars \<Longrightarrow> c \<noteq> CHR ''-'' \<Longrightarrow> c \<notin> set (itoa i)"
proof -
  assume c: "c \<notin> set digit_chars" "c \<noteq> CHR ''-''"
  have len: "length digit_chars = 36" by code_simp
  have "set (format_base 10 n) \<subseteq> set digit_chars" for n
    using set_format_base [of 10 n] len by (auto simp: subset_iff)
  with c show ?thesis by (auto simp: itoa_def)
qed

text \<open>
  The value \<open>strconv.Atoi\<close> returns beside its error, which some callers drop: zero for a
  syntax error, the nearest integer when the number is out of range.  The digits are read until one is
  no digit or the number exceeds 64 bits.
\<close>

fun scan_digits :: "nat \<Rightarrow> string \<Rightarrow> nat option" where
  "scan_digits n [] = Some n"
| "scan_digits n (ch # chs) =
     (case digit_val ch of
        Some d \<Rightarrow> if d \<ge> 10 then None
                  else if n * 10 + d \<ge> 2 ^ 64 then Some (n * 10 + d) else scan_digits (n * 10 + d) chs
      | None \<Rightarrow> None)"

definition atoi_value :: "string \<Rightarrow> int" where
  "atoi_value s =
     (case atoi s of
        Inr i \<Rightarrow> i
      | Inl _ \<Rightarrow>
          (let (neg, ds) = (case s of
               [] \<Rightarrow> (False, [])
             | ch # chs \<Rightarrow> if ch = CHR ''-'' then (True, chs) else if ch = CHR ''+'' then (False, chs) else (False, s))
           in if ds = [] then 0
              else (case scan_digits 0 ds of
                  None \<Rightarrow> 0 | Some n \<Rightarrow> if neg then max (- (2 ^ 63)) (- int n) else min (2 ^ 63 - 1) (int n))))"

end
