(* ===== verification/HttpBase.thy ===== *)
theory HttpBase
  imports GoStrings
begin

text \<open>
  What \<open>net/http\<close> gives a handler: the request, and the response writer with its rules (the first
  \<open>WriteHeader\<close> decides, a later one is ignored; \<open>Write\<close> sends 200 when nothing was sent; an
  invalid code panics).  A handler is a function from the request and a state to an outcome, a
  value or a panic, and the state it leaves.  \<open>statusResponseWriter\<close> (\<open>middleware/http.go\<close>) wraps a
  writer: the state keeps the stack of the wrappers around the connection's writer.
\<close>

section \<open>Outcomes\<close>

type_synonym ('s, 'a) eff = "'s \<Rightarrow> 'a outcome \<times> 's"

text \<open>Sequencing: a panic leaves at once.\<close>

definition eff_bind :: "('s, 'a) eff \<Rightarrow> ('a \<Rightarrow> ('s, 'b) eff) \<Rightarrow> ('s, 'b) eff" where
  "eff_bind m f s = (case m s of (Ret a, s') \<Rightarrow> f a s' | (Panicked p, s') \<Rightarrow> (Panicked p, s'))"

definition eff_ret :: "'a \<Rightarrow> ('s, 'a) eff" where
  "eff_ret a s = (Ret a, s)"

text \<open>A \<open>defer\<close>red function that cannot panic, and \<open>recover\<close> in a deferred function.\<close>

definition eff_defer :: "('s \<Rightarrow> 's) \<Rightarrow> ('s, 'a) eff \<Rightarrow> ('s, 'a) eff" where
  "eff_defer f m s = (let (r, s') = m s in (r, f s'))"

definition eff_recover :: "(string \<Rightarrow> ('s, 'a) eff) \<Rightarrow> ('s, 'a) eff \<Rightarrow> ('s, 'a) eff" where
  "eff_recover h m s = (case m s of (Ret a, s') \<Rightarrow> (Ret a, s') | (Panicked p, s') \<Rightarrow> h p s')"

lemma eff_bind_ret [simp]: "eff_bind (eff_ret a) f = f a" "eff_bind m eff_ret = m"
  by (auto simp: eff_bind_def eff_ret_def fun_eq_iff split: prod.splits outcome.splits)

lemma eff_bind_assoc [simp]: "eff_bind (eff_bind m f) g = eff_bind m (\<lambda>a. eff_bind (f a) g)"
  by (auto simp: eff_bind_def fun_eq_iff split: prod.splits outcome.splits)

section \<open>Requests and responses\<close>

text \<open>Header keys are compared in the canonical form; the model keeps one value per key.\<close>

fun canonical_go :: "bool \<Rightarrow> string \<Rightarrow> string" where
  "canonical_go up [] = []"
| "canonical_go up (c # s) =
     (let n = of_char c :: nat;
          c' = (if up \<and> 97 \<le> n \<and> n \<le> 122 then char_of (n - 32)
                else if \<not> up \<and> 65 \<le> n \<and> n \<le> 90 then char_of (n + 32) else c)
      in c' # canonical_go (c = CHR ''-'') s)"

definition canonical_key :: "string \<Rightarrow> string" where
  "canonical_key s = (if CHR '' '' \<in> set s then s else canonical_go True s)"

record http_request =
  rq_method :: string
  rq_path :: string
  rq_query :: "string \<Rightarrow> string"
  rq_header :: "string \<Rightarrow> string"  \<comment> \<open>by canonical key, \<open>''''\<close> when absent\<close>

definition rq_Get :: "string \<Rightarrow> http_request \<Rightarrow> string" where
  "rq_Get key r = rq_header r (canonical_key key)"

text \<open>
  \<open>rs_status\<close> is \<open>None\<close> until the header is sent, \<open>rs_sent\<close> the header map as it was then.
\<close>

record response =
  rs_header :: "string \<Rightarrow> string option"
  rs_status :: "int option"
  rs_sent :: "string \<Rightarrow> string option"
  rs_body :: string

definition new_response :: response where
  "new_response = \<lparr>rs_header = (\<lambda>_. None), rs_status = None, rs_sent = (\<lambda>_. None), rs_body = []\<rparr>"

text \<open>
  The state of a running handler: the response, the status codes of the \<open>statusResponseWriter\<close>s
  around it (the outermost first), what is left of the request's body, the parameters of the context
  in use and of the pooled ones, and the rest of the program.
\<close>

record 'w http_state =
  ht_resp :: response
  ht_codes :: "int list"
  ht_body :: "string result"
  ht_params :: "string \<Rightarrow> string option"
  ht_pool :: "(string \<Rightarrow> string option) list"
  ht_world :: 'w

type_synonym ('w, 'a) http_eff = "('w http_state, 'a) eff"
type_synonym 'w http_handler = "http_request \<Rightarrow> ('w, unit) http_eff"

section \<open>The response writer\<close>

definition header_Set :: "string \<Rightarrow> string \<Rightarrow> 'w http_state \<Rightarrow> 'w http_state" where
  "header_Set key v s =
     s\<lparr>ht_resp := (ht_resp s)\<lparr>rs_header := (rs_header (ht_resp s))(canonical_key key \<mapsto> v)\<rparr>\<rparr>"

text \<open>The connection's own \<open>WriteHeader\<close>: informational codes do not end the header.\<close>

definition valid_code :: "int \<Rightarrow> bool" where
  "valid_code code \<longleftrightarrow> 100 \<le> code \<and> code \<le> 999"

definition informational :: "int \<Rightarrow> bool" where
  "informational code \<longleftrightarrow> 100 \<le> code \<and> code \<le> 199 \<and> code \<noteq> 101"

definition conn_WriteHeader :: "int \<Rightarrow> ('w, unit) http_eff" where
  "conn_WriteHeader code s =
     (let rs = ht_resp s
      in if rs_status rs \<noteq> None then (Ret (), s)
         else if \<not> valid_code code then (Panicked ''invalid WriteHeader code'', s)
         else if informational code then (Ret (), s)
         else (Ret (), s\<lparr>ht_resp := rs\<lparr>rs_status := Some code, rs_sent := rs_header rs\<rparr>\<rparr>))"

text \<open>
  \<open>WriteHeader\<close> through the wrappers: each one records the code before it passes it on.  The
  embedded writer's other methods are the connection's: \<open>Write\<close> records nothing.
\<close>

definition WriteHeader :: "int \<Rightarrow> ('w, unit) http_eff" where
  "WriteHeader code s = conn_WriteHeader code (s\<lparr>ht_codes := map (\<lambda>_. code) (ht_codes s)\<rparr>)"

definition body_allowed :: "int \<Rightarrow> bool" where
  "body_allowed code \<longleftrightarrow> \<not> (100 \<le> code \<and> code \<le> 199) \<and> code \<noteq> 204 \<and> code \<noteq> 304"

abbreviation ErrBodyNotAllowed :: go_error where
  "ErrBodyNotAllowed \<equiv> Err ''http: request method or response status code does not allow body''"

definition rw_Write :: "string \<Rightarrow> ('w, go_error option) http_eff" where
  "rw_Write data = eff_bind (conn_WriteHeader 200) (\<lambda>_ s.
     let rs = ht_resp s
     in if data \<noteq> [] \<and> (case rs_status rs of Some code \<Rightarrow> \<not> body_allowed code | None \<Rightarrow> False)
        then (Ret (Some ErrBodyNotAllowed), s)
        else (Ret None, s\<lparr>ht_resp := rs\<lparr>rs_body := rs_body rs @ data\<rparr>\<rparr>))"

definition header_Del :: "string \<Rightarrow> 'w http_state \<Rightarrow> 'w http_state" where
  "header_Del key s =
     s\<lparr>ht_resp := (ht_resp s)\<lparr>rs_header := (rs_header (ht_resp s))(canonical_key key := None)\<rparr>\<rparr>"

definition http_Error :: "string \<Rightarrow> int \<Rightarrow> ('w, unit) http_eff" where
  "http_Error message code s =
     eff_bind (WriteHeader code) (\<lambda>_. eff_bind (rw_Write (message @ [CHR 0x0A])) (\<lambda>_. eff_ret ()))
       (header_Set ''X-Content-Type-Options'' ''nosniff''
         (header_Set ''Content-Type'' ''text/plain; charset=utf-8'' (header_Del ''Content-Length'' s)))"

section \<open>Facts\<close>

definition sent :: "'w http_state \<Rightarrow> int option" where
  "sent s = rs_status (ht_resp s)"

lemma header_Set_sent [simp]: "sent (header_Set k v s) = sent s"
  by (simp add: header_Set_def sent_def)

lemma header_Del_fields [simp]:
  "ht_codes (header_Del k s) = ht_codes s" "ht_params (header_Del k s) = ht_params s"
  "ht_pool (header_Del k s) = ht_pool s" "ht_world (header_Del k s) = ht_world s"
  "rs_body (ht_resp (header_Del k s)) = rs_body (ht_resp s)"
  "rs_status (ht_resp (header_Del k s)) = rs_status (ht_resp s)"
  "rs_header (ht_resp (header_Del k s)) = (rs_header (ht_resp s))(canonical_key k := None)"
  "sent (header_Del k s) = sent s"
  by (simp_all add: header_Del_def sent_def)

lemma header_Set_fields [simp]:
  "ht_codes (header_Set k v s) = ht_codes s" "ht_params (header_Set k v s) = ht_params s"
  "ht_pool (header_Set k v s) = ht_pool s" "ht_world (header_Set k v s) = ht_world s"
  "rs_body (ht_resp (header_Set k v s)) = rs_body (ht_resp s)"
  "rs_status (ht_resp (header_Set k v s)) = rs_status (ht_resp s)"
  "rs_header (ht_resp (header_Set k v s)) = (rs_header (ht_resp s))(canonical_key k \<mapsto> v)"
  by (simp_all add: header_Set_def)

definition final_code :: "int \<Rightarrow> bool" where
  "final_code code \<longleftrightarrow> valid_code code \<and> \<not> informational code"

lemma WriteHeader_first:
  "sent s = None \<Longrightarrow> final_code code \<Longrightarrow>
     WriteHeader code s = (Ret (), s\<lparr>ht_codes := map (\<lambda>_. code) (ht_codes s),
       ht_resp := (ht_resp s)\<lparr>rs_status := Some code, rs_sent := rs_header (ht_resp s)\<rparr>\<rparr>)"
  by (simp add: WriteHeader_def conn_WriteHeader_def Let_def sent_def final_code_def)

lemma WriteHeader_late:
  "sent s = Some c \<Longrightarrow> WriteHeader code s = (Ret (), s\<lparr>ht_codes := map (\<lambda>_. code) (ht_codes s)\<rparr>)"
  by (simp add: WriteHeader_def conn_WriteHeader_def Let_def sent_def)

lemma rw_Write_sent:
  "sent s = Some c \<Longrightarrow> body_allowed c \<Longrightarrow>
     rw_Write data s = (Ret None, s\<lparr>ht_resp := (ht_resp s)\<lparr>rs_body := rs_body (ht_resp s) @ data\<rparr>\<rparr>)"
  by (simp add: rw_Write_def eff_bind_def conn_WriteHeader_def Let_def sent_def)

lemma http_Error_first:
  assumes "sent s = None" and "final_code code" and "body_allowed code"
  shows "\<exists>s'. http_Error message code s = (Ret (), s') \<and> sent s' = Some code \<and>
     ht_codes s' = map (\<lambda>_. code) (ht_codes s) \<and> ht_world s' = ht_world s \<and>
     rs_body (ht_resp s') = rs_body (ht_resp s) @ message @ [CHR 0x0A]"
  using assms
  by (simp add: http_Error_def eff_bind_def eff_ret_def WriteHeader_first rw_Write_sent)
    (simp add: sent_def rw_Write_def eff_bind_def eff_ret_def conn_WriteHeader_def Let_def)

text \<open>A request without headers, and the state a handler starts in.\<close>

definition bare_request :: "string \<Rightarrow> string \<Rightarrow> http_request" where
  "bare_request m path = \<lparr>rq_method = m, rq_path = path, rq_query = (\<lambda>_. []), rq_header = (\<lambda>_. [])\<rparr>"

definition fresh_state :: "'w \<Rightarrow> 'w http_state" where
  "fresh_state w = \<lparr>ht_resp = new_response, ht_codes = [], ht_body = Inr [], ht_params = (\<lambda>_. None), ht_pool = [], ht_world = w\<rparr>"

end
