(* ===== verification/HealthState.thy ===== *)
theory HealthState
  imports Prelude
begin

text \<open>
  Readiness (\<open>health/health.go\<close>): health states are objects that a transport and the manager
  share, so they live in a heap and are named by references; the manager holds references in the
  order they were added.
\<close>

record health_state =
  hs_ready :: bool
  hs_name :: string

record health_heap =
  hh_next :: nat
  hh_state :: "nat \<Rightarrow> health_state"

text \<open>\<open>NewHealthState\<close>: a fresh object, not ready (the zero \<open>atomic.Bool\<close>).\<close>

definition NewHealthState :: "string \<Rightarrow> health_heap \<Rightarrow> nat \<times> health_heap" where
  "NewHealthState name h =
     (hh_next h, h\<lparr>hh_next := hh_next h + 1,
                   hh_state := (hh_state h)(hh_next h := \<lparr>hs_ready = False, hs_name = name\<rparr>)\<rparr>)"

definition health_Name :: "nat \<Rightarrow> health_heap \<Rightarrow> string" where
  "health_Name x h = hs_name (hh_state h x)"

definition health_set :: "bool \<Rightarrow> nat \<Rightarrow> health_heap \<Rightarrow> health_heap" where
  "health_set v x h = h\<lparr>hh_state := (hh_state h)(x := (hh_state h x)\<lparr>hs_ready := v\<rparr>)\<rparr>"

abbreviation health_SetReady :: "nat \<Rightarrow> health_heap \<Rightarrow> health_heap" where
  "health_SetReady \<equiv> health_set True"

abbreviation health_SetNoReady :: "nat \<Rightarrow> health_heap \<Rightarrow> health_heap" where
  "health_SetNoReady \<equiv> health_set False"

definition health_IsReady :: "nat \<Rightarrow> health_heap \<Rightarrow> bool" where
  "health_IsReady x h = hs_ready (hh_state h x)"

section \<open>The manager\<close>

type_synonym health_manager = "nat list"

definition newHealthManager :: health_manager where
  "newHealthManager = []"

definition hm_addHealthState :: "nat \<Rightarrow> health_manager \<Rightarrow> health_manager" where
  "hm_addHealthState x hm = hm @ [x]"

definition hm_SetReady :: "health_manager \<Rightarrow> health_heap \<Rightarrow> health_heap" where
  "hm_SetReady hm h = fold health_SetReady hm h"

definition hm_SetNoReady :: "health_manager \<Rightarrow> health_heap \<Rightarrow> health_heap" where
  "hm_SetNoReady hm h = fold health_SetNoReady hm h"

fun hm_IsReady :: "health_manager \<Rightarrow> health_heap \<Rightarrow> bool" where
  "hm_IsReady [] h = True"
| "hm_IsReady (x # hm) h = (if \<not> health_IsReady x h then False else hm_IsReady hm h)"

definition health_line :: "health_heap \<Rightarrow> nat \<Rightarrow> string" where
  "health_line h x =
     health_Name x h @ (if health_IsReady x h then '' is ready'' else '' is not ready'') @ [CHR 0x0A]"

definition hm_verHealthInfo :: "health_manager \<Rightarrow> health_heap \<Rightarrow> string" where
  "hm_verHealthInfo hm h = concat (map (health_line h) hm)"

section \<open>Listening\<close>

text \<open>
  The addresses bound on the machine; \<open>Listen\<close> on a bound one fails.  Both servers listen, and both
  mark their health states, so this is kept here.
\<close>

abbreviation ErrAddrInUse :: go_error where "ErrAddrInUse \<equiv> Err ''bind: address already in use''"

definition net_Listen :: "string \<Rightarrow> string set \<Rightarrow> go_error option \<times> string set" where
  "net_Listen addr bound = (if addr \<in> bound then (Some ErrAddrInUse, bound) else (None, insert addr bound))"

section \<open>Properties\<close>

lemma health_IsReady_set [simp]:
  "health_IsReady x (health_set v y h) = (if x = y then v else health_IsReady x h)"
  by (simp add: health_IsReady_def health_set_def)

lemma health_IsReady_fold:
  "health_IsReady x (fold (health_set v) hm h) = (if x \<in> set hm then v else health_IsReady x h)"
  by (induction hm arbitrary: h) auto

lemma hm_IsReady_iff: "hm_IsReady hm h \<longleftrightarrow> (\<forall>x\<in>set hm. health_IsReady x h)"
  by (induction hm) auto

text \<open>
  The manager is ready exactly when every state added to it is: all-ready makes it ready,
  all-not-ready makes it not ready unless it is empty, and a transport that marks its own state
  not ready takes the manager down with it, whatever the order of the states.
\<close>

theorem health_manager_readiness:
  "hm_IsReady hm (hm_SetReady hm h) \<and>
   (hm_IsReady hm (hm_SetNoReady hm h) \<longleftrightarrow> hm = []) \<and>
   (hm_IsReady (hm_addHealthState x hm) (health_SetNoReady x h) = False) \<and>
   hm_IsReady hm h = list_all (\<lambda>x. health_IsReady x h) hm"
  by (cases hm)
    (auto simp: hm_IsReady_iff hm_SetReady_def hm_SetNoReady_def hm_addHealthState_def
      health_IsReady_fold list_all_iff)

end
