(* ===== verification/GrpcServer.thy ===== *)
theory GrpcServer
  imports HttpBase HealthState
begin

text \<open>
  The gRPC transport (\<open>transport/grpc/grpc.go\<close>, \<open>server.go\<close>, \<open>options.go\<close>).  The gRPC library's server
  is the record of what it was built with; listening works on the set of the addresses bound on the
  machine.  Interceptors are the middleware of handlers that may panic.
\<close>

section \<open>Handlers and interceptors\<close>

text \<open>A unary handler returns a response and an error, or panics; a stream handler returns an error.\<close>

type_synonym ('req, 'resp, 'w) grpc_handler = "'req \<Rightarrow> ('w, 'resp option \<times> go_error option) eff"
type_synonym ('req, 'resp, 'w) interceptor = "('req, 'resp, 'w) grpc_handler \<Rightarrow> ('req, 'resp, 'w) grpc_handler"
type_synonym 'w stream_handler = "('w, go_error option) eff"
type_synonym 'w stream_interceptor = "'w stream_handler \<Rightarrow> 'w stream_handler"

abbreviation ErrInternal :: go_error where "ErrInternal \<equiv> Err ''internal error''"

definition recoveryInterceptor :: "('req, 'resp, 'w) interceptor" where
  "recoveryInterceptor handler req =
     eff_recover (\<lambda>_. eff_ret (None, Some ErrInternal)) (handler req)"

text \<open>\<open>log\<close> writes the line of a failed call: \<open>loggingInterceptor\<close> passes the result on.\<close>

definition loggingInterceptor :: "(go_error \<Rightarrow> 'w \<Rightarrow> 'w) \<Rightarrow> ('req, 'resp, 'w) interceptor" where
  "loggingInterceptor log handler req =
     eff_bind (handler req) (\<lambda>(resp, err) s.
       (Ret (resp, err), case err of Some e \<Rightarrow> log e s | None \<Rightarrow> s))"

definition streamRecoveryInterceptor :: "'w stream_interceptor" where
  "streamRecoveryInterceptor handler = eff_recover (\<lambda>_. eff_ret (Some ErrInternal)) handler"

definition buildUnaryInterceptors ::
    "(go_error \<Rightarrow> 'w \<Rightarrow> 'w) \<Rightarrow> ('req, 'resp, 'w) interceptor list \<Rightarrow> ('req, 'resp, 'w) interceptor list" where
  "buildUnaryInterceptors log user = [recoveryInterceptor, loggingInterceptor log] @ user"

definition buildStreamInterceptors :: "'w stream_interceptor list \<Rightarrow> 'w stream_interceptor list" where
  "buildStreamInterceptors user = [streamRecoveryInterceptor] @ user"

section \<open>Options\<close>

text \<open>Server options of the gRPC library are a type \<open>'o\<close>; the codec is not used by the server.\<close>

record ('o, 'u, 's) grpc_options =
  go_Name :: string
  go_ID :: string
  go_Version :: string
  go_Address :: string
  go_MaxConn :: nat
  go_Health :: bool
  go_ReadTimeout :: duration
  go_WriteTimeout :: duration
  go_TLSCert :: string
  go_TLSKey :: string
  go_TLSCACert :: string
  go_TLSMutual :: bool
  go_GrpcOptions :: "'o list"
  go_UnaryInterceptors :: "'u list"
  go_StreamInterceptors :: "'s list"
  go_Metadata :: "string \<Rightarrow> string option"

definition grpc_DefaultOptions :: "string \<Rightarrow> ('o, 'u, 's) grpc_options" where
  "grpc_DefaultOptions uuid =
     \<lparr>go_Name = ''grpc-service'', go_ID = take 8 uuid, go_Version = [], go_Address = '':9000'',
      go_MaxConn = 1000, go_Health = True, go_ReadTimeout = 30 * second, go_WriteTimeout = 30 * second,
      go_TLSCert = [], go_TLSKey = [], go_TLSCACert = [], go_TLSMutual = False, go_GrpcOptions = [],
      go_UnaryInterceptors = [], go_StreamInterceptors = [], go_Metadata = (\<lambda>_. None)\<rparr>"

datatype ('o, 'u, 's) grpc_option =
    GrpcWithName string | GrpcWithID string | GrpcWithVersion string | GrpcWithAddress string
  | GrpcWithMaxConn nat | GrpcWithHealth bool | GrpcWithGrpcOptions "'o list" | GrpcWithUnaryInterceptor 'u
  | GrpcWithStreamInterceptor 's | GrpcWithMetadata "string \<Rightarrow> string option"
  | GrpcWithTimeout duration duration | GrpcWithTLS string string | GrpcWithMutualTLS string string string

fun apply_grpc_option :: "('o, 'u, 's) grpc_option \<Rightarrow> ('o, 'u, 's) grpc_options \<Rightarrow> ('o, 'u, 's) grpc_options" where
  "apply_grpc_option (GrpcWithName n) oo = oo\<lparr>go_Name := n\<rparr>"
| "apply_grpc_option (GrpcWithID i) oo = oo\<lparr>go_ID := i\<rparr>"
| "apply_grpc_option (GrpcWithVersion v) oo = oo\<lparr>go_Version := v\<rparr>"
| "apply_grpc_option (GrpcWithAddress a) oo = oo\<lparr>go_Address := a\<rparr>"
| "apply_grpc_option (GrpcWithMaxConn n) oo = oo\<lparr>go_MaxConn := n\<rparr>"
| "apply_grpc_option (GrpcWithHealth b) oo = oo\<lparr>go_Health := b\<rparr>"
| "apply_grpc_option (GrpcWithGrpcOptions os) oo = oo\<lparr>go_GrpcOptions := go_GrpcOptions oo @ os\<rparr>"
| "apply_grpc_option (GrpcWithUnaryInterceptor i) oo = oo\<lparr>go_UnaryInterceptors := go_UnaryInterceptors oo @ [i]\<rparr>"
| "apply_grpc_option (GrpcWithStreamInterceptor i) oo = oo\<lparr>go_StreamInterceptors := go_StreamInterceptors oo @ [i]\<rparr>"
| "apply_grpc_option (GrpcWithMetadata md) oo = oo\<lparr>go_Metadata := md\<rparr>"
| "apply_grpc_option (GrpcWithTimeout r w) oo = oo\<lparr>go_ReadTimeout := r, go_WriteTimeout := w\<rparr>"
| "apply_grpc_option (GrpcWithTLS c k) oo = oo\<lparr>go_TLSCert := c, go_TLSKey := k\<rparr>"
| "apply_grpc_option (GrpcWithMutualTLS c k ca) oo =
     oo\<lparr>go_TLSCert := c, go_TLSKey := k, go_TLSCACert := ca, go_TLSMutual := True\<rparr>"

section \<open>The server\<close>

text \<open>
  What the files of the TLS configuration hold: loading the key pair, reading a file, and whether the
  certificates of a file can be added to a pool.
\<close>

record tls_files =
  tf_LoadX509KeyPair :: "string \<Rightarrow> string \<Rightarrow> go_error option"
  tf_ReadFile :: "string \<Rightarrow> string result"
  tf_AppendCerts :: "string \<Rightarrow> bool"

text \<open>\<open>tls.Config\<close>: the key pair, and the pool clients are verified against.\<close>

type_synonym tls_config = "(string \<times> string) \<times> string option"

definition loadTLSCredentials :: "tls_files \<Rightarrow> ('o, 'u, 's) grpc_options \<Rightarrow> tls_config result" where
  "loadTLSCredentials tf oo =
     (case tf_LoadX509KeyPair tf (go_TLSCert oo) (go_TLSKey oo) of
        Some err \<Rightarrow> Inl (Wrap ''failed to load server cert'' err)
      | None \<Rightarrow>
          if go_TLSMutual oo \<and> go_TLSCACert oo \<noteq> []
          then (case tf_ReadFile tf (go_TLSCACert oo) of
              Inl err \<Rightarrow> Inl (Wrap ''failed to read CA cert'' err)
            | Inr caCert \<Rightarrow>
                if \<not> tf_AppendCerts tf caCert then Inl (Err ''failed to append CA cert'')
                else Inr ((go_TLSCert oo, go_TLSKey oo), Some caCert))
          else Inr ((go_TLSCert oo, go_TLSKey oo), None))"

text \<open>
  The library's server: the options and interceptors it was made with, and whether it serves.  The
  listener is the address it is bound to.
\<close>

record ('o, 'u, 's) grpc_lib_server =
  gl_options :: "'o list"
  gl_unary :: "'u list"
  gl_stream :: "'s list"
  gl_tls :: "tls_config option"
  gl_registered :: bool
  gl_health :: bool
  gl_serving :: bool

record ('o, 'u, 's) grpc_server =
  gs_opts :: "('o, 'u, 's) grpc_options"
  gs_server :: "('o, 'u, 's) grpc_lib_server option"
  gs_hasHealth :: bool
  gs_healthStatus :: nat
  gs_listener :: "string option"
  gs_registerFn :: bool
  gs_addr :: string

definition grpc_NewServer ::
    "('o, 'u, 's) grpc_option list \<Rightarrow> string \<Rightarrow> health_heap \<Rightarrow> ('o, 'u, 's) grpc_server \<times> health_heap" where
  "grpc_NewServer os uuid h =
     (let options = fold apply_grpc_option os (grpc_DefaultOptions uuid);
          (ref, h') = NewHealthState (''grpc-'' @ go_Address options) h
      in (\<lparr>gs_opts = options, gs_server = None, gs_hasHealth = go_Health options, gs_healthStatus = ref,
           gs_listener = None, gs_registerFn = False, gs_addr = go_Address options\<rparr>, h'))"

text \<open>\<open>Register\<close>: \<open>gs_registerFn\<close> says whether a function is set.\<close>

definition grpc_Register :: "bool \<Rightarrow> ('o, 'u, 's) grpc_server \<Rightarrow> ('o, 'u, 's) grpc_server" where
  "grpc_Register fn s = s\<lparr>gs_registerFn := fn\<rparr>"

definition grpc_Server :: "('o, 'u, 's) grpc_server \<Rightarrow> ('o, 'u, 's) grpc_lib_server option" where
  "grpc_Server s = gs_server s"

text \<open>The addresses bound on the machine, the health states and the health manager.\<close>

type_synonym grpc_world = "string set \<times> health_heap \<times> health_manager"

text \<open>\<open>first\<close> is the recovery and logging interceptors, put before those of the options.\<close>

definition grpc_Start ::
    "tls_files \<Rightarrow> 'u list \<Rightarrow> 's list \<Rightarrow> ('o, 'u, 's) grpc_server \<Rightarrow> grpc_world \<Rightarrow>
     go_error option \<times> ('o, 'u, 's) grpc_server \<times> grpc_world" where
  "grpc_Start tf firstU firstS s gw =
     (let (bound, h, hm) = gw; oo = gs_opts s
      in case net_Listen (go_Address oo) bound of
           (Some err, _) \<Rightarrow> (Some (Wrap (''failed to listen on '' @ go_Address oo) err), s, gw)
         | (None, bound') \<Rightarrow>
             (let s1 = s\<lparr>gs_listener := Some (go_Address oo)\<rparr>;
                  tls = (if go_TLSCert oo \<noteq> [] \<and> go_TLSKey oo \<noteq> []
                         then map_sum (\<lambda>e. e) Some (loadTLSCredentials tf oo) else Inr None)
              in case tls of
                   Inl err \<Rightarrow> (Some (Wrap ''failed to load TLS credentials'' err), s1, (bound', h, hm))
                 | Inr creds \<Rightarrow>
                     (None,
                      s1\<lparr>gs_server := Some \<lparr>gl_options = go_GrpcOptions oo, gl_unary = firstU @ go_UnaryInterceptors oo,
                           gl_stream = firstS @ go_StreamInterceptors oo, gl_tls = creds,
                           gl_registered = gs_registerFn s, gl_health = gs_hasHealth s, gl_serving = True\<rparr>\<rparr>,
                      (bound', health_SetReady (gs_healthStatus s) h,
                       hm_addHealthState (gs_healthStatus s) hm))))"

text \<open>\<open>GracefulStop\<close>, or \<open>Stop\<close> after the timeout: either way the server closes its listener.\<close>

definition grpc_Stop :: "('o, 'u, 's) grpc_server \<Rightarrow> grpc_world \<Rightarrow> go_error option \<times> ('o, 'u, 's) grpc_server \<times> grpc_world" where
  "grpc_Stop s gw =
     (let (bound, h, hm) = gw
      in case gs_server s of
           None \<Rightarrow> (None, s, gw)
         | Some gl \<Rightarrow>
             (None, s\<lparr>gs_server := Some (gl\<lparr>gl_serving := False\<rparr>)\<rparr>,
              (if gl_serving gl then bound - (case gs_listener s of Some a \<Rightarrow> {a} | None \<Rightarrow> {}) else bound,
               health_SetNoReady (gs_healthStatus s) h, hm)))"

definition grpc_up :: "('o, 'u, 's) grpc_server \<Rightarrow> bool" where
  "grpc_up s \<longleftrightarrow> (case gs_server s of Some gl \<Rightarrow> gl_serving gl | None \<Rightarrow> False)"

section \<open>Properties\<close>

text \<open>
  C38: A panic never leaves a unary or a stream call, and it is what the client gets an internal error for:
  whatever the handler and the interceptors of the options do, the chain returns; when they return, the
  chain's result is theirs; and when any of them panics and the panic gets past the others, the result is the
  internal error, for a unary call without a response.
\<close>

theorem grpc_chain_recovers:
  "fst (wrap_all (buildUnaryInterceptors log user) handler req s) =
     Ret (case fst (wrap_all user handler req s) of Ret r \<Rightarrow> r | Panicked q \<Rightarrow> (None, Some ErrInternal)) \<and>
   fst (wrap_all (buildStreamInterceptors suser) shandler s) =
     Ret (case fst (wrap_all suser shandler s) of Ret r \<Rightarrow> r | Panicked q \<Rightarrow> Some ErrInternal)"
proof -
  have "wrap_all (buildUnaryInterceptors log user) handler req s =
      eff_recover (\<lambda>_. eff_ret (None, Some ErrInternal)) (loggingInterceptor log (wrap_all user handler) req) s"
    by (simp add: buildUnaryInterceptors_def recoveryInterceptor_def)
  moreover have "wrap_all (buildStreamInterceptors suser) shandler s =
      eff_recover (\<lambda>_. eff_ret (Some ErrInternal)) (wrap_all suser shandler) s"
    by (simp add: buildStreamInterceptors_def streamRecoveryInterceptor_def)
  ultimately show ?thesis
    by (auto simp: eff_recover_def loggingInterceptor_def eff_bind_def eff_ret_def split: prod.splits outcome.splits)
qed

text \<open>
  A start that fails on its TLS files leaves the address bound: nothing closes the listener, not
  even \<open>Stop\<close>, so every later start of the server fails to listen, with good files too.
\<close>

theorem grpc_failed_start_leaks_listener:
  assumes "grpc_Start tf us ss s (bound, h, hm) = (Some (Wrap ''failed to load TLS credentials'' err), s1, gw)"
    and "gs_server s = None" and "grpc_Stop s1 gw = (err', s2, gw')"
  shows "\<exists>e s3 gw''. grpc_Start tf' us ss s2 gw' = (Some (Wrap (''failed to listen on '' @ go_Address (gs_opts s)) e), s3, gw'')"
proof -
  have s1: "gs_server s1 = None" "gs_opts s1 = gs_opts s" "go_Address (gs_opts s) \<in> fst gw"
    using assms(1,2)
    by (auto simp: grpc_Start_def net_Listen_def Let_def split: if_splits sum.splits)
  then have "s2 = s1" "gw' = gw" using assms(3) by (auto simp: grpc_Stop_def split: prod.splits)
  with s1 show ?thesis by (auto simp: grpc_Start_def net_Listen_def split: prod.splits)
qed

text \<open>Key files that do not load, and ones that do.\<close>

definition bad_files :: tls_files where
  "bad_files = \<lparr>tf_LoadX509KeyPair = (\<lambda>_ _. Some (Err ''no such file'')), tf_ReadFile = (\<lambda>_. Inl (Err ''no such file'')),
     tf_AppendCerts = (\<lambda>_. False)\<rparr>"

definition good_files :: tls_files where
  "good_files = \<lparr>tf_LoadX509KeyPair = (\<lambda>_ _. None), tf_ReadFile = (\<lambda>_. Inr []), tf_AppendCerts = (\<lambda>_. True)\<rparr>"

definition no_health :: health_heap where
  "no_health = \<lparr>hh_next = 0, hh_state = (\<lambda>_. \<lparr>hs_ready = False, hs_name = []\<rparr>)\<rparr>"

definition tls_server :: "(unit, unit, unit) grpc_server" where
  "tls_server = fst (grpc_NewServer [GrpcWithTLS ''c.pem'' ''k.pem''] ''01234567'' no_health)"

theorem grpc_failed_start_leaks_listener_witness:
  "(let (err, s1, gw) = grpc_Start bad_files [] [] tls_server ({}, no_health, []);
        (err', s2, gw') = grpc_Stop s1 gw;
        (err'', s3, gw'') = grpc_Start good_files [] [] s2 gw'
    in err'' \<noteq> None)"
proof -
  obtain err s1 gw err' s2 gw' err'' s3 gw''
    where eqs: "grpc_Start bad_files [] [] tls_server ({}, no_health, []) = (err, s1, gw)"
      "grpc_Stop s1 gw = (err', s2, gw')" "grpc_Start good_files [] [] s2 gw' = (err'', s3, gw'')"
    by (metis prod.exhaust)
  have first: "grpc_Start bad_files [] [] tls_server ({}, no_health, []) =
      (Some (Wrap ''failed to load TLS credentials'' (Wrap ''failed to load server cert'' (Err ''no such file''))), s1, gw)"
    and fresh: "gs_server tls_server = None"
    using eqs(1) by (auto simp: grpc_Start_def tls_server_def grpc_NewServer_def NewHealthState_def Let_def
        net_Listen_def loadTLSCredentials_def bad_files_def grpc_DefaultOptions_def)
  from grpc_failed_start_leaks_listener [OF first fresh eqs(2), of good_files]
  have "err'' \<noteq> None" using eqs(3) by auto
  then show ?thesis unfolding Let_def eqs by (simp add: eqs)
qed

end
