(* ===== verification/HttpRouter.thy ===== *)
theory HttpRouter
  imports HttpBase
begin

text \<open>
  The HTTP transport's router and handler context (\<open>transport/http/server.go\<close>, \<open>handler.go\<close>).
  The codec is the argument the router was built with; \<open>http.ServeMux\<close>, which serves the requests no
  route matches, is the argument \<open>mux\<close> of \<open>ServeHTTP\<close>.
\<close>

section \<open>The handler context\<close>

text \<open>The values handlers encode: \<open>Error\<close> builds a \<open>map[string]any\<close>, \<open>AUser\<close> is any other value.\<close>

datatype 'u any = AStr string | AInt int | AMap "(string \<times> 'u any) list" | AUser 'u

record 'u codec =
  cd_Marshal :: "'u any \<Rightarrow> string result"
  cd_Unmarshal :: "string \<Rightarrow> 'u any result"

type_synonym 'w HandlerFunc = "http_request \<Rightarrow> ('w, go_error option) http_eff"
type_synonym 'w Middleware = "'w HandlerFunc \<Rightarrow> 'w HandlerFunc"

text \<open>
  Contexts come from a pool: \<open>NewContext\<close> takes one with the parameters it was left with,
  \<open>releaseContext\<close> deletes them and gives it back.  \<open>with_context\<close> is the code between the two,
  \<open>releaseContext\<close> being deferred.
\<close>

definition NewContext :: "'w http_state \<Rightarrow> 'w http_state" where
  "NewContext s =
     (case ht_pool s of
        [] \<Rightarrow> s\<lparr>ht_params := (\<lambda>_. None)\<rparr>
      | p # ps \<Rightarrow> s\<lparr>ht_params := p, ht_pool := ps\<rparr>)"

definition releaseContext :: "(string \<Rightarrow> string option) \<Rightarrow> 'w http_state \<Rightarrow> 'w http_state" where
  "releaseContext outer s = s\<lparr>ht_pool := (\<lambda>_. None) # ht_pool s, ht_params := outer\<rparr>"

definition with_context :: "('w, 'a) http_eff \<Rightarrow> ('w, 'a) http_eff" where
  "with_context body s = eff_defer (releaseContext (ht_params s)) body (NewContext s)"

definition ctx_Param :: "string \<Rightarrow> 'w http_state \<Rightarrow> string" where
  "ctx_Param key s = (case ht_params s key of Some v \<Rightarrow> v | None \<Rightarrow> [])"

definition ctx_SetParam :: "string \<Rightarrow> string \<Rightarrow> 'w http_state \<Rightarrow> 'w http_state" where
  "ctx_SetParam key v s = s\<lparr>ht_params := (ht_params s)(key \<mapsto> v)\<rparr>"

definition ctx_Query :: "string \<Rightarrow> http_request \<Rightarrow> string" where
  "ctx_Query key r = rq_query r key"

definition ctx_Header :: "string \<Rightarrow> http_request \<Rightarrow> string" where
  "ctx_Header key r = rq_Get key r"

definition ctx_SetHeader :: "string \<Rightarrow> string \<Rightarrow> 'w http_state \<Rightarrow> 'w http_state" where
  "ctx_SetHeader key v s = header_Set key v s"

definition ctx_Body :: "('w, string result) http_eff" where
  "ctx_Body s = (Ret (ht_body s), s\<lparr>ht_body := (case ht_body s of Inl e \<Rightarrow> Inl e | Inr _ \<Rightarrow> Inr [])\<rparr>)"

definition ctx_Bind :: "'u codec \<Rightarrow> ('w, 'u any result) http_eff" where
  "ctx_Bind c = eff_bind ctx_Body (\<lambda>body.
     case body of Inl err \<Rightarrow> eff_ret (Inl err) | Inr data \<Rightarrow> eff_ret (cd_Unmarshal c data))"

definition ctx_JSON :: "'u codec \<Rightarrow> int \<Rightarrow> 'u any \<Rightarrow> ('w, go_error option) http_eff" where
  "ctx_JSON c code v s =
     eff_bind (WriteHeader code) (\<lambda>_.
       case cd_Marshal c v of Inl err \<Rightarrow> eff_ret (Some err) | Inr data \<Rightarrow> rw_Write data)
     (header_Set ''Content-Type'' ''application/json'' s)"

definition ctx_Bytes :: "int \<Rightarrow> string \<Rightarrow> string \<Rightarrow> ('w, go_error option) http_eff" where
  "ctx_Bytes code contentType data s =
     eff_bind (WriteHeader code) (\<lambda>_. rw_Write data) (header_Set ''Content-Type'' contentType s)"

definition ctx_String :: "int \<Rightarrow> string \<Rightarrow> ('w, go_error option) http_eff" where
  "ctx_String code str s =
     eff_bind (WriteHeader code) (\<lambda>_. rw_Write str)
       (header_Set ''Content-Type'' ''text/plain; charset=utf-8'' s)"

definition ctx_Error :: "'u codec \<Rightarrow> int \<Rightarrow> string \<Rightarrow> ('w, go_error option) http_eff" where
  "ctx_Error c code message = ctx_JSON c code (AMap [(''error'', AStr message), (''code'', AInt code)])"

definition ctx_NoContent :: "('w, go_error option) http_eff" where
  "ctx_NoContent = eff_bind (WriteHeader 204) (\<lambda>_. eff_ret None)"

text \<open>The end of a handler: an error is answered with 500, and what \<open>Error\<close> returns is dropped.\<close>

definition run_handler :: "'u codec \<Rightarrow> 'w HandlerFunc \<Rightarrow> http_request \<Rightarrow> ('w, unit) http_eff" where
  "run_handler c h r = eff_bind (h r) (\<lambda>err.
     case err of None \<Rightarrow> eff_ret ()
     | Some e \<Rightarrow> eff_bind (ctx_Error c 500 (error_text e)) (\<lambda>_. eff_ret ()))"

definition WrapHandler :: "'w HandlerFunc \<Rightarrow> 'u codec \<Rightarrow> 'w Middleware list \<Rightarrow> 'w http_handler" where
  "WrapHandler h c middlewares = (\<lambda>r. with_context (run_handler c (wrap_all middlewares h) r))"

section \<open>The router\<close>

record routePart =
  rp_value :: string
  rp_paramName :: string
  rp_isParam :: bool

record 'w route =
  rt_method :: string
  rt_pattern :: string
  rt_parts :: "routePart list"
  rt_handler :: "'w HandlerFunc"

record ('u, 'w) router =
  ro_mux :: "(string \<times> 'w http_handler) list"
  ro_middlewares :: "'w Middleware list"
  ro_codec :: "'u codec"
  ro_routes :: "'w route list"

definition NewRouter :: "'u codec \<Rightarrow> ('u, 'w) router" where
  "NewRouter c = \<lparr>ro_mux = [], ro_middlewares = [], ro_codec = c, ro_routes = []\<rparr>"

definition router_Use :: "'w Middleware \<Rightarrow> ('u, 'w) router \<Rightarrow> ('u, 'w) router" where
  "router_Use m r = r\<lparr>ro_middlewares := ro_middlewares r @ [m]\<rparr>"

definition router_Handle :: "string \<Rightarrow> 'w HandlerFunc \<Rightarrow> ('u, 'w) router \<Rightarrow> ('u, 'w) router" where
  "router_Handle pattern h r =
     r\<lparr>ro_mux := ro_mux r @ [(pattern, WrapHandler h (ro_codec r) (ro_middlewares r))]\<rparr>"

definition route_part :: "string \<Rightarrow> routePart" where
  "route_part part =
     (if has_prefix '':'' part
      then \<lparr>rp_value = [], rp_paramName = trim_prefix '':'' part, rp_isParam = True\<rparr>
      else \<lparr>rp_value = part, rp_paramName = [], rp_isParam = False\<rparr>)"

abbreviation slash :: char where "slash \<equiv> CHR ''/''"

definition path_segments :: "string \<Rightarrow> string list" where
  "path_segments path = split_on slash (trim_char slash path)"

definition registerRoute :: "string \<Rightarrow> string \<Rightarrow> 'w HandlerFunc \<Rightarrow> ('u, 'w) router \<Rightarrow> ('u, 'w) router" where
  "registerRoute m pattern h r =
     r\<lparr>ro_routes := ro_routes r @
        [\<lparr>rt_method = m, rt_pattern = pattern, rt_parts = map route_part (path_segments pattern),
          rt_handler = h\<rparr>]\<rparr>"

text \<open>The loop over the parts of a route; \<open>params\<close> is nil until the first parameter.\<close>

fun match_parts :: "routePart list \<Rightarrow> string list \<Rightarrow> (string \<Rightarrow> string option) \<Rightarrow> (string \<Rightarrow> string option) option" where
  "match_parts (part # parts) (seg # segs) params =
     (if rp_isParam part then match_parts parts segs (params(rp_paramName part \<mapsto> seg))
      else if rp_value part \<noteq> seg then None
      else match_parts parts segs params)"
| "match_parts _ _ params = Some params"

fun match_routes :: "'w route list \<Rightarrow> string \<Rightarrow> string list \<Rightarrow> ('w route \<times> (string \<Rightarrow> string option)) option" where
  "match_routes [] m segs = None"
| "match_routes (rt # rts) m segs =
     (if rt_method rt \<noteq> m then match_routes rts m segs
      else if length (rt_parts rt) \<noteq> length segs then match_routes rts m segs
      else (case match_parts (rt_parts rt) segs (\<lambda>_. None) of
          Some params \<Rightarrow> Some (rt, params)
        | None \<Rightarrow> match_routes rts m segs))"

definition matchRoute :: "string \<Rightarrow> string \<Rightarrow> ('u, 'w) router \<Rightarrow> ('w route \<times> (string \<Rightarrow> string option)) option" where
  "matchRoute m path r = match_routes (ro_routes r) m (path_segments path)"

text \<open>The loop of \<open>SetParam\<close> over the parameters adds them to those of the context.\<close>

definition ServeHTTP :: "((string \<times> 'w http_handler) list \<Rightarrow> 'w http_handler) \<Rightarrow> ('u, 'w) router \<Rightarrow> 'w http_handler" where
  "ServeHTTP mux r req =
     (case matchRoute (rq_method req) (rq_path req) r of
        Some (rt, params) \<Rightarrow>
          with_context (\<lambda>s. run_handler (ro_codec r) (wrap_all (ro_middlewares r) (rt_handler rt)) req
            (s\<lparr>ht_params := ht_params s ++ params\<rparr>))
      | None \<Rightarrow> mux (ro_mux r) req)"

section \<open>Route groups\<close>

record 'w group =
  gr_prefix :: string
  gr_middlewares :: "'w Middleware list"

definition router_Group :: "string \<Rightarrow> 'w group" where
  "router_Group prefix = \<lparr>gr_prefix = prefix, gr_middlewares = []\<rparr>"

definition group_Use :: "'w Middleware \<Rightarrow> 'w group \<Rightarrow> 'w group" where
  "group_Use m g = g\<lparr>gr_middlewares := gr_middlewares g @ [m]\<rparr>"

definition group_wrapHandler :: "'w group \<Rightarrow> 'w HandlerFunc \<Rightarrow> 'w HandlerFunc" where
  "group_wrapHandler g h = wrap_all (gr_middlewares g) h"

text \<open>\<open>GET\<close>, \<open>POST\<close>, \<open>PUT\<close>, \<open>DELETE\<close> and \<open>PATCH\<close> of the router and of a group.\<close>

datatype verb = GET | POST | PUT | DELETE | PATCH

fun verb_name :: "verb \<Rightarrow> string" where
  "verb_name GET = ''GET''"
| "verb_name POST = ''POST''"
| "verb_name PUT = ''PUT''"
| "verb_name DELETE = ''DELETE''"
| "verb_name PATCH = ''PATCH''"

definition router_verb :: "verb \<Rightarrow> string \<Rightarrow> 'w HandlerFunc \<Rightarrow> ('u, 'w) router \<Rightarrow> ('u, 'w) router" where
  "router_verb v pattern h r = registerRoute (verb_name v) pattern h r"

definition group_verb :: "verb \<Rightarrow> string \<Rightarrow> 'w HandlerFunc \<Rightarrow> 'w group \<Rightarrow> ('u, 'w) router \<Rightarrow> ('u, 'w) router" where
  "group_verb v pattern h g r =
     registerRoute (verb_name v) (gr_prefix g @ pattern) (group_wrapHandler g h) r"

section \<open>Matching\<close>

text \<open>What it means for a route to match, and the parameters it binds (the last one of a name).\<close>

definition part_matches :: "routePart \<Rightarrow> string \<Rightarrow> bool" where
  "part_matches part seg \<longleftrightarrow> rp_isParam part \<or> rp_value part = seg"

definition bindings :: "routePart list \<Rightarrow> string list \<Rightarrow> (string \<times> string) list" where
  "bindings parts segs = [(rp_paramName part, seg). (part, seg) \<leftarrow> zip parts segs, rp_isParam part]"

definition route_matches :: "string \<Rightarrow> string list \<Rightarrow> 'w route \<Rightarrow> bool" where
  "route_matches m segs rt \<longleftrightarrow> rt_method rt = m \<and> list_all2 part_matches (rt_parts rt) segs"

lemma match_parts_spec:
  "length parts = length segs \<Longrightarrow>
     match_parts parts segs params =
       (if list_all2 part_matches parts segs then Some (params ++ map_of (rev (bindings parts segs))) else None)"
  by (induction parts segs params rule: match_parts.induct)
    (auto simp: part_matches_def bindings_def map_add_def fun_eq_iff split: option.splits)

lemma matchRoute_eq:
  "matchRoute m path r =
     map_option (\<lambda>rt. (rt, map_of (rev (bindings (rt_parts rt) (path_segments path)))))
       (find (route_matches m (path_segments path)) (ro_routes r))"
proof -
  have "match_routes rts m segs =
      map_option (\<lambda>rt. (rt, map_of (rev (bindings (rt_parts rt) segs)))) (find (route_matches m segs) rts)"
    for rts :: "'w route list" and segs
    by (induction rts) (auto simp: match_parts_spec route_matches_def dest: list_all2_lengthD)
  then show ?thesis by (simp add: matchRoute_def)
qed

text \<open>
  C14: A request is served by the first registered route of its method whose pattern matches its
  path segment by segment, with the segments at the places of the parameters as their values; by
  none when no route matches.
\<close>

theorem matchRoute_first:
  "matchRoute m path r =
     map_option (\<lambda>rt. (rt, map_of (rev (bindings (rt_parts rt) (path_segments path)))))
       (find (route_matches m (path_segments path)) (ro_routes r))"
  by (rule matchRoute_eq)

section \<open>Patterns and paths\<close>

text \<open>A pattern as the programmer means it, and the paths it stands for.\<close>

datatype pattern_seg = Static string | Param string

fun seg_pattern :: "pattern_seg \<Rightarrow> string" where
  "seg_pattern (Static w) = w"
| "seg_pattern (Param x) = '':'' @ x"

fun seg_path :: "(string \<Rightarrow> string) \<Rightarrow> pattern_seg \<Rightarrow> string" where
  "seg_path env (Static w) = w"
| "seg_path env (Param x) = env x"

definition pattern_of :: "pattern_seg list \<Rightarrow> string" where
  "pattern_of segs = slash # join_with [slash] (map seg_pattern segs)"

definition path_of :: "(string \<Rightarrow> string) \<Rightarrow> pattern_seg list \<Rightarrow> string" where
  "path_of env segs = slash # join_with [slash] (map (seg_path env) segs)"

fun seg_ok :: "(string \<Rightarrow> string) \<Rightarrow> pattern_seg \<Rightarrow> bool" where
  "seg_ok env (Static w) = (w \<noteq> [] \<and> slash \<notin> set w \<and> hd w \<noteq> CHR '':'')"
| "seg_ok env (Param x) = (slash \<notin> set x \<and> env x \<noteq> [] \<and> slash \<notin> set (env x))"

definition params_of :: "pattern_seg list \<Rightarrow> string list" where
  "params_of segs = List.map_filter (\<lambda>s. case s of Param x \<Rightarrow> Some x | Static w \<Rightarrow> None) segs"

lemma hd_join: "ws \<noteq> [] \<Longrightarrow> hd ws \<noteq> [] \<Longrightarrow> hd (join_with sep ws) = hd (hd ws)"
  by (cases "(sep, ws)" rule: join_with.cases) auto

lemma join_not_Nil: "ws \<noteq> [] \<Longrightarrow> last ws \<noteq> [] \<Longrightarrow> join_with sep ws \<noteq> []"
  by (induction sep ws rule: join_with.induct) auto

lemma last_join: "ws \<noteq> [] \<Longrightarrow> last ws \<noteq> [] \<Longrightarrow> last (join_with sep ws) = last (last ws)"
  by (induction sep ws rule: join_with.induct) (auto simp: join_not_Nil)

lemma path_segments_join:
  assumes "ws \<noteq> []" and "\<forall>w\<in>set ws. w \<noteq> [] \<and> slash \<notin> set w"
  shows "path_segments (slash # join_with [slash] ws) = ws"
proof -
  have h: "hd ws \<in> set ws" "last ws \<in> set ws" using assms(1) by simp_all
  then have "hd ws \<noteq> []" "last ws \<noteq> []" "slash \<notin> set (hd ws)" "slash \<notin> set (last ws)"
    using assms(2) by blast+
  moreover have "hd (hd ws) \<in> set (hd ws)" "last (last ws) \<in> set (last ws)"
    using calculation by simp_all
  ultimately have "hd (hd ws) \<noteq> slash" "last (last ws) \<noteq> slash" "hd ws \<noteq> []" "last ws \<noteq> []"
    by metis+
  then have "hd (join_with [slash] ws) \<noteq> slash" "last (join_with [slash] ws) \<noteq> slash"
    using hd_join [OF assms(1), of "[slash]"] last_join [OF assms(1), of "[slash]"] by auto
  then have "trim_char slash (join_with [slash] ws) = join_with [slash] ws"
    by (intro trim_char_id) simp
  then show ?thesis
    using assms by (simp add: path_segments_def split_join)
qed

text \<open>Slashes around a path do not matter.\<close>

lemma path_segments_slash [simp]:
  "path_segments (slash # path) = path_segments path"
  "path_segments (path @ [slash]) = path_segments path"
  by (simp_all add: path_segments_def)

lemma route_part_static: "w \<noteq> [] \<Longrightarrow> hd w \<noteq> CHR '':'' \<Longrightarrow>
    route_part w = \<lparr>rp_value = w, rp_paramName = [], rp_isParam = False\<rparr>"
  by (simp add: route_part_def)

lemma route_part_param: "route_part ('':'' @ x) = \<lparr>rp_value = [], rp_paramName = x, rp_isParam = True\<rparr>"
  unfolding route_part_def by (simp only: has_prefix_append trim_prefix_append if_True)

lemma bindings_segs:
  assumes "\<forall>s\<in>set segs. seg_ok env s"
  shows "list_all2 part_matches (map (route_part \<circ> seg_pattern) segs) (map (seg_path env) segs) \<and>
     bindings (map (route_part \<circ> seg_pattern) segs) (map (seg_path env) segs) =
       map (\<lambda>x. (x, env x)) (params_of segs)"
  using assms
proof (induction segs)
  case (Cons s segs)
  then show ?case
    by (cases s) (auto simp: part_matches_def bindings_def params_of_def List.map_filter_simps
        route_part_static route_part_param simp del: append.simps)
qed (simp add: bindings_def params_of_def List.map_filter_simps)

lemma map_of_env: "map_of (rev (map (\<lambda>x. (x, env x)) xs)) x = (if x \<in> set xs then Some (env x) else None)"
  by (induction xs) (auto simp: map_add_def split: option.splits)

text \<open>The route of a pattern, and the paths it stands for.\<close>

lemma route_path:
  assumes "segs \<noteq> []" and "\<forall>s\<in>set segs. seg_ok env s"
  shows "\<exists>rt params. matchRoute (verb_name v) (path_of env segs) (router_verb v (pattern_of segs) h (NewRouter c))
       = Some (rt, params) \<and> rt_handler rt = h \<and>
     (\<forall>x. params x = (if x \<in> set (params_of segs) then Some (env x) else None)) \<and>
     matchRoute (verb_name v) (path_of env segs @ [slash]) (router_verb v (pattern_of segs) h (NewRouter c))
       = Some (rt, params)"
proof -
  have ok: "\<forall>w\<in>set (map seg_pattern segs). w \<noteq> [] \<and> slash \<notin> set w"
    "\<forall>w\<in>set (map (seg_path env) segs). w \<noteq> [] \<and> slash \<notin> set w"
  proof -
    have "seg_pattern s \<noteq> [] \<and> slash \<notin> set (seg_pattern s) \<and> seg_path env s \<noteq> [] \<and> slash \<notin> set (seg_path env s)"
      if "s \<in> set segs" for s
      using assms(2) that by (cases s) auto
    then show "\<forall>w\<in>set (map seg_pattern segs). w \<noteq> [] \<and> slash \<notin> set w"
      "\<forall>w\<in>set (map (seg_path env) segs). w \<noteq> [] \<and> slash \<notin> set w" by auto
  qed
  have pat: "path_segments (pattern_of segs) = map seg_pattern segs"
    unfolding pattern_of_def using assms(1) ok(1) by (intro path_segments_join) simp_all
  have path: "path_segments (path_of env segs) = map (seg_path env) segs"
    unfolding path_of_def using assms(1) ok(2) by (intro path_segments_join) simp_all
  show ?thesis
    using bindings_segs [OF assms(2)]
    by (simp add: matchRoute_eq router_verb_def registerRoute_def NewRouter_def pat path
        route_matches_def map_of_env)
qed

text \<open>
  C13: A pattern built from fixed and parameter segments matches every path it stands for, with or
  without slashes at the end, and gives each parameter its value back.
\<close>

theorem route_round_trip:
  assumes "segs \<noteq> []" and "\<forall>s\<in>set segs. seg_ok env s"
  shows "\<exists>rt params. matchRoute (verb_name v) (path_of env segs) (router_verb v (pattern_of segs) h (NewRouter c))
       = Some (rt, params) \<and> rt_handler rt = h \<and>
     (\<forall>x. params x = (if x \<in> set (params_of segs) then Some (env x) else None)) \<and>
     matchRoute (verb_name v) (path_of env segs @ [slash]) (router_verb v (pattern_of segs) h (NewRouter c))
       = Some (rt, params)"
  using assms by (rule route_path)

definition no_codec :: "unit codec" where
  "no_codec = \<lparr>cd_Marshal = (\<lambda>v. Inl (Err ''json: unsupported type'')), cd_Unmarshal = (\<lambda>_. Inl ErrSyntax)\<rparr>"

definition no_handler :: "unit HandlerFunc" where
  "no_handler = (\<lambda>r. eff_ret None)"

theorem route_round_trip_witness:
  "\<exists>rt params. matchRoute ''GET'' ''/users/42'' (router_verb GET ''/users/:id'' no_handler (NewRouter no_codec))
     = Some (rt, params) \<and> params ''id'' = Some ''42''"
proof -
  have "pattern_of [Static ''users'', Param ''id''] = ''/users/:id''"
    "path_of (\<lambda>_. ''42'') [Static ''users'', Param ''id''] = ''/users/42''"
    "''id'' \<in> set (params_of [Static ''users'', Param ''id''])"
    by (simp_all add: path_of_def pattern_of_def params_of_def List.map_filter_simps)
  then show ?thesis
    using route_round_trip [of "[Static ''users'', Param ''id'']" "\<lambda>_. ''42''" GET no_handler no_codec]
    by fastforce
qed

section \<open>Middleware\<close>

text \<open>A middleware that logs its name when it is entered and when it is left.\<close>

definition log_line :: "string \<Rightarrow> (string list, unit) http_eff" where
  "log_line x s = (Ret (), s\<lparr>ht_world := ht_world s @ [x]\<rparr>)"

definition logging :: "string \<Rightarrow> string list Middleware" where
  "logging x h r = eff_bind (log_line (''enter '' @ x)) (\<lambda>_. eff_bind (h r) (\<lambda>err.
     eff_bind (log_line (''leave '' @ x)) (\<lambda>_. eff_ret err)))"

definition logging_handler :: "string list HandlerFunc" where
  "logging_handler r = eff_bind (log_line ''handler'') (\<lambda>_. eff_ret None)"

lemma wrap_logging:
  "wrap_all (map logging xs) h r s =
     (case h r (s\<lparr>ht_world := ht_world s @ map (\<lambda>x. ''enter '' @ x) xs\<rparr>) of
        (Ret err, s') \<Rightarrow> (Ret err, s'\<lparr>ht_world := ht_world s' @ map (\<lambda>x. ''leave '' @ x) (rev xs)\<rparr>)
      | (Panicked p, s') \<Rightarrow> (Panicked p, s'))"
proof (induction xs arbitrary: s)
  case Nil
  then show ?case by (simp split: prod.splits outcome.splits)
next
  case (Cons x xs)
  define s1 where "s1 = s\<lparr>ht_world := ht_world s @ [''enter '' @ x]\<rparr>"
  have "wrap_all (map logging (x # xs)) h r s =
      eff_bind (wrap_all (map logging xs) h r) (\<lambda>err. eff_bind (log_line (''leave '' @ x)) (\<lambda>_. eff_ret err)) s1"
    by (simp add: logging_def eff_bind_def log_line_def s1_def)
  moreover have "s1\<lparr>ht_world := ht_world s1 @ map (\<lambda>x. ''enter '' @ x) xs\<rparr> =
      s\<lparr>ht_world := ht_world s @ map (\<lambda>x. ''enter '' @ x) (x # xs)\<rparr>" by (simp add: s1_def)
  ultimately show ?case
    unfolding eff_bind_def Cons.IH
    by (auto simp: log_line_def eff_ret_def split: prod.splits outcome.splits)
qed

text \<open>
  C39: Of the middlewares around a grouped route, the router's run first, in the order they were
  added, then the group's, then the handler; they are left in the opposite order.  The router's
  apply even when they are added after the route.
\<close>

theorem middleware_order:
  "let g = fold group_Use (map logging gs) (router_Group []);
       r = fold router_Use (map logging rs) (group_verb GET ''/a'' logging_handler g (NewRouter no_codec));
       (res, s) = ServeHTTP (\<lambda>_ _. eff_ret ()) r (bare_request ''GET'' ''/a'') (fresh_state [])
   in ht_world s = map (\<lambda>x. ''enter '' @ x) (rs @ gs) @ [''handler''] @ map (\<lambda>x. ''leave '' @ x) (rev (rs @ gs))"
proof -
  have g: "fold group_Use ms (router_Group p) = \<lparr>gr_prefix = p, gr_middlewares = ms\<rparr>"
    for ms :: "string list Middleware list" and p
  proof -
    have "fold group_Use ms g = g\<lparr>gr_middlewares := gr_middlewares g @ ms\<rparr>" for g
      by (induction ms arbitrary: g) (simp_all add: group_Use_def)
    then show ?thesis by (simp add: router_Group_def)
  qed
  have r: "fold router_Use ms r = r\<lparr>ro_middlewares := ro_middlewares r @ ms\<rparr>"
    for ms :: "string list Middleware list" and r :: "(unit, string list) router"
    by (induction ms arbitrary: r) (simp_all add: router_Use_def)
  have seg: "path_segments ''a'' = [''a'']" by (simp add: path_segments_def trim_char_def)
  have m: "route_matches ''GET'' [''a''] \<lparr>rt_method = ''GET'', rt_pattern = p, rt_parts = map route_part [''a''], rt_handler = h\<rparr>"
    for h :: "string list HandlerFunc" and p
    by (simp add: route_matches_def route_part_def part_matches_def has_prefix_def)
  show ?thesis
    unfolding g r
    by (simp add: ServeHTTP_def matchRoute_eq group_verb_def registerRoute_def NewRouter_def
        bare_request_def seg m [simplified] group_wrapHandler_def Let_def with_context_def eff_defer_def run_handler_def
        eff_bind_def wrap_logging logging_handler_def log_line_def eff_ret_def NewContext_def fresh_state_def
        releaseContext_def wrap_all_append [symmetric] map_append [symmetric]
        del: wrap_all_append map_append)
qed

section \<open>A failing encoder\<close>

text \<open>
  When the codec fails on the value a handler returns, the client is still sent the status
  the handler chose: the header is written before the value is encoded, and the 500 the router
  then answers with is ignored but for its body.
\<close>

theorem json_failure_keeps_status:
  assumes "cd_Marshal c v = Inl e"
    and "cd_Marshal c (AMap [(''error'', AStr (error_text e)), (''code'', AInt 500)]) = Inr data"
    and "sent s = None" and "final_code code" and "body_allowed code"
  shows "\<exists>s'. run_handler c (\<lambda>r. ctx_JSON c code v) r s = (Ret (), s') \<and> sent s' = Some code \<and>
     rs_body (ht_resp s') = rs_body (ht_resp s) @ data"
proof -
  define s0 where "s0 = header_Set ''Content-Type'' ''application/json'' s"
  have "sent s0 = None" using assms(3) by (simp add: s0_def)
  note first = WriteHeader_first [OF this assms(4)]
  define s1 where "s1 = s0\<lparr>ht_codes := map (\<lambda>_. code) (ht_codes s0),
      ht_resp := (ht_resp s0)\<lparr>rs_status := Some code, rs_sent := rs_header (ht_resp s0)\<rparr>\<rparr>"
  have json: "ctx_JSON c code v s = (Ret (Some e), s1)"
    using first assms(1) by (simp add: ctx_JSON_def eff_bind_def eff_ret_def s0_def s1_def)
  define s2 where "s2 = header_Set ''Content-Type'' ''application/json'' s1"
  have s2: "sent s2 = Some code" by (simp add: s2_def) (simp add: s1_def sent_def)
  define s3 where "s3 = s2\<lparr>ht_codes := map (\<lambda>_. 500) (ht_codes s2)\<rparr>"
  have s3: "sent s3 = Some code" using s2 by (simp add: s3_def sent_def)
  have "ctx_Error c 500 (error_text e) s1 = rw_Write data s3"
    using WriteHeader_late [OF s2, of 500] assms(2)
    by (simp add: ctx_Error_def ctx_JSON_def eff_bind_def s2_def s3_def)
  moreover note rw_Write_sent [OF s3 assms(5)]
  moreover have "rs_body (ht_resp s3) = rs_body (ht_resp s)" by (simp add: s3_def s2_def s1_def s0_def)
  ultimately show ?thesis
    using s3 by (simp add: run_handler_def eff_bind_def json eff_ret_def sent_def)
qed

definition nan_codec :: "unit codec" where
  "nan_codec = \<lparr>cd_Marshal = (\<lambda>v. case v of AUser u \<Rightarrow> Inl (Err ''json: unsupported value: NaN'') | _ \<Rightarrow> Inr ''{}''),
     cd_Unmarshal = (\<lambda>_. Inl ErrSyntax)\<rparr>"

theorem json_failure_keeps_status_witness:
  "\<exists>s'. run_handler nan_codec (\<lambda>r. ctx_JSON nan_codec 200 (AUser ())) (bare_request ''GET'' ''/'') (fresh_state ())
       = (Ret (), s') \<and> sent s' = Some 200"
  using json_failure_keeps_status [of nan_codec "AUser ()" _ "''{}''" "fresh_state ()" 200 "bare_request ''GET'' ''/''"]
  by (auto simp: nan_codec_def fresh_state_def new_response_def sent_def final_code_def valid_code_def
      informational_def body_allowed_def)

end
