(* ===== verification/HttpServer.thy ===== *)
theory HttpServer
  imports HttpRouter HealthState
begin

text \<open>
  The HTTP transport's options and lifecycle (\<open>transport/http/options.go\<close>, \<open>http.go\<close>).  Health states
  and the health manager are shared with the rest of the program, so starting and stopping work on
  manager.  \<open>Start\<close> only launches the goroutine that listens and serves, and returns: that goroutine is
  a step of its own, \<open>http_ListenAndServe\<close>, which may fail.  What it serves is \<open>ServeHTTP\<close> of the
  server's router.
\<close>

record http_options =
  ho_ID :: string
  ho_Name :: string
  ho_Version :: string
  ho_Address :: string
  ho_ReadTimeout :: duration
  ho_WriteTimeout :: duration
  ho_IdleTimeout :: duration
  ho_TLSCert :: string
  ho_TLSKey :: string
  ho_MaxBodySize :: int
  ho_Metadata :: "string \<Rightarrow> string option"

text \<open>The codec of the options is \<open>'u codec\<close>, beside the record: only the router uses it.\<close>

definition http_DefaultOptions :: "string \<Rightarrow> http_options" where
  "http_DefaultOptions uuid =
     \<lparr>ho_ID = take 8 uuid, ho_Name = ''http-service'', ho_Version = [], ho_Address = '':8080'',
      ho_ReadTimeout = 30 * second, ho_WriteTimeout = 30 * second, ho_IdleTimeout = 120 * second,
      ho_TLSCert = [], ho_TLSKey = [], ho_MaxBodySize = 1048576, ho_Metadata = (\<lambda>_. None)\<rparr>"

datatype http_option =
    HttpWithName string | HttpWithAddress string | HttpWithTimeout duration duration duration
  | HttpWithTLS string string | HttpWithMaxBodySize int | HttpWithMetadata "string \<Rightarrow> string option"

fun apply_http_option :: "http_option \<Rightarrow> http_options \<Rightarrow> http_options" where
  "apply_http_option (HttpWithName n) oo = oo\<lparr>ho_Name := n\<rparr>"
| "apply_http_option (HttpWithAddress a) oo = oo\<lparr>ho_Address := a\<rparr>"
| "apply_http_option (HttpWithTimeout r w i) oo =
     oo\<lparr>ho_ReadTimeout := r, ho_WriteTimeout := w, ho_IdleTimeout := i\<rparr>"
| "apply_http_option (HttpWithTLS c k) oo = oo\<lparr>ho_TLSCert := c, ho_TLSKey := k\<rparr>"
| "apply_http_option (HttpWithMaxBodySize n) oo = oo\<lparr>ho_MaxBodySize := n\<rparr>"
| "apply_http_option (HttpWithMetadata md) oo = oo\<lparr>ho_Metadata := md\<rparr>"

section \<open>The server\<close>

text \<open>
  \<open>http.Server\<close>: its settings, whether it was shut down or closed, and how far the goroutine that serves it
  has come.
\<close>

datatype serve_state = ServePending | Serving | ServeFailed go_error

record net_server =
  ns_Addr :: string
  ns_ReadTimeout :: duration
  ns_WriteTimeout :: duration
  ns_IdleTimeout :: duration
  ns_closed :: bool
  ns_serve :: serve_state

record ('u, 'w) http_server =
  hsv_opts :: http_options
  hsv_router :: "('u, 'w) router"
  hsv_server :: "net_server option"
  hsv_health :: nat
  hsv_addr :: string

type_synonym health_world = "health_heap \<times> health_manager"

definition http_NewServer ::
    "http_option list \<Rightarrow> string \<Rightarrow> 'u codec \<Rightarrow> health_heap \<Rightarrow> ('u, 'w) http_server \<times> health_heap" where
  "http_NewServer os uuid c h =
     (let options = fold apply_http_option os (http_DefaultOptions uuid);
          (ref, h') = NewHealthState (''http-'' @ ho_Address options) h
      in (\<lparr>hsv_opts = options, hsv_router = NewRouter c, hsv_server = None, hsv_health = ref,
           hsv_addr = ho_Address options\<rparr>, h'))"

text \<open>The health endpoint looks at the health state when it is called: \<open>hh\<close> finds the heap in the world.\<close>

definition health_handler :: "('w \<Rightarrow> health_heap) \<Rightarrow> 'u codec \<Rightarrow> nat \<Rightarrow> 'w HandlerFunc" where
  "health_handler hh c ref r s =
     (if health_IsReady ref (hh (ht_world s))
      then ctx_JSON c 200 (AMap [(''status'', AStr ''ok'')]) s
      else ctx_JSON c 503 (AMap [(''status'', AStr ''not ready'')]) s)"

definition http_Start ::
    "('w \<Rightarrow> health_heap) \<Rightarrow> ('u, 'w) http_server \<Rightarrow> health_world \<Rightarrow> go_error option \<times> ('u, 'w) http_server \<times> health_world" where
  "http_Start hh s hw =
     (let (h, hm) = hw; oo = hsv_opts s; r = hsv_router s;
          s' = s\<lparr>hsv_router := router_verb GET ''/health'' (health_handler hh (ro_codec r) (hsv_health s)) r,
                 hsv_server := Some \<lparr>ns_Addr = ho_Address oo, ns_ReadTimeout = ho_ReadTimeout oo,
                   ns_WriteTimeout = ho_WriteTimeout oo, ns_IdleTimeout = ho_IdleTimeout oo, ns_closed = False,
                   ns_serve = ServePending\<rparr>\<rparr>
      in (None, s', health_SetReady (hsv_health s) h, hm_addHealthState (hsv_health s) hm))"

text \<open>\<open>shutdown\<close> and \<open>close\<close> are the results of \<open>Shutdown\<close>, which may time out, and \<open>Close\<close>.\<close>

definition http_Stop ::
    "go_error option \<Rightarrow> go_error option \<Rightarrow> ('u, 'w) http_server \<Rightarrow> health_world \<Rightarrow>
     go_error option \<times> ('u, 'w) http_server \<times> health_world" where
  "http_Stop shutdown close s hw =
     (case hsv_server s of
        None \<Rightarrow> (None, s, hw)
      | Some ns \<Rightarrow>
          (case shutdown of Some err \<Rightarrow> close | None \<Rightarrow> None,
           s\<lparr>hsv_server := Some (ns\<lparr>ns_closed := True\<rparr>)\<rparr>,
           health_SetNoReady (hsv_health s) (fst hw), snd hw))"

text \<open>
  The goroutine of \<open>Start\<close>: \<open>ListenAndServe\<close>, or \<open>ListenAndServeTLS\<close>, whose files \<open>load\<close> may refuse after the
  address was bound (the listener is closed again).  A server that was stopped first does not listen.
  The error is only logged.  \<open>bound\<close>: the addresses in use on the machine.
\<close>

abbreviation ErrServerClosed :: go_error where "ErrServerClosed \<equiv> Err ''http: Server closed''"

definition ns_listen_addr :: "net_server \<Rightarrow> string" where
  "ns_listen_addr ns = (if ns_Addr ns = [] then '':http'' else ns_Addr ns)"

definition net_ListenAndServe ::
    "go_error option \<Rightarrow> net_server \<Rightarrow> string set \<Rightarrow> serve_state \<times> string set" where
  "net_ListenAndServe tls_err ns bound =
     (if ns_closed ns then (ServeFailed ErrServerClosed, bound)
      else case net_Listen (ns_listen_addr ns) bound of
             (Some err, _) \<Rightarrow> (ServeFailed err, bound)
           | (None, bound') \<Rightarrow> (case tls_err of Some err \<Rightarrow> (ServeFailed err, bound) | None \<Rightarrow> (Serving, bound')))"

definition http_ListenAndServe ::
    "(string \<Rightarrow> string \<Rightarrow> go_error option) \<Rightarrow> ('u, 'w) http_server \<Rightarrow> string set \<Rightarrow> ('u, 'w) http_server \<times> string set" where
  "http_ListenAndServe load s bound =
     (case hsv_server s of
        None \<Rightarrow> (s, bound)
      | Some ns \<Rightarrow>
          if ns_serve ns \<noteq> ServePending then (s, bound)
          else let oo = hsv_opts s;
                   (st, bound') = net_ListenAndServe
                     (if ho_TLSCert oo \<noteq> [] \<and> ho_TLSKey oo \<noteq> [] then load (ho_TLSCert oo) (ho_TLSKey oo) else None) ns bound
               in (s\<lparr>hsv_server := Some (ns\<lparr>ns_serve := st\<rparr>)\<rparr>, bound'))"

text \<open>\<open>Shutdown\<close> and \<open>Close\<close> close the listener, if there is one.\<close>

definition http_release :: "('u, 'w) http_server \<Rightarrow> string set \<Rightarrow> string set" where
  "http_release s bound =
     (case hsv_server s of
        Some ns \<Rightarrow> if \<not> ns_closed ns \<and> ns_serve ns = Serving then bound - {ns_listen_addr ns} else bound
      | None \<Rightarrow> bound)"

text \<open>
  \<open>http_up\<close>: started and not stopped, which is all the application knows; \<open>http_serving\<close>: the server really
  accepts requests.
\<close>

definition http_up :: "('u, 'w) http_server \<Rightarrow> bool" where
  "http_up s \<longleftrightarrow> (case hsv_server s of Some ns \<Rightarrow> \<not> ns_closed ns | None \<Rightarrow> False)"

section \<open>Properties\<close>

lemma health_segments: "path_segments ''health'' = [''health'']"
  unfolding path_segments_def trim_char_def by simp

definition http_serving :: "('u, 'w) http_server \<Rightarrow> bool" where
  "http_serving s \<longleftrightarrow> (case hsv_server s of Some ns \<Rightarrow> \<not> ns_closed ns \<and> ns_serve ns = Serving | None \<Rightarrow> False)"

lemma http_serving_up: "http_serving s \<Longrightarrow> http_up s"
  by (auto simp: http_serving_def http_up_def split: option.splits)

lemma http_ListenAndServe_keeps:
  "http_ListenAndServe load s bound = (s', bound') \<Longrightarrow> http_up s' = http_up s \<and> hsv_opts s' = hsv_opts s"
  by (auto simp: http_ListenAndServe_def http_up_def Let_def split: option.splits if_splits prod.splits)

text \<open>Once its goroutine has run, a started server serves unless it was refused its address or its key files.\<close>

lemma http_ListenAndServe_settles:
  assumes "http_ListenAndServe load s bound = (s', bound')" and "hsv_server s = Some ns"
  shows "\<exists>ns'. hsv_server s' = Some ns' \<and> ns_serve ns' \<noteq> ServePending"
  using assms by (auto simp: http_ListenAndServe_def net_ListenAndServe_def Let_def split: if_splits prod.splits option.splits)

text \<open>
  The health endpoint follows the life of the server: a new server answers \<open>GET /health\<close> with 200
  from the moment it is started, and with 503 once it is stopped, whatever the outcome of the
  shutdown, provided the codec encodes the answer.
\<close>

theorem http_health_follows_lifecycle:
  assumes "http_NewServer os uuid c h = (s, h0)" and "http_Start (\<lambda>w. w) s (h0, hm) = (err, s1, h1, hm1)"
    and "http_Stop shutdown close s1 (h1, hm1) = (err', s2, h2, hm2)"
    and "\<And>v. cd_Marshal c v = Inr (enc v)"
  shows "sent (snd (ServeHTTP mux (hsv_router s1) (bare_request ''GET'' ''/health'') (fresh_state h1))) = Some 200 \<and>
     sent (snd (ServeHTTP mux (hsv_router s2) (bare_request ''GET'' ''/health'') (fresh_state h2))) = Some 503 \<and>
     http_up s1 \<and> \<not> http_up s2"
proof -
  obtain ref where s: "hsv_router s = NewRouter c" "hsv_health s = ref" "hsv_server s = None"
    using assms(1) by (auto simp: http_NewServer_def Let_def split: prod.splits)
  let ?rt = "\<lparr>rt_method = ''GET'', rt_pattern = ''/health'', rt_parts = map route_part (path_segments ''/health''),
      rt_handler = health_handler (\<lambda>w. w) c ref\<rparr> :: health_heap route"
  have r: "ro_routes (hsv_router s1) = [?rt]" "ro_codec (hsv_router s1) = c" "ro_middlewares (hsv_router s1) = []"
    "h1 = health_SetReady ref h0" "hsv_health s1 = ref" "http_up s1"
    using assms(2) s
    by (auto simp: http_Start_def Let_def router_verb_def registerRoute_def NewRouter_def http_up_def)
  have s2: "hsv_router s2 = hsv_router s1" "h2 = health_SetNoReady ref h1" "\<not> http_up s2"
    using assms(3) r(5,6) by (auto simp: http_Stop_def http_up_def split: option.splits)
  have sent: "sent (snd (ServeHTTP mux (hsv_router s1) (bare_request ''GET'' ''/health'') (fresh_state hx))) =
      Some (if health_IsReady ref hx then 200 else 503)" for hx
  proof -
    define st where "st = NewContext (fresh_state hx)"
    have st: "sent (st\<lparr>ht_params := p\<rparr>) = None" "ht_world (st\<lparr>ht_params := p\<rparr>) = hx" for p
      by (simp_all add: st_def NewContext_def fresh_state_def sent_def new_response_def)
    define code where "code = (if health_IsReady ref hx then 200 else 503 :: int)"
    have code: "final_code code" "body_allowed code"
      by (auto simp: code_def final_code_def valid_code_def informational_def body_allowed_def)
    have json: "\<exists>s'. ctx_JSON c code v (st\<lparr>ht_params := p\<rparr>) = (Ret None, s') \<and> sent s' = Some code" for v p
    proof -
      define s0 where "s0 = header_Set ''Content-Type'' ''application/json'' (st\<lparr>ht_params := p\<rparr>)"
      have "sent s0 = None" using st by (simp add: s0_def)
      note first = WriteHeader_first [OF this code(1)]
      show ?thesis
        unfolding ctx_JSON_def eff_bind_def s0_def [symmetric] first
        using code(2) by (simp add: assms(4)) (simp add: rw_Write_def eff_bind_def conn_WriteHeader_def Let_def sent_def)
    qed
    have "\<exists>s'. health_handler (\<lambda>w. w) c ref req (st\<lparr>ht_params := p\<rparr>) = (Ret None, s') \<and> sent s' = Some code" for req p
      using json unfolding health_handler_def st(2) code_def by auto
    then obtain s' where h: "health_handler (\<lambda>w. w) c ref (bare_request ''GET'' ''/health'')
        (st\<lparr>ht_params := ht_params st ++ Map.empty\<rparr>) = (Ret None, s')" "sent s' = Some code"
      by blast
    have "matchRoute ''GET'' ''/health'' (hsv_router s1) = Some (?rt, Map.empty)"
      by (simp add: matchRoute_eq r(1) health_segments route_matches_def route_part_def part_matches_def
          bindings_def has_prefix_def)
    then show ?thesis
      using h by (simp add: ServeHTTP_def bare_request_def r(2,3) with_context_def eff_defer_def st_def [symmetric]
          run_handler_def eff_bind_def eff_ret_def releaseContext_def sent_def code_def)
  qed
  show ?thesis using sent [of h1] sent [of h2] r s2 by simp
qed

definition empty_heap :: health_heap where
  "empty_heap = \<lparr>hh_next = 0, hh_state = (\<lambda>_. \<lparr>hs_ready = False, hs_name = []\<rparr>)\<rparr>"

definition constant_codec :: "unit codec" where
  "constant_codec = \<lparr>cd_Marshal = (\<lambda>_. Inr ''{}''), cd_Unmarshal = (\<lambda>_. Inr (AUser ()))\<rparr>"

theorem http_health_follows_lifecycle_witness:
  "let (s, h0) = http_NewServer [HttpWithAddress '':80''] ''0123456789'' constant_codec empty_heap;
       (err, s1, h1, hm1) = http_Start (\<lambda>w. w) s (h0, []);
       (err', s2, h2, hm2) = http_Stop (Some ErrRange) None s1 (h1, hm1)
   in sent (snd (ServeHTTP (\<lambda>_ _. eff_ret ()) (hsv_router s2) (bare_request ''GET'' ''/health'') (fresh_state h2))) = Some 503"
proof -
  obtain s h0 err s1 h1 hm1 err' s2 h2 hm2
    where eqs: "http_NewServer [HttpWithAddress '':80''] ''0123456789'' constant_codec empty_heap = (s, h0)"
      "http_Start (\<lambda>w. w) s (h0, []) = (err, s1, h1, hm1)"
      "http_Stop (Some ErrRange) None s1 (h1, hm1) = (err', s2, h2, hm2)"
    by (metis prod.exhaust)
  have "cd_Marshal constant_codec v = Inr ''{}''" for v by (simp add: constant_codec_def)
  from http_health_follows_lifecycle [OF eqs this, of "\<lambda>_ _. eff_ret ()"] show ?thesis
    unfolding Let_def eqs by (simp add: eqs)
qed

end
