(* ===== verification/EventBus.thy ===== *)
theory EventBus
  imports Prelude
begin

text \<open>
  The event bus (\<open>events/events.go\<close>, \<open>events/options.go\<close>, \<open>events/errors.go\<close>).  Payloads are of any
  type \<open>'d\<close>; handlers and contexts are identified by numbers, and what a handler does is a
  function \<open>run\<close> on a world of the caller's choice.  Synchronous publishing is a function;
  asynchronous publishing, the workers and \<open>Close\<close> are the step relation \<open>bus_step\<close>.
\<close>

section \<open>Events, options, subscriptions\<close>

record 'd bus_event =
  be_topic :: string
  be_type :: string
  be_data :: 'd
  be_timestamp :: time
  be_metadata :: "string \<Rightarrow> string option"

definition NewEvent :: "time \<Rightarrow> string \<Rightarrow> 'd \<Rightarrow> 'd bus_event" where
  "NewEvent now topic d =
     \<lparr>be_topic = topic, be_type = [], be_data = d, be_timestamp = now, be_metadata = (\<lambda>_. None)\<rparr>"

definition event_WithType :: "string \<Rightarrow> 'd bus_event \<Rightarrow> 'd bus_event" where
  "event_WithType t e = e\<lparr>be_type := t\<rparr>"

definition event_WithMetadata :: "string \<Rightarrow> string \<Rightarrow> 'd bus_event \<Rightarrow> 'd bus_event" where
  "event_WithMetadata key val e = e\<lparr>be_metadata := (be_metadata e)(key \<mapsto> val)\<rparr>"

record bus_options =
  bo_BufferSize :: int
  bo_Async :: bool
  bo_WorkerCount :: int

text \<open>\<open>procs\<close> is \<open>runtime.GOMAXPROCS(0)\<close>.\<close>

definition bus_DefaultOptions :: "int \<Rightarrow> bus_options" where
  "bus_DefaultOptions procs = \<lparr>bo_BufferSize = 100, bo_Async = True, bo_WorkerCount = procs\<rparr>"

datatype bus_option = BusWithBufferSize int | BusWithAsync bool | BusWithWorkerCount int

fun apply_bus_option :: "bus_option \<Rightarrow> bus_options \<Rightarrow> bus_options" where
  "apply_bus_option (BusWithBufferSize n) o' = o'\<lparr>bo_BufferSize := n\<rparr>"
| "apply_bus_option (BusWithAsync b) o' = o'\<lparr>bo_Async := b\<rparr>"
| "apply_bus_option (BusWithWorkerCount n) o' = o'\<lparr>bo_WorkerCount := n\<rparr>"

record subscription =
  sub_topic :: string
  sub_handler :: nat
  sub_id :: nat

record 'd bus_job =
  job_ctx :: nat
  job_handler :: nat
  job_event :: "'d bus_event"

text \<open>
  \<open>bus_jobs\<close> is the channel an asynchronous bus has; \<open>bus_done\<close> says that \<open>done\<close> is closed and
  \<open>bus_started\<close> that \<open>startOnce\<close> has run.
\<close>

record 'd bus =
  bus_opts :: bus_options
  bus_subscribers :: "string \<Rightarrow> subscription list option"
  bus_closed :: bool
  bus_nextID :: nat
  bus_jobs :: "'d bus_job chan"
  bus_done :: bool
  bus_started :: bool

abbreviation ErrBusClosed :: go_error where "ErrBusClosed \<equiv> Err ''event bus is closed''"

definition bus_normalise :: "bus_options \<Rightarrow> bus_options" where
  "bus_normalise o0 =
     (let o1 = (if bo_BufferSize o0 \<le> 0 then o0\<lparr>bo_BufferSize := 1\<rparr> else o0)
      in if bo_WorkerCount o1 \<le> 0 then o1\<lparr>bo_WorkerCount := 1\<rparr> else o1)"

definition NewBus :: "int \<Rightarrow> bus_option list \<Rightarrow> 'd bus" where
  "NewBus procs os =
     (let options = bus_normalise (fold apply_bus_option os (bus_DefaultOptions procs))
      in \<lparr>bus_opts = options, bus_subscribers = (\<lambda>_. None), bus_closed = False, bus_nextID = 0,
          bus_jobs = chan_make (if bo_Async options then nat (bo_BufferSize options) else 0),
          bus_done = False, bus_started = False\<rparr>)"

section \<open>Subscribing\<close>

definition subs_of :: "'d bus \<Rightarrow> string \<Rightarrow> subscription list" where
  "subs_of b topic = (case bus_subscribers b topic of Some l \<Rightarrow> l | None \<Rightarrow> [])"

definition bus_Subscribe :: "string \<Rightarrow> nat \<Rightarrow> 'd bus \<Rightarrow> (subscription \<times> 'd bus) result" where
  "bus_Subscribe topic handler b =
     (if bus_closed b then Inl ErrBusClosed
      else (let i = bus_nextID b + 1;
                sub = \<lparr>sub_topic = topic, sub_handler = handler, sub_id = i\<rparr>
            in Inr (sub, b\<lparr>bus_nextID := i,
                 bus_subscribers := (bus_subscribers b)(topic \<mapsto> subs_of b topic @ [sub])\<rparr>)))"

definition bus_unsubscribe :: "subscription \<Rightarrow> 'd bus \<Rightarrow> 'd bus" where
  "bus_unsubscribe sub b =
     (case bus_subscribers b (sub_topic sub) of
        None \<Rightarrow> b
      | Some subs \<Rightarrow>
          if \<exists>s\<in>set subs. sub_id s = sub_id sub
          then b\<lparr>bus_subscribers := (bus_subscribers b)
                   (sub_topic sub \<mapsto> remove_first (\<lambda>s. sub_id s = sub_id sub) subs)\<rparr>
          else b)"

definition subscription_Topic :: "subscription \<Rightarrow> string" where
  "subscription_Topic sub = sub_topic sub"

definition subscription_Unsubscribe :: "subscription \<Rightarrow> 'd bus \<Rightarrow> 'd bus" where
  "subscription_Unsubscribe sub b = bus_unsubscribe sub b"

section \<open>Publishing\<close>

text \<open>
  The read-locked part of \<open>Publish\<close>: the subscribers of the topic and those of \<open>*\<close>.
\<close>

definition bus_snapshot :: "string \<Rightarrow> 'd bus \<Rightarrow> (subscription list \<times> subscription list) result" where
  "bus_snapshot topic b =
     (if bus_closed b then Inl ErrBusClosed else Inr (subs_of b topic, subs_of b ''*''))"

text \<open>The loop over the subscribers of a synchronous bus: the first error ends it.\<close>

fun deliver ::
    "(nat \<Rightarrow> nat \<Rightarrow> 'd bus_event \<Rightarrow> 'w \<Rightarrow> go_error option \<times> 'w) \<Rightarrow> nat \<Rightarrow> 'd bus_event \<Rightarrow>
     subscription list \<Rightarrow> 'w \<Rightarrow> go_error option \<times> 'w" where
  "deliver run ctx ev [] w = (None, w)"
| "deliver run ctx ev (sub # subs) w =
     (case run (sub_handler sub) ctx ev w of
        (Some err, w') \<Rightarrow> (Some err, w')
      | (None, w') \<Rightarrow> deliver run ctx ev subs w')"

definition bus_Publish_sync ::
    "(nat \<Rightarrow> nat \<Rightarrow> 'd bus_event \<Rightarrow> 'w \<Rightarrow> go_error option \<times> 'w) \<Rightarrow> nat \<Rightarrow> string \<Rightarrow> 'd \<Rightarrow> time \<Rightarrow>
     'd bus \<Rightarrow> 'w \<Rightarrow> go_error option \<times> 'w" where
  "bus_Publish_sync run ctx topic d now b w =
     (case bus_snapshot topic b of
        Inl err \<Rightarrow> (Some err, w)
      | Inr (subs, wildcardSubs) \<Rightarrow>
          if subs = [] \<and> wildcardSubs = [] then (None, w)
          else (let event = NewEvent now topic d
                in case deliver run ctx event subs w of
                     (Some err, w') \<Rightarrow> (Some err, w')
                   | (None, w') \<Rightarrow> deliver run ctx event wildcardSubs w'))"

text \<open>
  \<open>enqueue\<close> on an asynchronous bus: \<open>startOnce\<close>, then a \<open>select\<close> between the closed \<open>done\<close> and
  room in the job queue.  The list holds the outcomes that are ready; with none the call blocks.
\<close>

definition bus_startWorkers :: "'d bus \<Rightarrow> 'd bus \<times> nat" where
  "bus_startWorkers b =
     (if bus_started b then (b, 0)
      else (b\<lparr>bus_started := True\<rparr>, nat (bo_WorkerCount (bus_opts b))))"

definition bus_enqueue ::
    "nat \<Rightarrow> nat \<Rightarrow> 'd bus_event \<Rightarrow> 'd bus \<Rightarrow> (go_error option \<times> 'd bus) list" where
  "bus_enqueue ctx handler ev b =
     (let job = \<lparr>job_ctx = ctx, job_handler = handler, job_event = ev\<rparr>
      in (if bus_done b then [(Some ErrBusClosed, b)] else []) @
         (case chan_trysend job (bus_jobs b) of
            Some c \<Rightarrow> [(None, b\<lparr>bus_jobs := c\<rparr>)]
          | None \<Rightarrow> []))"

text \<open>
  The mutex section of \<open>Close\<close> and the closing of \<open>done\<close>; \<open>None\<close>: the bus was closed before.
\<close>

definition bus_Close_begin :: "'d bus \<Rightarrow> 'd bus option" where
  "bus_Close_begin b =
     (if bus_closed b then None
      else Some (b\<lparr>bus_closed := True, bus_subscribers := (\<lambda>_. None),
                   bus_done := bo_Async (bus_opts b) \<or> bus_done b\<rparr>))"

section \<open>The asynchronous bus as a step relation\<close>

text \<open>
  Publishers in flight hold the event and the handlers still to be enqueued; workers are idle
  (counted) or busy with a job; \<open>Close\<close> waits for all workers to exit.  The last three fields
  record the history: every subscription ever made, the jobs the queue accepted and the jobs
  handed to a handler, in order.
\<close>

datatype close_pc = CloseIdle | CloseWaiting | CloseReturned

record 'd bus_sys =
  bs_bus :: "'d bus"
  bs_pubs :: "nat \<Rightarrow> (nat \<times> subscription list \<times> 'd bus_event) option"
  bs_idle :: nat
  bs_busy :: "'d bus_job list"
  bs_close :: close_pc
  bs_subs :: "subscription set"
  bs_accepted :: "'d bus_job list"
  bs_handled :: "'d bus_job list"

definition bus_sys_init :: "'d bus \<Rightarrow> 'd bus_sys" where
  "bus_sys_init b = \<lparr>bs_bus = b, bs_pubs = (\<lambda>_. None), bs_idle = 0, bs_busy = [],
     bs_close = CloseIdle, bs_subs = {}, bs_accepted = [], bs_handled = []\<rparr>"

inductive bus_step :: "'d bus_sys \<Rightarrow> 'd bus_sys \<Rightarrow> bool" where
  bus_subscribe: "bus_Subscribe topic h (bs_bus s) = Inr (sub, b') \<Longrightarrow>
     bus_step s (s\<lparr>bs_bus := b', bs_subs := insert sub (bs_subs s)\<rparr>)"
| bus_unsub: "bus_step s (s\<lparr>bs_bus := bus_unsubscribe sub (bs_bus s)\<rparr>)"
| bus_publish: "bs_pubs s p = None \<Longrightarrow> bus_snapshot topic (bs_bus s) = Inr (subs, wild) \<Longrightarrow>
     bus_step s (s\<lparr>bs_pubs := (bs_pubs s)(p \<mapsto> (ctx, subs @ wild, NewEvent now topic d))\<rparr>)"
| bus_start: "bs_pubs s p = Some (ctx, sub # subs, ev) \<Longrightarrow>
     bus_startWorkers (bs_bus s) = (b', n) \<Longrightarrow>
     bus_step s (s\<lparr>bs_bus := b', bs_idle := bs_idle s + n\<rparr>)"
| bus_accept: "bs_pubs s p = Some (ctx, sub # subs, ev) \<Longrightarrow> bus_started (bs_bus s) \<Longrightarrow>
     (None, b') \<in> set (bus_enqueue ctx (sub_handler sub) ev (bs_bus s)) \<Longrightarrow>
     bus_step s (s\<lparr>bs_bus := b', bs_pubs := (bs_pubs s)(p \<mapsto> (ctx, subs, ev)),
       bs_accepted := bs_accepted s @
         [\<lparr>job_ctx = ctx, job_handler = sub_handler sub, job_event = ev\<rparr>]\<rparr>)"
| bus_refuse: "bs_pubs s p = Some (ctx, sub # subs, ev) \<Longrightarrow> bus_started (bs_bus s) \<Longrightarrow>
     (Some err, b') \<in> set (bus_enqueue ctx (sub_handler sub) ev (bs_bus s)) \<Longrightarrow>
     bus_step s (s\<lparr>bs_bus := b', bs_pubs := (bs_pubs s)(p := None)\<rparr>)"
| bus_publish_end: "bs_pubs s p = Some (ctx, [], ev) \<Longrightarrow>
     bus_step s (s\<lparr>bs_pubs := (bs_pubs s)(p := None)\<rparr>)"
| bus_worker_take: "0 < bs_idle s \<Longrightarrow> chan_recv (bus_jobs (bs_bus s)) = Some (job, c) \<Longrightarrow>
     bus_step s (s\<lparr>bs_bus := (bs_bus s)\<lparr>bus_jobs := c\<rparr>, bs_idle := bs_idle s - 1,
       bs_busy := bs_busy s @ [job], bs_handled := bs_handled s @ [job]\<rparr>)"
| bus_worker_back: "bs_busy s = as @ job # bs \<Longrightarrow>
     bus_step s (s\<lparr>bs_busy := as @ bs, bs_idle := bs_idle s + 1\<rparr>)"
| bus_worker_exit: "0 < bs_idle s \<Longrightarrow> bus_done (bs_bus s) \<Longrightarrow>
     bus_step s (s\<lparr>bs_idle := bs_idle s - 1\<rparr>)"
| bus_close: "bus_Close_begin (bs_bus s) = Some b' \<Longrightarrow>
     bus_step s (s\<lparr>bs_bus := b', bs_close := CloseWaiting\<rparr>)"
| bus_close_return: "bs_close s = CloseWaiting \<Longrightarrow> bs_idle s = 0 \<Longrightarrow> bs_busy s = [] \<Longrightarrow>
     bus_step s (s\<lparr>bs_close := CloseReturned\<rparr>)"

inductive_cases bus_stepE: "bus_step s s'"

section \<open>Facts about the single operations\<close>

definition bus_ok :: "'d bus \<Rightarrow> bool" where
  "bus_ok b \<longleftrightarrow>
     (\<forall>t. distinct (map sub_id (subs_of b t)) \<and>
          (\<forall>x\<in>set (subs_of b t). sub_topic x = t \<and> sub_id x \<le> bus_nextID b))"

lemma bus_ok_NewBus [simp]: "bus_ok (NewBus procs os)"
  by (simp add: bus_ok_def NewBus_def Let_def subs_of_def)

lemma subs_of_NewBus [simp]: "subs_of (NewBus procs os) t = []"
  by (simp add: NewBus_def Let_def subs_of_def)

lemma bus_SubscribeD:
  assumes "bus_Subscribe topic h b = Inr (sub, b')"
  shows "\<not> bus_closed b" "sub = \<lparr>sub_topic = topic, sub_handler = h, sub_id = bus_nextID b + 1\<rparr>"
    "subs_of b' t = (if t = topic then subs_of b t @ [sub] else subs_of b t)"
    "bus_nextID b' = bus_nextID b + 1" "bus_opts b' = bus_opts b" "bus_jobs b' = bus_jobs b"
    "bus_done b' = bus_done b" "bus_started b' = bus_started b" "bus_closed b' = bus_closed b"
  using assms by (auto simp: bus_Subscribe_def Let_def subs_of_def split: if_splits)

lemma subs_of_unsubscribe [simp]:
  "subs_of (bus_unsubscribe sub b) t =
     (if t = sub_topic sub then remove_first (\<lambda>x. sub_id x = sub_id sub) (subs_of b t)
      else subs_of b t)"
  by (auto simp: bus_unsubscribe_def subs_of_def split: option.splits)

lemma bus_unsubscribe_fields [simp]:
  "bus_nextID (bus_unsubscribe sub b) = bus_nextID b" "bus_opts (bus_unsubscribe sub b) = bus_opts b"
  "bus_jobs (bus_unsubscribe sub b) = bus_jobs b" "bus_done (bus_unsubscribe sub b) = bus_done b"
  "bus_started (bus_unsubscribe sub b) = bus_started b" "bus_closed (bus_unsubscribe sub b) = bus_closed b"
  by (auto simp: bus_unsubscribe_def split: option.splits)

lemma bus_startWorkers_eq:
  "bus_startWorkers b = (b', n) \<longleftrightarrow> b' = b\<lparr>bus_started := True\<rparr> \<and>
     n = (if bus_started b then 0 else nat (bo_WorkerCount (bus_opts b)))"
  by (auto simp: bus_startWorkers_def)

lemma bus_enqueue_None:
  "(None, b') \<in> set (bus_enqueue ctx h ev b) \<longleftrightarrow>
     length (chan_buf (bus_jobs b)) < chan_cap (bus_jobs b) \<and>
     b' = b\<lparr>bus_jobs := (bus_jobs b)\<lparr>chan_buf := chan_buf (bus_jobs b) @
       [\<lparr>job_ctx = ctx, job_handler = h, job_event = ev\<rparr>]\<rparr>\<rparr>"
  by (auto simp: bus_enqueue_def chan_trysend_def)

lemma bus_enqueue_Some:
  "(Some err, b') \<in> set (bus_enqueue ctx h ev b) \<longleftrightarrow> bus_done b \<and> err = ErrBusClosed \<and> b' = b"
  by (auto simp: bus_enqueue_def chan_trysend_def)

lemma bus_Close_beginD:
  assumes "bus_Close_begin b = Some b'"
  shows "\<not> bus_closed b" "bus_closed b'" "subs_of b' t = []" "bus_opts b' = bus_opts b"
    "bus_jobs b' = bus_jobs b" "bus_started b' = bus_started b" "bus_nextID b' = bus_nextID b"
    "bus_done b' \<longleftrightarrow> bo_Async (bus_opts b) \<or> bus_done b"
  using assms by (auto simp: bus_Close_begin_def subs_of_def split: if_splits)

lemma subs_of_upd [simp]:
  "subs_of (b\<lparr>bus_started := x\<rparr>) t = subs_of b t" "subs_of (b\<lparr>bus_jobs := c\<rparr>) t = subs_of b t"
  by (simp_all add: subs_of_def)

section \<open>Invariants of the asynchronous bus\<close>

text \<open>
  The queue: what was accepted is what was handed to handlers followed by what still waits, in
  that order, and the queue keeps its capacity.
\<close>

definition queue_inv :: "bus_options \<Rightarrow> nat \<Rightarrow> 'd bus_sys \<Rightarrow> bool" where
  "queue_inv opts cap s \<longleftrightarrow>
     bus_opts (bs_bus s) = opts \<and> chan_cap (bus_jobs (bs_bus s)) = cap \<and> chan_ok (bus_jobs (bs_bus s)) \<and>
     bs_accepted s = bs_handled s @ chan_buf (bus_jobs (bs_bus s))"

lemma queue_inv_step: "bus_step s s' \<Longrightarrow> queue_inv opts cap s \<Longrightarrow> queue_inv opts cap s'"
  by (erule bus_stepE)
    (auto simp: queue_inv_def bus_SubscribeD bus_startWorkers_eq bus_enqueue_None bus_enqueue_Some
      bus_Close_beginD chan_simps chan_ok_def)

text \<open>The workers: started at most once, never more than the configured number.\<close>

definition worker_inv :: "bus_options \<Rightarrow> 'd bus_sys \<Rightarrow> bool" where
  "worker_inv opts s \<longleftrightarrow> bus_opts (bs_bus s) = opts \<and>
     bs_idle s + length (bs_busy s) \<le> (if bus_started (bs_bus s) then nat (bo_WorkerCount opts) else 0)"

lemma worker_inv_step: "bus_step s s' \<Longrightarrow> worker_inv opts s \<Longrightarrow> worker_inv opts s'"
  by (erule bus_stepE)
    (auto simp: worker_inv_def bus_SubscribeD bus_startWorkers_eq bus_enqueue_None bus_enqueue_Some
      bus_Close_beginD split: if_splits)

text \<open>The subscriptions: a job's handler subscribed to the event's topic or to \<open>*\<close>.\<close>

definition for_topic :: "'d bus_event \<Rightarrow> subscription \<Rightarrow> bool" where
  "for_topic ev x \<longleftrightarrow> sub_topic x = be_topic ev \<or> sub_topic x = ''*''"

definition subs_inv :: "'d bus_sys \<Rightarrow> bool" where
  "subs_inv s \<longleftrightarrow>
     bus_ok (bs_bus s) \<and> (\<forall>t. set (subs_of (bs_bus s) t) \<subseteq> bs_subs s) \<and>
     (\<forall>p ctx subs ev x. bs_pubs s p = Some (ctx, subs, ev) \<longrightarrow> x \<in> set subs \<longrightarrow>
        x \<in> bs_subs s \<and> for_topic ev x) \<and>
     (\<forall>j\<in>set (bs_accepted s). \<exists>x\<in>bs_subs s. sub_handler x = job_handler j \<and> for_topic (job_event j) x)"

lemma bus_ok_Subscribe: "bus_Subscribe topic h b = Inr (sub, b') \<Longrightarrow> bus_ok b \<Longrightarrow> bus_ok b'"
proof -
  assume s: "bus_Subscribe topic h b = Inr (sub, b')" and ok: "bus_ok b"
  have "distinct (map sub_id (subs_of b' t)) \<and>
      (\<forall>x\<in>set (subs_of b' t). sub_topic x = t \<and> sub_id x \<le> bus_nextID b')" for t
  proof -
    have "distinct (map sub_id (subs_of b t))"
      "\<forall>x\<in>set (subs_of b t). sub_topic x = t \<and> sub_id x \<le> bus_nextID b"
      using ok by (simp_all add: bus_ok_def)
    then show ?thesis
      using bus_SubscribeD(2) [OF s] by (auto simp: bus_SubscribeD(3,4) [OF s])
  qed
  then show "bus_ok b'" by (simp add: bus_ok_def)
qed

lemma bus_ok_unsubscribe: "bus_ok b \<Longrightarrow> bus_ok (bus_unsubscribe sub b)"
  using remove_first_subset by (fastforce simp: bus_ok_def intro: distinct_remove_first)

lemma bus_ok_cong: "(\<And>t. subs_of b' t = subs_of b t) \<Longrightarrow> bus_nextID b' = bus_nextID b \<Longrightarrow> bus_ok b' = bus_ok b"
  by (simp add: bus_ok_def)

lemma bus_ok_empty: "(\<And>t. subs_of b t = []) \<Longrightarrow> bus_ok b"
  by (simp add: bus_ok_def)

lemma subs_inv_step: "bus_step s s' \<Longrightarrow> subs_inv s \<Longrightarrow> subs_inv s'"
proof (erule bus_stepE, goal_cases)
  case (1 topic h sub b')
  then show ?case
    using bus_ok_Subscribe [of topic h "bs_bus s" sub b']
    by (simp add: subs_inv_def bus_SubscribeD(3)) blast
next
  case (2 sub)
  then show ?case
    using remove_first_subset [of "\<lambda>x. sub_id x = sub_id sub" "subs_of (bs_bus s) (sub_topic sub)"]
    by (auto simp: subs_inv_def bus_ok_unsubscribe)
next
  case (3 p topic subs wild ctx now d)
  then have "subs = subs_of (bs_bus s) topic" "wild = subs_of (bs_bus s) ''*''"
    by (auto simp: bus_snapshot_def split: if_splits)
  moreover have "\<forall>t. \<forall>x\<in>set (subs_of (bs_bus s) t). x \<in> bs_subs s \<and> sub_topic x = t"
    using 3 by (auto simp: subs_inv_def bus_ok_def)
  ultimately show ?case
    using 3 by (auto simp: subs_inv_def for_topic_def NewEvent_def)
next
  case (4 p ctx sub subs ev b' n)
  then show ?case
    using bus_ok_cong [of b' "bs_bus s"] by (simp add: subs_inv_def bus_startWorkers_eq)
next
  case (5 p ctx sub subs ev b')
  then have b': "subs_of b' t = subs_of (bs_bus s) t" "bus_nextID b' = bus_nextID (bs_bus s)" for t
    by (simp_all add: bus_enqueue_None)
  have "sub \<in> bs_subs s \<and> for_topic ev sub" using 5 by (auto simp: subs_inv_def)
  then show ?case
    using 5 b' bus_ok_cong [of b' "bs_bus s"] by (auto simp: subs_inv_def)
next
  case (6 p ctx sub subs ev err b')
  then show ?case by (auto simp: subs_inv_def bus_enqueue_Some)
next
  case (8 job c)
  then show ?case
    using bus_ok_cong [of "(bs_bus s)\<lparr>bus_jobs := c\<rparr>" "bs_bus s"] by (auto simp: subs_inv_def)
next
  case (11 b')
  then show ?case
    using bus_ok_empty [of b'] by (auto simp: subs_inv_def bus_Close_beginD(3))
qed (auto simp: subs_inv_def)

text \<open>After \<open>Close\<close> has begun the bus stays closed, and an asynchronous one keeps \<open>done\<close> closed.\<close>

definition closing_inv :: "'d bus_sys \<Rightarrow> bool" where
  "closing_inv s \<longleftrightarrow>
     (bs_close s \<noteq> CloseIdle \<longrightarrow> bus_closed (bs_bus s)) \<and>
     (bo_Async (bus_opts (bs_bus s)) \<longrightarrow> bus_closed (bs_bus s) = bus_done (bs_bus s))"

lemma closing_inv_step: "bus_step s s' \<Longrightarrow> closing_inv s \<Longrightarrow> closing_inv s'"
  by (erule bus_stepE)
    (auto simp: closing_inv_def bus_SubscribeD bus_startWorkers_eq bus_enqueue_None bus_enqueue_Some
      bus_Close_beginD)

text \<open>With no worker, no publisher in flight and the bus closed, nothing can start a handler.\<close>

definition quiet :: "'d bus_sys \<Rightarrow> bool" where
  "quiet s \<longleftrightarrow> bus_closed (bs_bus s) \<and> bs_idle s = 0 \<and> bs_busy s = [] \<and> (\<forall>p. bs_pubs s p = None)"

lemma quiet_step: "bus_step s s' \<Longrightarrow> quiet s \<Longrightarrow> quiet s' \<and> bs_handled s' = bs_handled s \<and> bs_accepted s' = bs_accepted s"
  by (erule bus_stepE)
    (auto simp: quiet_def bus_SubscribeD bus_snapshot_def bus_Close_beginD split: if_splits)

lemma quiet_steps:
  "bus_step\<^sup>*\<^sup>* s s' \<Longrightarrow> quiet s \<Longrightarrow> quiet s' \<and> bs_handled s' = bs_handled s \<and> bs_accepted s' = bs_accepted s"
  by (induction rule: rtranclp_induct) (auto dest: quiet_step)

section \<open>Properties\<close>

text \<open>A handler that notes its call in a list and returns the error \<open>f\<close> gives it.\<close>

definition noting :: "(nat \<Rightarrow> go_error option) \<Rightarrow> nat \<Rightarrow> nat \<Rightarrow> 'd bus_event \<Rightarrow> nat list \<Rightarrow> go_error option \<times> nat list" where
  "noting f h ctx ev w = (f h, w @ [h])"

text \<open>The handlers called and the error returned, for a list of handlers that stops at an error.\<close>

definition first_failure :: "(nat \<Rightarrow> go_error option) \<Rightarrow> nat list \<Rightarrow> go_error option" where
  "first_failure f hs = (case dropWhile (\<lambda>h. f h = None) hs of [] \<Rightarrow> None | h # _ \<Rightarrow> f h)"

definition called :: "(nat \<Rightarrow> go_error option) \<Rightarrow> nat list \<Rightarrow> nat list" where
  "called f hs = takeWhile (\<lambda>h. f h = None) hs @ take 1 (dropWhile (\<lambda>h. f h = None) hs)"

lemma deliver_noting:
  "deliver (noting f) ctx ev subs w = (first_failure f (map sub_handler subs), w @ called f (map sub_handler subs))"
  by (induction subs arbitrary: w) (auto simp: noting_def first_failure_def called_def split: option.splits)

lemma first_failure_append:
  "first_failure f (xs @ ys) = (case first_failure f xs of Some e \<Rightarrow> Some e | None \<Rightarrow> first_failure f ys)"
  by (induction xs) (auto simp: first_failure_def split: option.splits)

lemma called_append:
  "called f (xs @ ys) = (case first_failure f xs of Some e \<Rightarrow> called f xs | None \<Rightarrow> xs @ called f ys)"
  by (induction xs) (auto simp: first_failure_def called_def split: option.splits)

lemma called_all: "first_failure f xs = None \<Longrightarrow> called f xs = xs"
  by (induction xs) (auto simp: first_failure_def called_def split: if_splits option.splits)

text \<open>
  C34: A synchronous \<open>Publish\<close> on an open bus calls the topic's handlers in subscription order,
  then those of \<open>*\<close>, up to and including the first one that fails, and returns that handler's
  error, or nil when none fails; on a closed bus it calls nothing and returns \<open>ErrBusClosed\<close>.
\<close>

theorem bus_publish_sync_calls:
  "bus_Publish_sync (noting f) ctx topic d now b w =
     (if bus_closed b then (Some ErrBusClosed, w)
      else (let hs = map sub_handler (subs_of b topic @ subs_of b ''*'')
            in (first_failure f hs, w @ called f hs)))"
proof (cases "bus_closed b")
  case False
  show ?thesis
  proof (cases "first_failure f (map sub_handler (subs_of b topic))")
    case None
    then show ?thesis
      using False called_all [OF None]
      by (simp add: bus_Publish_sync_def bus_snapshot_def Let_def deliver_noting first_failure_append
          called_append) (simp add: first_failure_def called_def)
  next
    case (Some e)
    then have "subs_of b topic \<noteq> []" by (auto simp: first_failure_def)
    with Some False show ?thesis
      by (simp add: bus_Publish_sync_def bus_snapshot_def Let_def deliver_noting first_failure_append
          called_append)
  qed
qed (simp add: bus_Publish_sync_def bus_snapshot_def)

text \<open>
  Publishing on the topic \<open>*\<close> itself calls every wildcard handler twice (when none fails):
  the topic's subscribers and the wildcard subscribers are then the same list.
\<close>

theorem bus_star_published_twice:
  "bus_Publish_sync (noting (\<lambda>_. None)) ctx ''*'' d now b w =
     (if bus_closed b then (Some ErrBusClosed, w)
      else (None, w @ map sub_handler (subs_of b ''*'') @ map sub_handler (subs_of b ''*'')))"
proof -
  have "called (\<lambda>_. None) hs = hs" "first_failure (\<lambda>_. None) hs = None" for hs
    by (induction hs) (auto simp: called_def first_failure_def)
  then show ?thesis
    by (simp add: bus_Publish_sync_def bus_snapshot_def Let_def deliver_noting)
qed

text \<open>
  Unsubscribing undoes subscribing: after a subscription and its \<open>Unsubscribe\<close> every topic
  has the subscribers it had before, in the same order.
\<close>

theorem bus_subscribe_unsubscribe:
  assumes "bus_ok b" and "bus_Subscribe topic h b = Inr (sub, b')"
  shows "subs_of (bus_unsubscribe sub b') t = subs_of b t"
proof -
  have "\<forall>x\<in>set (subs_of b topic). sub_id x \<noteq> sub_id sub"
    using assms(1) bus_SubscribeD(2) [OF assms(2)] by (fastforce simp: bus_ok_def)
  then have "remove_first (\<lambda>x. sub_id x = sub_id sub) (subs_of b topic @ [sub]) = subs_of b topic"
    by (simp add: remove_first_snoc)
  then show ?thesis
    using bus_SubscribeD(2) [OF assms(2)] by (simp add: bus_SubscribeD(3) [OF assms(2)])
qed

theorem bus_subscribe_unsubscribe_witness:
  "\<exists>sub b'. bus_Subscribe ''t'' 7 (NewBus 4 [] :: unit bus) = Inr (sub, b') \<and>
     subs_of (bus_unsubscribe sub b') ''t'' = []"
proof -
  obtain sub b' where "bus_Subscribe ''t'' 7 (NewBus 4 [] :: unit bus) = Inr (sub, b')"
    by (simp add: bus_Subscribe_def NewBus_def Let_def)
  then show ?thesis
    using bus_subscribe_unsubscribe [OF bus_ok_NewBus, of "''t''" 7 4 "[]" sub b' "''t''"] by auto
qed

lemma bus_init_invs:
  "queue_inv (bus_opts (NewBus procs os)) (chan_cap (bus_jobs (NewBus procs os :: 'd bus)))
     (bus_sys_init (NewBus procs os :: 'd bus))"
  "worker_inv (bus_opts (NewBus procs os)) (bus_sys_init (NewBus procs os :: 'd bus))"
  "subs_inv (bus_sys_init (NewBus procs os :: 'd bus))"
  "closing_inv (bus_sys_init (NewBus procs os :: 'd bus))"
  by (simp_all add: queue_inv_def worker_inv_def subs_inv_def closing_inv_def bus_sys_init_def)
    (simp_all add: NewBus_def Let_def)

lemma bus_reach_invs:
  assumes "bus_step\<^sup>*\<^sup>* (bus_sys_init (NewBus procs os)) s"
  shows "queue_inv (bus_opts (NewBus procs os)) (chan_cap (bus_jobs (NewBus procs os :: 'd bus))) (s :: 'd bus_sys) \<and>
     worker_inv (bus_opts (NewBus procs os)) s \<and> subs_inv s \<and> closing_inv s"
  using assms
  by (induction rule: rtranclp_induct)
    (auto intro: bus_init_invs queue_inv_step worker_inv_step subs_inv_step closing_inv_step)

text \<open>
  C7: In every reachable state of an asynchronous bus, whatever publishers, subscribers,
  workers and \<open>Close\<close> do: the jobs the queue accepted are those handed to handlers followed by
  those still queued, in order; the queue and the number of workers stay within the configured
  bounds; and every accepted job belongs to a handler that subscribed to the event's topic or to
  \<open>*\<close>.
\<close>

theorem bus_async_invariant:
  assumes "bus_step\<^sup>*\<^sup>* (bus_sys_init (NewBus procs os)) (s :: 'd bus_sys)"
  shows "bs_accepted s = bs_handled s @ chan_buf (bus_jobs (bs_bus s)) \<and>
     length (chan_buf (bus_jobs (bs_bus s))) \<le> nat (bo_BufferSize (bus_opts (NewBus procs os :: 'd bus))) \<and>
     bs_idle s + length (bs_busy s) \<le> nat (bo_WorkerCount (bus_opts (NewBus procs os :: 'd bus))) \<and>
     (\<forall>j\<in>set (bs_accepted s). \<exists>x\<in>bs_subs s. sub_handler x = job_handler j \<and> for_topic (job_event j) x)"
proof -
  have "chan_cap (bus_jobs (NewBus procs os :: 'd bus)) \<le> nat (bo_BufferSize (bus_opts (NewBus procs os :: 'd bus)))"
    by (simp add: NewBus_def Let_def)
  with bus_reach_invs [OF assms] show ?thesis
    by (auto simp: queue_inv_def worker_inv_def subs_inv_def chan_ok_def split: if_splits)
qed

definition demo_bus :: "unit bus" where
  "demo_bus = NewBus 1 [BusWithBufferSize 1]"

definition demo_sub :: subscription where
  "demo_sub = \<lparr>sub_topic = ''t'', sub_handler = 7, sub_id = 1\<rparr>"

definition demo_event :: "unit bus_event" where
  "demo_event = NewEvent 5 ''t'' ()"

definition demo_job :: "unit bus_job" where
  "demo_job = \<lparr>job_ctx = 0, job_handler = 7, job_event = demo_event\<rparr>"

text \<open>The bus after one subscription, and the state where its publisher is about to enqueue.\<close>

definition demo_bus1 :: "unit bus" where
  "demo_bus1 = demo_bus\<lparr>bus_nextID := 1, bus_subscribers := (\<lambda>_. None)(''t'' \<mapsto> [demo_sub])\<rparr>"

definition demo_sys1 :: "unit bus_sys" where
  "demo_sys1 = (bus_sys_init demo_bus1)\<lparr>bs_subs := {demo_sub},
     bs_pubs := (\<lambda>_. None)(0 \<mapsto> (0, [demo_sub], demo_event))\<rparr>"

lemma demo_bus_eq:
  "demo_bus = \<lparr>bus_opts = \<lparr>bo_BufferSize = 1, bo_Async = True, bo_WorkerCount = 1\<rparr>,
     bus_subscribers = (\<lambda>_. None), bus_closed = False, bus_nextID = 0,
     bus_jobs = \<lparr>chan_cap = 1, chan_buf = []\<rparr>, bus_done = False, bus_started = False\<rparr>"
  by (simp add: demo_bus_def NewBus_def bus_DefaultOptions_def bus_normalise_def chan_make_def)

lemma demo_sys1_reachable: "bus_step\<^sup>*\<^sup>* (bus_sys_init demo_bus) demo_sys1"
proof -
  let ?s = "(bus_sys_init demo_bus1)\<lparr>bs_subs := {demo_sub}\<rparr>"
  have 1: "bus_step (bus_sys_init demo_bus) ?s"
  proof -
    have "bus_Subscribe ''t'' 7 (bs_bus (bus_sys_init demo_bus)) = Inr (demo_sub, demo_bus1)"
      by (simp add: bus_sys_init_def bus_Subscribe_def demo_bus_eq demo_bus1_def demo_sub_def subs_of_def
          Let_def)
    from bus_subscribe [OF this] show ?thesis by (simp add: bus_sys_init_def)
  qed
  have 2: "bus_step ?s demo_sys1"
    using bus_publish [of ?s 0 "''t''" "[demo_sub]" "[]" 0 5 "()"]
    by (simp add: bus_sys_init_def bus_snapshot_def demo_bus_eq demo_bus1_def subs_of_def
        demo_sys1_def demo_event_def)
  from 1 2 show ?thesis by simp
qed

theorem bus_async_invariant_witness:
  "length (chan_buf (bus_jobs (bs_bus demo_sys1))) \<le> 1 \<and> bs_idle demo_sys1 + length (bs_busy demo_sys1) \<le> 1"
  using bus_async_invariant [OF demo_sys1_reachable [unfolded demo_bus_def]]
  by (simp add: demo_bus_eq [unfolded demo_bus_def])


lemma demo_close: "bus_Close_begin demo_bus1 = Some (demo_bus1\<lparr>bus_closed := True,
    bus_subscribers := (\<lambda>_. None), bus_done := True\<rparr>)"
  by (simp add: bus_Close_begin_def demo_bus1_def demo_bus_eq)

text \<open>The state where \<open>Close\<close> has returned while the publisher of \<open>demo_sys1\<close> is in flight.\<close>

definition demo_sys2 :: "unit bus_sys" where
  "demo_sys2 = demo_sys1\<lparr>bs_bus := demo_bus1\<lparr>bus_closed := True, bus_subscribers := (\<lambda>_. None),
     bus_done := True\<rparr>, bs_close := CloseReturned\<rparr>"

lemma demo_sys2_reachable: "bus_step\<^sup>*\<^sup>* demo_sys1 demo_sys2"
proof -
  let ?s = "demo_sys2\<lparr>bs_close := CloseWaiting\<rparr>"
  have 1: "bus_step demo_sys1 ?s"
    using bus_close [of demo_sys1] demo_close by (simp add: demo_sys1_def demo_sys2_def bus_sys_init_def)
  have 2: "bus_step ?s demo_sys2"
    using bus_close_return [of ?s] by (simp add: demo_sys1_def demo_sys2_def bus_sys_init_def)
  from 1 2 show ?thesis by simp
qed

text \<open>The publisher of \<open>demo_sys2\<close> may still be accepted, and its job run.\<close>

lemma demo_sys2_runs_handler:
  "\<exists>s. bus_step\<^sup>*\<^sup>* demo_sys2 s \<and> bs_handled s = [demo_job] \<and> bs_close s = CloseReturned"
proof -
  let ?b = "bs_bus demo_sys2"
  let ?s1 = "demo_sys2\<lparr>bs_bus := ?b\<lparr>bus_started := True\<rparr>, bs_idle := 1\<rparr>"
  let ?s2 = "?s1\<lparr>bs_bus := ?b\<lparr>bus_started := True, bus_jobs := \<lparr>chan_cap = 1, chan_buf = [demo_job]\<rparr>\<rparr>,
      bs_pubs := (\<lambda>_. None)(0 \<mapsto> (0, [], demo_event)), bs_accepted := [demo_job]\<rparr>"
  let ?s3 = "?s2\<lparr>bs_bus := ?b\<lparr>bus_started := True\<rparr>, bs_idle := 0, bs_busy := [demo_job], bs_handled := [demo_job]\<rparr>"
  note defs = demo_sys2_def demo_sys1_def bus_sys_init_def demo_bus1_def demo_bus_eq
  have 1: "bus_step demo_sys2 ?s1"
    using bus_start [of demo_sys2 0 0 demo_sub "[]" demo_event "?b\<lparr>bus_started := True\<rparr>" 1]
    by (simp add: defs bus_startWorkers_eq)
  have 2: "bus_step ?s1 ?s2"
    using bus_accept [of ?s1 0 0 demo_sub "[]" demo_event "bs_bus ?s2"]
    by (simp add: defs bus_enqueue_None demo_job_def demo_sub_def)
  have 3: "bus_step ?s2 ?s3"
    using bus_worker_take [of ?s2 demo_job "\<lparr>chan_cap = 1, chan_buf = []\<rparr>"]
    by (simp add: defs chan_recv_Some)
  have "bus_step\<^sup>*\<^sup>* demo_sys2 ?s3"
    by (intro step_then [where r = bus_step, OF 1] step_then [where r = bus_step, OF 2]
        step_then [where r = bus_step, OF 3] rtranclp.rtrancl_refl)
  then show ?thesis
    by (intro exI [of _ ?s3]) (simp add: demo_sys2_def)
qed





text \<open>
  A handler can start after \<open>Close\<close> has returned: a publisher that passed the closed check
  before \<open>Close\<close> starts the workers afterwards, and both the queue and the closed \<open>done\<close> are
  ready, for its send and for the worker's receive.
\<close>

theorem bus_handler_can_start_after_close:
  "\<exists>s1 s2. bus_step\<^sup>*\<^sup>* (bus_sys_init demo_bus) s1 \<and> bs_close s1 = CloseReturned \<and> bs_handled s1 = [] \<and>
     bus_step\<^sup>*\<^sup>* s1 s2 \<and> bs_handled s2 = [demo_job]"
proof -
  obtain s2 where "bus_step\<^sup>*\<^sup>* demo_sys2 s2" "bs_handled s2 = [demo_job]"
    using demo_sys2_runs_handler by blast
  moreover have "bs_close demo_sys2 = CloseReturned" "bs_handled demo_sys2 = []"
    by (simp_all add: demo_sys2_def demo_sys1_def bus_sys_init_def)
  ultimately show ?thesis
    using demo_sys1_reachable demo_sys2_reachable by (meson rtranclp_trans)
qed

text \<open>
  An event whose \<open>Publish\<close> returned nil can be lost: \<open>Close\<close> does not drain the queue, so a
  state is reachable in which the job was accepted, \<open>Close\<close> has returned, and in no continuation
  is the job ever handed to its handler.
\<close>

theorem bus_close_drops_accepted:
  "\<exists>s. bus_step\<^sup>*\<^sup>* (bus_sys_init demo_bus) s \<and> bs_accepted s = [demo_job] \<and> bs_close s = CloseReturned \<and>
     (\<nexists>s'. bus_step\<^sup>*\<^sup>* s s' \<and> demo_job \<in> set (bs_handled s'))"
proof -
  note defs = demo_sys1_def bus_sys_init_def demo_bus1_def demo_bus_eq
  let ?b1 = "demo_bus1\<lparr>bus_started := True\<rparr>"
  let ?b2 = "?b1\<lparr>bus_jobs := \<lparr>chan_cap = 1, chan_buf = [demo_job]\<rparr>\<rparr>"
  let ?b4 = "?b2\<lparr>bus_closed := True, bus_subscribers := (\<lambda>_. None), bus_done := True\<rparr>"
  let ?s1 = "demo_sys1\<lparr>bs_bus := ?b1, bs_idle := 1\<rparr>"
  let ?s2 = "?s1\<lparr>bs_bus := ?b2, bs_pubs := (\<lambda>_. None)(0 \<mapsto> (0, [], demo_event)), bs_accepted := [demo_job]\<rparr>"
  let ?s3 = "?s2\<lparr>bs_pubs := (\<lambda>_. None)\<rparr>"
  let ?s4 = "?s3\<lparr>bs_bus := ?b4, bs_close := CloseWaiting\<rparr>"
  let ?s5 = "?s4\<lparr>bs_idle := 0\<rparr>"
  let ?s6 = "?s5\<lparr>bs_close := CloseReturned\<rparr>"
  have 1: "bus_step demo_sys1 ?s1"
    using bus_start [of demo_sys1 0 0 demo_sub "[]" demo_event ?b1 1]
    by (simp add: defs bus_startWorkers_eq)
  have 2: "bus_step ?s1 ?s2"
    using bus_accept [of ?s1 0 0 demo_sub "[]" demo_event ?b2]
    by (simp add: defs bus_enqueue_None demo_job_def demo_sub_def)
  have 3: "bus_step ?s2 ?s3"
    using bus_publish_end [of ?s2 0 0 demo_event] by simp
  have 4: "bus_step ?s3 ?s4"
    using bus_close [of ?s3 ?b4] by (simp add: defs bus_Close_begin_def)
  have 5: "bus_step ?s4 ?s5" using bus_worker_exit [of ?s4] by simp
  have 6: "bus_step ?s5 ?s6" using bus_close_return [of ?s5] by (simp add: defs)
  have "bus_step\<^sup>*\<^sup>* demo_sys1 ?s6"
    by (intro step_then [where r = bus_step, OF 1] step_then [where r = bus_step, OF 2]
        step_then [where r = bus_step, OF 3] step_then [where r = bus_step, OF 4]
        step_then [where r = bus_step, OF 5] step_then [where r = bus_step, OF 6] rtranclp.rtrancl_refl)
  then have reach: "bus_step\<^sup>*\<^sup>* (bus_sys_init demo_bus) ?s6"
    using demo_sys1_reachable by (rule rtranclp_trans [rotated])
  have "quiet ?s6" by (simp add: quiet_def defs)
  then have "bs_handled s' = []" if "bus_step\<^sup>*\<^sup>* ?s6 s'" for s'
    using quiet_steps [OF that] by (simp add: defs)
  then have "\<nexists>s'. bus_step\<^sup>*\<^sup>* ?s6 s' \<and> demo_job \<in> set (bs_handled s')" by force
  with reach show ?thesis by (intro exI [of _ ?s6]) simp
qed

end
