(* ===== verification/RegistryTypes.thy ===== *)
theory RegistryTypes
  imports GoStrings
begin

text \<open>
  The types every registry backend shares (\<open>registry/registry.go\<close>, \<open>registry/options.go\<close>,
  \<open>registry/watcher.go\<close>, \<open>registry/util.go\<close>), the local cache of services that all four
  backends keep with the same loops, and the contract of a registry as a locale.

  A \<open>*Service\<close> is modelled by its value: an operation that writes through the pointer returns
  the written service.  Contexts and callbacks are identified by numbers.
\<close>

section \<open>Services and events\<close>

record endpoint =
  ep_name :: string
  ep_metadata :: "(string \<times> string) list"

record service =
  svc_name :: string
  svc_version :: string
  svc_id :: string
  svc_address :: string
  svc_metadata :: "(string \<times> string) list"
  svc_endpoints :: "endpoint list"
  svc_ttl :: duration
  svc_last_seen :: time
  svc_healthy :: bool

definition ServiceKey :: "service \<Rightarrow> string" where
  "ServiceKey s = svc_name s @ ''/'' @ svc_id s"

text \<open>\<open>EventType\<close> is an \<open>int\<close>: the last constructor stands for every value without a name.\<close>

datatype event_type = Create | Delete | Update | UnnamedType int

fun event_type_String :: "event_type \<Rightarrow> string" where
  "event_type_String Create = ''create''"
| "event_type_String Delete = ''delete''"
| "event_type_String Update = ''update''"
| "event_type_String (UnnamedType i) = ''unknown''"

record event =
  ev_type :: event_type
  ev_service :: service
  ev_timestamp :: time

abbreviation ErrNotFound :: go_error where "ErrNotFound \<equiv> Err ''service not found''"
abbreviation ErrWatcherStopped :: go_error where "ErrWatcherStopped \<equiv> Err ''watcher stopped''"
abbreviation ErrNotConnected :: go_error where "ErrNotConnected \<equiv> Err ''not connected to registry''"

datatype backend = MemoryBackend | NacosBackend | ConsulBackend | EtcdBackend

definition NewRegistry :: "string \<Rightarrow> backend" where
  "NewRegistry regType =
     (if regType = ''nacos'' then NacosBackend
      else if regType = ''consul'' then ConsulBackend
      else if regType = ''etcd'' then EtcdBackend
      else MemoryBackend)"

section \<open>Options\<close>

record watch_options =
  wo_service :: string
  wo_on_event :: "nat option"

definition WatchService :: "string \<Rightarrow> nat option \<Rightarrow> watch_options \<Rightarrow> watch_options" where
  "WatchService name cb o' = o'\<lparr>wo_service := name, wo_on_event := cb\<rparr>"

record reg_options =
  ro_context :: nat
  ro_addresses :: "string list"
  ro_namespace :: string
  ro_group :: string
  ro_username :: string
  ro_password :: string
  ro_ttl :: duration
  ro_interval :: duration
  ro_timeout :: duration
  ro_secure :: bool
  ro_tls_cert :: string
  ro_tls_key :: string
  ro_tls_cacert :: string
  ro_watcher_option :: watch_options

text \<open>Context \<open>0\<close> is \<open>context.Background()\<close>.\<close>

definition reg_DefaultOptions :: reg_options where
  "reg_DefaultOptions =
     \<lparr>ro_context = 0, ro_addresses = [''127.0.0.1:8848''], ro_namespace = ''public'',
      ro_group = ''DEFAULT_GROUP'', ro_username = [], ro_password = [],
      ro_ttl = 30 * second, ro_interval = 10 * second, ro_timeout = 5 * second,
      ro_secure = False, ro_tls_cert = [], ro_tls_key = [], ro_tls_cacert = [],
      ro_watcher_option = \<lparr>wo_service = [], wo_on_event = None\<rparr>\<rparr>"

datatype reg_option =
    RegWithContext nat
  | RegWithAddresses "string list"
  | RegWithNamespace string
  | RegWithGroup string
  | RegWithAuth string string
  | RegWithTTL duration
  | RegWithInterval duration
  | RegWithTimeout duration
  | RegWithSecure bool
  | RegWithTLS string string string
  | RegWithWatcherOption watch_options

fun apply_reg_option :: "reg_option \<Rightarrow> reg_options \<Rightarrow> reg_options" where
  "apply_reg_option (RegWithContext c) o' = o'\<lparr>ro_context := c\<rparr>"
| "apply_reg_option (RegWithAddresses as) o' = o'\<lparr>ro_addresses := as\<rparr>"
| "apply_reg_option (RegWithNamespace ns) o' = o'\<lparr>ro_namespace := ns\<rparr>"
| "apply_reg_option (RegWithGroup g) o' = o'\<lparr>ro_group := g\<rparr>"
| "apply_reg_option (RegWithAuth u p) o' = o'\<lparr>ro_username := u, ro_password := p\<rparr>"
| "apply_reg_option (RegWithTTL d) o' = o'\<lparr>ro_ttl := d\<rparr>"
| "apply_reg_option (RegWithInterval d) o' = o'\<lparr>ro_interval := d\<rparr>"
| "apply_reg_option (RegWithTimeout d) o' = o'\<lparr>ro_timeout := d\<rparr>"
| "apply_reg_option (RegWithSecure b) o' = o'\<lparr>ro_secure := b\<rparr>"
| "apply_reg_option (RegWithTLS c k ca) o' =
     o'\<lparr>ro_tls_cert := c, ro_tls_key := k, ro_tls_cacert := ca, ro_secure := True\<rparr>"
| "apply_reg_option (RegWithWatcherOption w) o' = o'\<lparr>ro_watcher_option := w\<rparr>"

definition reg_apply_all :: "reg_option list \<Rightarrow> reg_options \<Rightarrow> reg_options" where
  "reg_apply_all os o' = fold apply_reg_option os o'"

section \<open>Addresses\<close>

text \<open>
  \<open>parts[1]\<close> exists: \<open>strings.Split\<close> never returns an empty slice, and one of length 1 has
  returned already.
\<close>

definition parseAddr :: "string \<Rightarrow> int \<Rightarrow> string \<times> int" where
  "parseAddr addr defaultPort =
     (let parts = split_on CHR '':'' addr
      in if length parts = 1 then (parts ! 0, defaultPort)
         else (case atoi (parts ! 1) of
             Inl err \<Rightarrow> (parts ! 0, defaultPort)
           | Inr port \<Rightarrow> (parts ! 0, port)))"

lemma parseAddr_no_port: "CHR '':'' \<notin> set host \<Longrightarrow> parseAddr host d = (host, d)"
  by (simp add: parseAddr_def)

lemma colon_not_digit: "CHR '':'' \<notin> set (itoa i)"
  by (rule itoa_digits_no) (simp_all add: digit_chars_def)

lemma parseAddr_host_port:
  "CHR '':'' \<notin> set host \<Longrightarrow> in_int64 p \<Longrightarrow> parseAddr (host @ '':'' @ itoa p) d = (host, p)"
  using colon_not_digit [of p] by (simp add: parseAddr_def split_on_append atoi_itoa)

section \<open>The local cache of services\<close>

text \<open>
  \<open>services map[string][]*Service\<close>.  A missing key reads as the empty slice.  The loops below
  are those of \<open>Register\<close> and \<open>Deregister\<close>, the same in the four backends.
\<close>

type_synonym cache = "string \<Rightarrow> service list option"

definition cached :: "cache \<Rightarrow> string \<Rightarrow> service list" where
  "cached c name = (case c name of Some l \<Rightarrow> l | None \<Rightarrow> [])"

definition cache_has :: "cache \<Rightarrow> service \<Rightarrow> bool" where
  "cache_has c s \<longleftrightarrow> (\<exists>svc\<in>set (cached c (svc_name s)). svc_id svc = svc_id s)"

definition cache_put :: "service \<Rightarrow> cache \<Rightarrow> cache" where
  "cache_put s c =
     c(svc_name s \<mapsto> upsert (\<lambda>svc. svc_id svc = svc_id s) s (cached c (svc_name s)))"

definition cache_remove :: "service \<Rightarrow> cache \<Rightarrow> cache" where
  "cache_remove s c =
     (if cache_has c s
      then c(svc_name s \<mapsto> remove_first (\<lambda>svc. svc_id svc = svc_id s) (cached c (svc_name s)))
      else c)"

text \<open>The abstract content of a cache: at most one service per name and identifier.\<close>

definition cache_lookup :: "cache \<Rightarrow> string \<Rightarrow> string \<Rightarrow> service option" where
  "cache_lookup c name i = find_key svc_id i (cached c name)"

definition cache_ok :: "cache \<Rightarrow> bool" where
  "cache_ok c \<longleftrightarrow>
     (\<forall>name. distinct (map svc_id (cached c name)) \<and> (\<forall>s\<in>set (cached c name). svc_name s = name))"

lemma cached_upd [simp]: "cached (c(n \<mapsto> l)) m = (if m = n then l else cached c m)"
  by (simp add: cached_def)

lemma cached_empty [simp]: "cached (\<lambda>_. None) n = []"
  by (simp add: cached_def)

lemma cache_lookup_empty [simp]: "cache_lookup (\<lambda>_. None) n i = None"
  by (simp add: cache_lookup_def find_key_def)

lemma cache_ok_empty [simp]: "cache_ok (\<lambda>_. None)"
  by (simp add: cache_ok_def)

lemma cache_ok_put [inv_intros]: "cache_ok c \<Longrightarrow> cache_ok (cache_put s c)"
  using set_upsert by (fastforce simp: cache_ok_def cache_put_def intro: distinct_upsert)

lemma cache_ok_remove [inv_intros]: "cache_ok c \<Longrightarrow> cache_ok (cache_remove s c)"
  using remove_first_subset by (fastforce simp: cache_ok_def cache_remove_def intro: distinct_remove_first)

lemma cache_has_lookup: "cache_has c s \<longleftrightarrow> cache_lookup c (svc_name s) (svc_id s) \<noteq> None"
  by (auto simp: cache_has_def cache_lookup_def find_key_None image_key)

lemma cache_lookup_put:
  "cache_lookup (cache_put s c) n i =
     (if n = svc_name s \<and> i = svc_id s then Some s else cache_lookup c n i)"
  by (simp add: cache_lookup_def cache_put_def find_key_upsert)

lemma in_cached_put: "s \<in> set (cached (cache_put s c) (svc_name s))"
proof -
  have "find_key svc_id (svc_id s) (cached (cache_put s c) (svc_name s)) = Some s"
    using cache_lookup_put [of s c "svc_name s" "svc_id s"] by (simp add: cache_lookup_def)
  then show ?thesis unfolding find_key_def find_Some_iff by (metis nth_mem)
qed

lemma cache_lookup_remove:
  assumes "cache_ok c"
  shows "cache_lookup (cache_remove s c) n i =
     (if n = svc_name s \<and> i = svc_id s then None else cache_lookup c n i)"
proof (cases "cache_has c s")
  case True
  from assms have "distinct (map svc_id (cached c (svc_name s)))" by (simp add: cache_ok_def)
  with True show ?thesis by (simp add: cache_lookup_def cache_remove_def find_key_remove_first)
next
  case False
  then show ?thesis by (auto simp: cache_remove_def cache_has_lookup)
qed

lemma cache_lookup_name: "cache_ok c \<Longrightarrow> cache_lookup c n i = Some s \<Longrightarrow> svc_name s = n \<and> svc_id s = i"
  by (auto simp: cache_lookup_def cache_ok_def dest: find_key_SomeD)

lemma cache_lookup_in:
  "cache_ok c \<Longrightarrow> s \<in> set (cached c n) \<longleftrightarrow> cache_lookup c n (svc_id s) = Some s"
  by (auto simp: cache_lookup_def cache_ok_def find_key_in dest: find_key_SomeD)

section \<open>The contract of a registry\<close>

text \<open>
  What the application relies on: a registration is found again under the service's name and
  identifier, a deregistration removes it, and neither touches another key.  \<open>stamp\<close> is what a
  registration at a time stores.  Inside the locale: what a sequence of operations leaves behind
  for a key is decided by the last operation on that key.
\<close>

datatype reg_op = Reg time service | Dereg service

fun op_key :: "reg_op \<Rightarrow> string \<times> string" where
  "op_key (Reg t s) = (svc_name s, svc_id s)"
| "op_key (Dereg s) = (svc_name s, svc_id s)"

locale registry_contract =
  fixes register :: "time \<Rightarrow> service \<Rightarrow> 'r \<Rightarrow> 'r"
    and deregister :: "service \<Rightarrow> 'r \<Rightarrow> 'r"
    and lookup :: "'r \<Rightarrow> string \<Rightarrow> string \<Rightarrow> service option"
    and stamp :: "time \<Rightarrow> service \<Rightarrow> service"
    and ok :: "'r \<Rightarrow> bool"
  assumes ok_register: "ok r \<Longrightarrow> ok (register t s r)"
    and ok_deregister: "ok r \<Longrightarrow> ok (deregister s r)"
    and lookup_register: "ok r \<Longrightarrow> lookup (register t s r) n i =
          (if n = svc_name s \<and> i = svc_id s then Some (stamp t s) else lookup r n i)"
    and lookup_deregister: "ok r \<Longrightarrow> lookup (deregister s r) n i =
          (if n = svc_name s \<and> i = svc_id s then None else lookup r n i)"
begin

fun op_apply :: "reg_op \<Rightarrow> 'r \<Rightarrow> 'r" where
  "op_apply (Reg t s) r = register t s r"
| "op_apply (Dereg s) r = deregister s r"

fun op_result :: "reg_op \<Rightarrow> service option" where
  "op_result (Reg t s) = Some (stamp t s)"
| "op_result (Dereg s) = None"

lemma ok_op: "ok r \<Longrightarrow> ok (op_apply a r)"
  by (cases a) (auto intro: ok_register ok_deregister)

lemma ok_ops: "ok r \<Longrightarrow> ok (fold op_apply as r)"
  by (induction as arbitrary: r) (auto intro: ok_op)

lemma lookup_op:
  "ok r \<Longrightarrow> lookup (op_apply a r) n i = (if (n, i) = op_key a then op_result a else lookup r n i)"
  by (cases a) (auto simp: lookup_register lookup_deregister)

lemma lookup_untouched:
  "ok r \<Longrightarrow> (n, i) \<notin> op_key ` set as \<Longrightarrow> lookup (fold op_apply as r) n i = lookup r n i"
  by (induction as arbitrary: r) (auto simp: lookup_op ok_op)

text \<open>The last operation on a key decides.\<close>

lemma lookup_last:
  assumes "ok r" and "(n, i) \<notin> op_key ` set bs" and "(n, i) = op_key a"
  shows "lookup (fold op_apply (as @ a # bs) r) n i = op_result a"
  using assms by (simp add: lookup_untouched ok_op ok_ops lookup_op)

lemma register_deregister:
  "ok r \<Longrightarrow> lookup r (svc_name s) (svc_id s) = None \<Longrightarrow>
     lookup (deregister s (register t s r)) = lookup r"
  by (intro ext) (auto simp: lookup_deregister lookup_register ok_register)

lemma register_commute:
  "ok r \<Longrightarrow> op_key (Reg t s) \<noteq> op_key (Reg t' s') \<Longrightarrow>
     lookup (register t s (register t' s' r)) = lookup (register t' s' (register t s r))"
  by (intro ext) (auto simp: lookup_register ok_register)

end

text \<open>The bare cache provides the contract; the backends build on it.\<close>

definition stamped :: "time \<Rightarrow> service \<Rightarrow> service" where
  "stamped t s = s\<lparr>svc_last_seen := t, svc_healthy := True\<rparr>"

lemma stamped_simps [simp]:
  "svc_name (stamped t s) = svc_name s" "svc_id (stamped t s) = svc_id s"
  "svc_healthy (stamped t s)" "svc_last_seen (stamped t s) = t" "svc_ttl (stamped t s) = svc_ttl s"
  by (simp_all add: stamped_def)

interpretation cache_reg: registry_contract
  "\<lambda>t s. cache_put (stamped t s)" cache_remove cache_lookup stamped cache_ok
  by unfold_locales (simp_all add: inv_intros cache_lookup_put cache_lookup_remove)

text \<open>What an operation leaves under its key.\<close>

definition stored_by :: "reg_op \<Rightarrow> service option" where
  "stored_by a = (case a of Reg t s \<Rightarrow> Some (stamped t s) | Dereg s \<Rightarrow> None)"

text \<open>
  A backend whose operations act on its cache as on a bare one, while it is \<open>ready\<close>: whatever else its
  state holds, the cache follows the contract.
\<close>

locale cached_backend =
  fixes apply_op :: "reg_op \<Rightarrow> 'r \<Rightarrow> 'r"
    and cache_of :: "'r \<Rightarrow> cache"
    and ready :: "'r \<Rightarrow> bool"
  assumes ready_apply: "ready r \<Longrightarrow> ready (apply_op a r)"
    and cache_apply: "ready r \<Longrightarrow> cache_of (apply_op a r) = cache_reg.op_apply a (cache_of r)"
begin

lemma ready_fold: "ready r \<Longrightarrow> ready (fold apply_op as r)"
  by (induction as arbitrary: r) (simp_all add: ready_apply)

lemma cache_fold: "ready r \<Longrightarrow> cache_of (fold apply_op as r) = fold cache_reg.op_apply as (cache_of r)"
  by (induction as arbitrary: r) (simp_all add: ready_apply cache_apply)

lemma cache_ok_fold: "ready r \<Longrightarrow> cache_ok (cache_of r) \<Longrightarrow> cache_ok (cache_of (fold apply_op as r))"
  by (simp add: cache_fold cache_reg.ok_ops)

end

text \<open>Such a backend is a registry.\<close>

sublocale cached_backend \<subseteq> contract: registry_contract
  "\<lambda>t s. apply_op (Reg t s)" "\<lambda>s. apply_op (Dereg s)" "\<lambda>r. cache_lookup (cache_of r)" stamped
  "\<lambda>r. ready r \<and> cache_ok (cache_of r)"
  by unfold_locales (simp_all add: ready_apply cache_apply inv_intros cache_lookup_put cache_lookup_remove)

context cached_backend
begin

lemma contract_apply: "contract.op_apply = apply_op"
proof (intro ext)
  show "contract.op_apply a r = apply_op a r" for a r by (cases a) simp_all
qed

lemma contract_result: "contract.op_result a = stored_by a"
  by (cases a) (simp_all add: stored_by_def)

lemma lookup_last:
  "ready r \<Longrightarrow> cache_ok (cache_of r) \<Longrightarrow> (n, i) = op_key a \<Longrightarrow> (n, i) \<notin> op_key ` set bs \<Longrightarrow>
     cache_lookup (cache_of (fold apply_op (as @ a # bs) r)) n i = stored_by a"
  using contract.lookup_last [of r n i bs a as] by (simp add: contract_apply contract_result)

end

definition demo_service :: "string \<Rightarrow> string \<Rightarrow> duration \<Rightarrow> service" where
  "demo_service name i ttl =
     \<lparr>svc_name = name, svc_version = ''1'', svc_id = i, svc_address = ''10.0.0.1:80'',
      svc_metadata = [], svc_endpoints = [], svc_ttl = ttl, svc_last_seen = 0, svc_healthy = False\<rparr>"

end
