(* ===== verification/App.thy ===== *)
theory App
  imports GrpcServer HttpServer EventBus RegistryTypes
begin

text \<open>
  The application (\<open>grodyia.go\<close>, \<open>options.go\<close>).  Transports and the registry are interfaces: records
  of operations on a world \<open>'w\<close> that holds the objects behind them; the event bus is the one of
  \<open>EventBus\<close>.  Hooks are user code that may change everything.  The contract of transports is the
  locale \<open>transport_contract\<close>, interpreted on the gRPC and the HTTP servers.
\<close>

section \<open>Interfaces\<close>

record 'w transport =
  tr_ID :: string
  tr_Name :: string
  tr_Version :: string
  tr_Metadata :: "(string \<times> string) list"
  tr_Addr :: string
  tr_Start :: "'w \<Rightarrow> go_error option \<times> 'w"
  tr_Stop :: "'w \<Rightarrow> go_error option \<times> 'w"

record 'w registry_ops =
  rg_Connect :: "'w \<Rightarrow> go_error option \<times> 'w"
  rg_Close :: "'w \<Rightarrow> go_error option \<times> 'w"
  rg_Register :: "service \<Rightarrow> 'w \<Rightarrow> go_error option \<times> 'w"
  rg_Watch :: "'w \<Rightarrow> go_error option \<times> 'w"

section \<open>Options\<close>

text \<open>The codec of an application: the JSON codec, or one the user made, which the application only hands on.\<close>

datatype app_codec = NewJSONCodec | UserCodec nat

record 'w app_options =
  ao_ID :: string
  ao_Name :: string
  ao_Version :: string
  ao_Metadata :: "string \<Rightarrow> string option"
  ao_Registry :: "'w registry_ops option"
  ao_Codec :: "app_codec option"
  ao_LogPath :: string

definition app_DefaultOptions :: "string \<Rightarrow> 'w app_options" where
  "app_DefaultOptions uuid =
     \<lparr>ao_ID = take 8 uuid, ao_Name = ''grodyia-app'', ao_Version = ''1.0.0'', ao_Metadata = (\<lambda>_. None),
      ao_Registry = None, ao_Codec = None, ao_LogPath = []\<rparr>"

datatype 'w app_option =
    AppWithName string | AppWithID string | AppWithVersion string | AppWithMetadata "string \<Rightarrow> string option"
  | AppWithRegistry "'w registry_ops" | AppWithCodec app_codec | AppWithLogPath string

fun apply_app_option :: "'w app_option \<Rightarrow> 'w app_options \<Rightarrow> 'w app_options" where
  "apply_app_option (AppWithName n) oo = oo\<lparr>ao_Name := n\<rparr>"
| "apply_app_option (AppWithID i) oo = oo\<lparr>ao_ID := i\<rparr>"
| "apply_app_option (AppWithVersion v) oo = oo\<lparr>ao_Version := v\<rparr>"
| "apply_app_option (AppWithMetadata md) oo = oo\<lparr>ao_Metadata := ao_Metadata oo ++ md\<rparr>"
| "apply_app_option (AppWithRegistry r) oo = oo\<lparr>ao_Registry := Some r\<rparr>"
| "apply_app_option (AppWithCodec c) oo = oo\<lparr>ao_Codec := Some c\<rparr>"
| "apply_app_option (AppWithLogPath p) oo = oo\<lparr>ao_LogPath := p\<rparr>"

section \<open>The application\<close>

text \<open>The payload of the start event: name, identifier and version.\<close>

type_synonym app_event = "string \<times> string \<times> string"

text \<open>The metadata of the application itself, built from its options.\<close>

record service_info =
  si_Name :: string
  si_ID :: string
  si_Version :: string
  si_Metadata :: "string \<Rightarrow> string option"

text \<open>\<open>ap_config\<close> names the configuration object; of the context the model keeps whether it is cancelled.\<close>

record 'w app =
  ap_opts :: "'w app_options"
  ap_config :: "nat option"
  ap_registry :: "'w registry_ops option"
  ap_bus :: "app_event bus"
  ap_codec :: app_codec
  ap_transports :: "'w transport list"
  ap_serviceInfo :: service_info
  ap_cancelled :: bool
  ap_running :: bool
  ap_starting :: bool
  ap_world :: 'w

type_synonym 'w hook = "'w app \<Rightarrow> go_error option \<times> 'w app"

record 'w hooks =
  hk_beforeStart :: "'w hook list"
  hk_afterStart :: "'w hook list"
  hk_beforeStop :: "'w hook list"
  hk_afterStop :: "'w hook list"

definition app_New :: "int \<Rightarrow> string \<Rightarrow> 'w app_option list \<Rightarrow> 'w \<Rightarrow> 'w app" where
  "app_New procs uuid os w =
     (let options = fold apply_app_option os (app_DefaultOptions uuid)
      in \<lparr>ap_opts = options, ap_config = None, ap_registry = ao_Registry options,
          ap_bus = NewBus procs [BusWithAsync True],
          ap_codec = (case ao_Codec options of None \<Rightarrow> NewJSONCodec | Some c \<Rightarrow> c), ap_transports = [],
          ap_serviceInfo = \<lparr>si_Name = ao_Name options, si_ID = ao_ID options, si_Version = ao_Version options,
            si_Metadata = ao_Metadata options\<rparr>,
          ap_cancelled = False, ap_running = False, ap_starting = False, ap_world = w\<rparr>)"

definition app_SetConfig :: "nat \<Rightarrow> 'w app \<Rightarrow> 'w app" where
  "app_SetConfig cfg a = a\<lparr>ap_config := Some cfg\<rparr>"

definition app_SetCodec :: "app_codec \<Rightarrow> 'w app \<Rightarrow> 'w app" where
  "app_SetCodec c a = a\<lparr>ap_codec := c\<rparr>"

definition app_SetRegistry :: "'w registry_ops \<Rightarrow> 'w app \<Rightarrow> 'w app" where
  "app_SetRegistry reg a = a\<lparr>ap_registry := Some reg\<rparr>"

definition app_Bind :: "'w transport list \<Rightarrow> 'w app \<Rightarrow> 'w app" where
  "app_Bind ts a = a\<lparr>ap_transports := ap_transports a @ ts\<rparr>"

definition app_BeforeStart :: "'w hook \<Rightarrow> 'w hooks \<Rightarrow> 'w hooks" where
  "app_BeforeStart fn hk = hk\<lparr>hk_beforeStart := hk_beforeStart hk @ [fn]\<rparr>"

definition app_AfterStart :: "'w hook \<Rightarrow> 'w hooks \<Rightarrow> 'w hooks" where
  "app_AfterStart fn hk = hk\<lparr>hk_afterStart := hk_afterStart hk @ [fn]\<rparr>"

definition app_BeforeStop :: "'w hook \<Rightarrow> 'w hooks \<Rightarrow> 'w hooks" where
  "app_BeforeStop fn hk = hk\<lparr>hk_beforeStop := hk_beforeStop hk @ [fn]\<rparr>"

definition app_AfterStop :: "'w hook \<Rightarrow> 'w hooks \<Rightarrow> 'w hooks" where
  "app_AfterStop fn hk = hk\<lparr>hk_afterStop := hk_afterStop hk @ [fn]\<rparr>"

text \<open>An operation of an interface, run on the world of the application.\<close>

definition on_world :: "('w \<Rightarrow> 'a \<times> 'w) \<Rightarrow> 'w app \<Rightarrow> 'a \<times> 'w app" where
  "on_world f a = (let (x, w) = f (ap_world a) in (x, a\<lparr>ap_world := w\<rparr>))"

lemma on_world_eq: "on_world f a = (fst (f (ap_world a)), a\<lparr>ap_world := snd (f (ap_world a))\<rparr>)"
  by (simp add: on_world_def case_prod_unfold Let_def)

text \<open>
  \<open>Publish\<close> on the application's asynchronous bus, once it has returned: a closed bus refuses; else
  one job per subscriber is queued, and when the queue is full a worker first takes the oldest job.
\<close>

definition queue_job :: "'d bus_event \<Rightarrow> subscription \<Rightarrow> 'd bus \<Rightarrow> 'd bus" where
  "queue_job ev sub b =
     (let b1 = fst (bus_startWorkers b); ch = bus_jobs b1;
          buf = (if length (chan_buf ch) < chan_cap ch then chan_buf ch else tl (chan_buf ch))
      in b1\<lparr>bus_jobs := ch\<lparr>chan_buf := buf @ [\<lparr>job_ctx = 0, job_handler = sub_handler sub, job_event = ev\<rparr>]\<rparr>\<rparr>)"

definition app_Publish :: "time \<Rightarrow> string \<Rightarrow> app_event \<Rightarrow> 'w app \<Rightarrow> go_error option \<times> 'w app" where
  "app_Publish now topic d a =
     (case bus_snapshot topic (ap_bus a) of
        Inl err \<Rightarrow> (Some err, a)
      | Inr (subs, wild) \<Rightarrow>
          (None, a\<lparr>ap_bus := fold (queue_job (NewEvent now topic d)) (subs @ wild) (ap_bus a)\<rparr>))"

definition app_Subscribe :: "string \<Rightarrow> nat \<Rightarrow> 'w app \<Rightarrow> subscription result \<times> 'w app" where
  "app_Subscribe topic handler a =
     (case bus_Subscribe topic handler (ap_bus a) of
        Inl err \<Rightarrow> (Inl err, a)
      | Inr (sub, b) \<Rightarrow> (Inr sub, a\<lparr>ap_bus := b\<rparr>))"

section \<open>Starting\<close>

fun run_before_start :: "'w hook list \<Rightarrow> 'w app \<Rightarrow> go_error option \<times> 'w app" where
  "run_before_start [] a = (None, a)"
| "run_before_start (fn # fns) a =
     (case fn a of
        (Some err, a') \<Rightarrow> (Some (Wrap ''before start hook error'' err), a')
      | (None, a') \<Rightarrow> run_before_start fns a')"

text \<open>The hooks whose errors are only logged.\<close>

definition run_hooks :: "'w hook list \<Rightarrow> 'w app \<Rightarrow> 'w app" where
  "run_hooks fns a = fold (\<lambda>fn a. snd (fn a)) fns a"

definition service_of :: "'w transport \<Rightarrow> service" where
  "service_of t =
     \<lparr>svc_name = tr_Name t, svc_version = tr_Version t, svc_id = tr_ID t, svc_address = tr_Addr t,
      svc_metadata = tr_Metadata t, svc_endpoints = [], svc_ttl = 0, svc_last_seen = 0, svc_healthy = False\<rparr>"

text \<open>The loop over the transports: the transports started so far come back with the error that ended it.\<close>

fun start_transports :: "'w transport list \<Rightarrow> 'w transport list \<Rightarrow> 'w app \<Rightarrow> go_error option \<times> 'w transport list \<times> 'w app" where
  "start_transports [] started a = (None, started, a)"
| "start_transports (t # ts) started a =
     (case on_world (tr_Start t) a of
        (Some err, a1) \<Rightarrow> (Some (Wrap (''transport '' @ tr_Name t @ '' start error'') err), started, a1)
      | (None, a1) \<Rightarrow>
          start_transports ts (started @ [t])
            (case ap_registry a1 of
               None \<Rightarrow> a1
             | Some reg \<Rightarrow> snd (on_world (rg_Register reg (service_of t)) a1)))"

text \<open>Connecting the registry, whose failure is only logged, and starting its watcher.\<close>

definition connect_registry :: "'w app \<Rightarrow> bool \<times> 'w app" where
  "connect_registry a =
     (case ap_registry a of
        None \<Rightarrow> (False, a)
      | Some reg \<Rightarrow> (let (err, a') = on_world (rg_Connect reg) a in (err = None, a')))"

definition watch_registry :: "'w app \<Rightarrow> 'w app" where
  "watch_registry a = (case ap_registry a of None \<Rightarrow> a | Some reg \<Rightarrow> snd (on_world (rg_Watch reg) a))"

text \<open>
  The body of \<open>Start\<close> up to its return: the error, the transports it started, whether the registry was
  connected, and the application.  \<open>log_New\<close> is \<open>logger.New\<close>.
\<close>

definition app_start_body ::
    "'w hooks \<Rightarrow> (string \<Rightarrow> 'w \<Rightarrow> go_error option \<times> 'w) \<Rightarrow> time \<Rightarrow> 'w app \<Rightarrow>
     go_error option \<times> 'w transport list \<times> bool \<times> 'w app" where
  "app_start_body hk log_New now a =
     (case on_world (log_New (ao_LogPath (ap_opts a))) a of
        (Some err, a1) \<Rightarrow> (Some (Wrap ''logger init error'' err), [], False, a1)
      | (None, a1) \<Rightarrow>
        (case run_before_start (hk_beforeStart hk) a1 of
           (Some err, a2) \<Rightarrow> (Some err, [], False, a2)
         | (None, a2) \<Rightarrow>
             (let (connected, a3) = connect_registry a2
              in case start_transports (ap_transports a3) [] a3 of
                   (Some err, started, a4) \<Rightarrow> (Some err, started, connected, a4)
                 | (None, started, a4) \<Rightarrow>
                     (let a5 = watch_registry a4; oo = ap_opts a5
                      in case app_Publish now ''app.started'' (ao_Name oo, ao_ID oo, ao_Version oo) a5 of
                           (Some err, a6) \<Rightarrow> (Some (Wrap ''publish start event error'' err), started, connected, a6)
                         | (None, a6) \<Rightarrow> (None, started, connected, run_hooks (hk_afterStart hk) a6)))))"

text \<open>The deferred rollback: the started transports in reverse order, then the registry.\<close>

definition app_rollback :: "'w transport list \<Rightarrow> bool \<Rightarrow> 'w app \<Rightarrow> 'w app" where
  "app_rollback started connected a =
     (let a1 = fold (\<lambda>t a. snd (on_world (tr_Stop t) a)) (rev started) a
      in case ap_registry a1 of
           Some reg \<Rightarrow> if connected then snd (on_world (rg_Close reg) a1) else a1
         | None \<Rightarrow> a1)"

definition app_Start ::
    "'w hooks \<Rightarrow> (string \<Rightarrow> 'w \<Rightarrow> go_error option \<times> 'w) \<Rightarrow> time \<Rightarrow> 'w app \<Rightarrow> go_error option \<times> 'w app" where
  "app_Start hk log_New now a =
     (if ap_running a \<or> ap_starting a then (None, a)
      else (let (err, started, connected, a1) = app_start_body hk log_New now (a\<lparr>ap_starting := True\<rparr>);
                a2 = a1\<lparr>ap_starting := False, ap_running := (err = None)\<rparr>
            in (err, if err = None then a2 else app_rollback started connected a2)))"

section \<open>Stopping\<close>

text \<open>Every transport is stopped, and the last error is kept.\<close>

fun stop_transports :: "'w transport list \<Rightarrow> go_error option \<Rightarrow> 'w app \<Rightarrow> go_error option \<times> 'w app" where
  "stop_transports [] lastErr a = (lastErr, a)"
| "stop_transports (t # ts) lastErr a =
     (case on_world (tr_Stop t) a of
        (Some err, a1) \<Rightarrow> stop_transports ts (Some err) a1
      | (None, a1) \<Rightarrow> stop_transports ts lastErr a1)"

definition close_bus :: "'w app \<Rightarrow> 'w app" where
  "close_bus a = (case bus_Close_begin (ap_bus a) of None \<Rightarrow> a | Some b \<Rightarrow> a\<lparr>ap_bus := b\<rparr>)"

definition app_Stop :: "'w hooks \<Rightarrow> 'w app \<Rightarrow> go_error option \<times> 'w app" where
  "app_Stop hk a =
     (if \<not> ap_running a then (None, a)
      else (let a1 = a\<lparr>ap_running := False, ap_cancelled := True\<rparr>;
                a2 = run_hooks (hk_beforeStop hk) a1;
                a3 = (case ap_registry a2 of None \<Rightarrow> a2 | Some reg \<Rightarrow> snd (on_world (rg_Close reg) a2));
                (lastErr, a4) = stop_transports (ap_transports a3) None a3
            in (lastErr, run_hooks (hk_afterStop hk) (close_bus a4))))"

text \<open>\<open>Run\<close>: a failed start panics; else it blocks until a signal or the end of the context.\<close>

definition app_Run ::
    "'w hooks \<Rightarrow> (string \<Rightarrow> 'w \<Rightarrow> go_error option \<times> 'w) \<Rightarrow> time \<Rightarrow> ('w app \<Rightarrow> 'w app) \<Rightarrow> 'w app \<Rightarrow>
     go_error option outcome \<times> 'w app" where
  "app_Run hk log_New now until_signal a =
     (case app_Start hk log_New now a of
        (Some err, a1) \<Rightarrow> (Panicked (error_text err), a1)
      | (None, a1) \<Rightarrow> (let (err, a2) = app_Stop hk (until_signal a1) in (Ret err, a2)))"

text \<open>The accessors.\<close>

definition app_Name :: "'w app \<Rightarrow> string" where
  "app_Name a = ao_Name (ap_opts a)"

definition app_ID :: "'w app \<Rightarrow> string" where
  "app_ID a = ao_ID (ap_opts a)"

definition app_Version :: "'w app \<Rightarrow> string" where
  "app_Version a = ao_Version (ap_opts a)"

definition app_Registry :: "'w app \<Rightarrow> 'w registry_ops option" where
  "app_Registry a = ap_registry a"

definition app_EventBus :: "'w app \<Rightarrow> app_event bus" where
  "app_EventBus a = ap_bus a"

definition app_Context :: "'w app \<Rightarrow> bool" where
  "app_Context a = ap_cancelled a"

definition app_Config :: "'w app \<Rightarrow> nat option" where
  "app_Config a = ap_config a"

definition app_Codec :: "'w app \<Rightarrow> app_codec" where
  "app_Codec a = ap_codec a"

definition app_ServiceInfo :: "'w app \<Rightarrow> service_info" where
  "app_ServiceInfo a = ap_serviceInfo a"

definition app_Options :: "'w app \<Rightarrow> 'w app_options" where
  "app_Options a = ap_opts a"

definition app_IsRunning :: "'w app \<Rightarrow> bool" where
  "app_IsRunning a = ap_running a"

section \<open>The ways a start can end\<close>

text \<open>
  What the steps of a start before its return have done: it failed before the registry was connected, or
  it went on to the transports, which ended with an error or all started; then the start event was
  refused, or published and the last hooks ran.
\<close>

lemma app_start_bodyE:
  assumes "app_start_body hk log_New now a = (err, started, connected, a')"
  obtains (early) e1 a1 where "on_world (log_New (ao_LogPath (ap_opts a))) a = (e1, a1)"
      "err \<noteq> None" "started = []" "\<not> connected" "a' = a1 \<or> a' = snd (run_before_start (hk_beforeStart hk) a1)"
  | (late) a1 a2 a3 e4 a4 a5 oo e6 a6 where "on_world (log_New (ao_LogPath (ap_opts a))) a = (None, a1)"
      "run_before_start (hk_beforeStart hk) a1 = (None, a2)" "connect_registry a2 = (connected, a3)"
      "start_transports (ap_transports a3) [] a3 = (e4, started, a4)" "a5 = watch_registry a4" "oo = ap_opts a5"
      "app_Publish now ''app.started'' (ao_Name oo, ao_ID oo, ao_Version oo) a5 = (e6, a6)"
      "err = None \<longleftrightarrow> e4 = None \<and> e6 = None"
      "a' = (if e4 \<noteq> None then a4 else if e6 \<noteq> None then a6 else run_hooks (hk_afterStart hk) a6)"
proof -
  obtain e1 a1 where l: "on_world (log_New (ao_LogPath (ap_opts a))) a = (e1, a1)" by fastforce
  obtain e2 a2 where b: "run_before_start (hk_beforeStart hk) a1 = (e2, a2)" by fastforce
  show thesis
  proof (cases "e1 = None \<and> e2 = None")
    case False
    with assms l b show thesis
      by (intro early [OF l]) (auto simp: app_start_body_def split: option.splits)
  next
    case True
    obtain c a3 where c: "connect_registry a2 = (c, a3)" by fastforce
    obtain e4 st a4 where st: "start_transports (ap_transports a3) [] a3 = (e4, st, a4)" by (metis prod.exhaust)
    define oo where "oo = ap_opts (watch_registry a4)"
    obtain e6 a6 where p: "app_Publish now ''app.started'' (ao_Name oo, ao_ID oo, ao_Version oo) (watch_registry a4) = (e6, a6)"
      by fastforce
    from True l b have lb: "on_world (log_New (ao_LogPath (ap_opts a))) a = (None, a1)"
      "run_before_start (hk_beforeStart hk) a1 = (None, a2)" by simp_all
    have "(err, started, connected, a') =
        (case e4 of Some err \<Rightarrow> (Some err, st, c, a4)
         | None \<Rightarrow> (case e6 of Some err \<Rightarrow> (Some (Wrap ''publish start event error'' err), st, c, a6)
             | None \<Rightarrow> (None, st, c, run_hooks (hk_afterStart hk) a6)))"
      unfolding assms [symmetric] app_start_body_def lb prod.case option.case c Let_def st oo_def [symmetric] p
      by (cases e4; cases e6) simp_all
    then have "c = connected" "st = started" "err = None \<longleftrightarrow> e4 = None \<and> e6 = None"
      "a' = (if e4 \<noteq> None then a4 else if e6 \<noteq> None then a6 else run_hooks (hk_afterStart hk) a6)"
      by (auto split: option.splits)
    then show thesis using late [OF lb _ _ refl oo_def p] c st by blast
  qed
qed

section \<open>The contract of transports\<close>

text \<open>
  \<open>up w i\<close>: transport \<open>i\<close> serves in the world \<open>w\<close>.  A start that succeeds brings it up, one that fails
  leaves it as it was; a stop takes it down whatever it returns; the others are not touched.
\<close>

locale transport_contract =
  fixes up :: "'w \<Rightarrow> 'i \<Rightarrow> bool" and tr :: "'i \<Rightarrow> 'w transport"
  assumes start_up: "tr_Start (tr i) w = (err, w') \<Longrightarrow> up w' j = (if j = i \<and> err = None then True else up w j)"
    and stop_down: "tr_Stop (tr i) w = (err, w') \<Longrightarrow> up w' j = (j \<noteq> i \<and> up w j)"
begin

text \<open>What else runs during a start or a stop, and leaves the transports alone.\<close>

definition quiet_op :: "('w \<Rightarrow> 'a \<times> 'w) \<Rightarrow> bool" where
  "quiet_op f \<longleftrightarrow> (\<forall>w i. up (snd (f w)) i = up w i)"

definition quiet_registry :: "'w registry_ops option \<Rightarrow> bool" where
  "quiet_registry r \<longleftrightarrow> (case r of None \<Rightarrow> True | Some reg \<Rightarrow>
     quiet_op (rg_Connect reg) \<and> quiet_op (rg_Close reg) \<and> (\<forall>s. quiet_op (rg_Register reg s)) \<and> quiet_op (rg_Watch reg))"

definition quiet_hook :: "'w hook \<Rightarrow> bool" where
  "quiet_hook h \<longleftrightarrow> (\<forall>a. (\<forall>i. up (ap_world (snd (h a))) i = up (ap_world a) i) \<and>
     ap_transports (snd (h a)) = ap_transports a \<and> ap_registry (snd (h a)) = ap_registry a)"

definition quiet_hooks :: "'w hooks \<Rightarrow> bool" where
  "quiet_hooks hk \<longleftrightarrow> list_all quiet_hook (hk_beforeStart hk @ hk_afterStart hk @ hk_beforeStop hk @ hk_afterStop hk)"

text \<open>\<open>same a a'\<close>: the transports and the registry are the same, and the same transports are up.\<close>

definition same :: "'w app \<Rightarrow> 'w app \<Rightarrow> bool" where
  "same a a' \<longleftrightarrow> (\<forall>i. up (ap_world a') i = up (ap_world a) i) \<and>
     ap_transports a' = ap_transports a \<and> ap_registry a' = ap_registry a"

lemma same_refl [simp]: "same a a" by (simp add: same_def)

lemma same_trans: "same a b \<Longrightarrow> same b c \<Longrightarrow> same a c" by (simp add: same_def)

lemma same_op: "quiet_op f \<Longrightarrow> same a (snd (on_world f a))"
  by (simp add: same_def on_world_eq quiet_op_def)

lemma same_hook: "quiet_hook h \<Longrightarrow> same a (snd (h a))"
  by (simp add: same_def quiet_hook_def)

lemma same_publish: "same a (snd (app_Publish now topic d a))"
  by (simp add: app_Publish_def same_def split: sum.splits prod.splits)

lemma same_before_start: "list_all quiet_hook fns \<Longrightarrow> same a (snd (run_before_start fns a))"
proof (induction fns arbitrary: a)
  case (Cons fn fns)
  obtain err a1 where f: "fn a = (err, a1)" by (cases "fn a")
  have "same a a1" using same_hook [of fn a] Cons.prems f by simp
  with Cons f show ?case by (auto split: option.splits intro: same_trans)
qed simp

lemma same_hooks: "list_all quiet_hook fns \<Longrightarrow> same a (run_hooks fns a)"
  unfolding run_hooks_def
  by (induction fns arbitrary: a) (auto intro: same_trans same_hook)

lemma start_transports_up:
  assumes "quiet_registry (ap_registry a)" and "start_transports (map tr js) started a = (err, started', a')"
  shows "\<exists>ks. started' = started @ map tr ks \<and> set ks \<subseteq> set js \<and> (err = None \<longrightarrow> ks = js) \<and>
     (\<forall>i. up (ap_world a') i = (i \<in> set ks \<or> up (ap_world a) i)) \<and>
     ap_transports a' = ap_transports a \<and> ap_registry a' = ap_registry a"
  using assms
proof (induction js arbitrary: started a)
  case Nil
  then show ?case by (intro exI [of _ "[]"]) simp
next
  case (Cons j js)
  obtain e w where t: "tr_Start (tr j) (ap_world a) = (e, w)" by (cases "tr_Start (tr j) (ap_world a)")
  note up = start_up [OF t]
  show ?case
  proof (cases e)
    case (Some x)
    then have "started' = started" "a' = a\<lparr>ap_world := w\<rparr>" "err \<noteq> None"
      using Cons.prems(2) t by (auto simp: on_world_eq)
    moreover have "up w i = up (ap_world a) i" for i using up [of i] Some by simp
    ultimately show ?thesis by (intro exI [of _ "[]"]) simp
  next
    case None
    define a1 where "a1 = a\<lparr>ap_world := w\<rparr>"
    define a2 where "a2 = (case ap_registry a1 of None \<Rightarrow> a1
      | Some reg \<Rightarrow> snd (on_world (rg_Register reg (service_of (tr j))) a1))"
    have a2: "same a1 a2" using Cons.prems(1)
      by (auto simp: a2_def a1_def quiet_registry_def split: option.splits intro: same_op)
    have "quiet_registry (ap_registry a2)" using a2 Cons.prems(1) by (simp add: same_def a1_def)
    moreover have "start_transports (map tr js) (started @ [tr j]) a2 = (err, started', a')"
      using Cons.prems(2) t None unfolding a2_def a1_def by (simp add: on_world_eq [of "tr_Start (tr j)"])
    ultimately obtain ks where ks: "started' = (started @ [tr j]) @ map tr ks" "set ks \<subseteq> set js"
      "err = None \<longrightarrow> ks = js" "\<forall>i. up (ap_world a') i = (i \<in> set ks \<or> up (ap_world a2) i)"
      "ap_transports a' = ap_transports a2" "ap_registry a' = ap_registry a2"
      using Cons.IH by blast
    have "up (ap_world a2) i = (i = j \<or> up (ap_world a) i)" for i
      using a2 up None by (simp add: same_def a1_def)
    then show ?thesis using ks a2
      by (intro exI [of _ "j # ks"]) (auto simp: same_def a1_def)
  qed
qed

lemma stop_all_down:
  "\<forall>i. up (ap_world (fold (\<lambda>t a. snd (on_world (tr_Stop t) a)) (map tr js) a)) i = (i \<notin> set js \<and> up (ap_world a) i)"
  "ap_registry (fold (\<lambda>t a. snd (on_world (tr_Stop t) a)) (map tr js) a) = ap_registry a"
proof -
  have "up (ap_world (snd (on_world (tr_Stop (tr j)) a))) i = (i \<noteq> j \<and> up (ap_world a) i)" for i j a
    using stop_down [of j "ap_world a"] by (cases "tr_Stop (tr j) (ap_world a)") (simp add: on_world_eq)
  then show "\<forall>i. up (ap_world (fold (\<lambda>t a. snd (on_world (tr_Stop t) a)) (map tr js) a)) i = (i \<notin> set js \<and> up (ap_world a) i)"
    by (induction js arbitrary: a) auto
  show "ap_registry (fold (\<lambda>t a. snd (on_world (tr_Stop t) a)) (map tr js) a) = ap_registry a"
    by (induction js arbitrary: a) (simp_all add: on_world_eq)
qed

lemma rollback_down:
  assumes "quiet_registry (ap_registry a)"
  shows "up (ap_world (app_rollback (map tr js) connected a)) i = (i \<notin> set js \<and> up (ap_world a) i)"
proof -
  define a1 where "a1 = fold (\<lambda>t a. snd (on_world (tr_Stop t) a)) (map tr (rev js)) a"
  have a1: "up (ap_world a1) i = (i \<notin> set js \<and> up (ap_world a) i)" "ap_registry a1 = ap_registry a"
    using stop_all_down [of "rev js" a] by (simp_all add: a1_def)
  have "same a1 (app_rollback (map tr js) connected a)"
    using assms a1(2) by (auto simp: app_rollback_def rev_map a1_def [symmetric] quiet_registry_def
        split: option.splits intro: same_op)
  then show ?thesis using a1(1) by (simp add: same_def)
qed

lemma start_body:
  assumes "quiet_hooks hk" and "quiet_op (log_New (ao_LogPath (ap_opts a)))" and "quiet_registry (ap_registry a)"
    and tr: "ap_transports a = map tr js" and body: "app_start_body hk log_New now a = (err, started, connected, a')"
  shows "\<exists>ks. started = map tr ks \<and> set ks \<subseteq> set js \<and> (err = None \<longrightarrow> ks = js) \<and>
     (\<forall>i. up (ap_world a') i = (i \<in> set ks \<or> up (ap_world a) i)) \<and>
     ap_transports a' = ap_transports a \<and> ap_registry a' = ap_registry a"
  using body
proof (cases rule: app_start_bodyE)
  case (early e1 a1)
  have s1: "same a a1" using same_op [OF assms(2), of a] early(1) by simp
  with same_trans [OF this same_before_start [of "hk_beforeStart hk" a1]] assms(1) early(5)
  have "same a a'" by (auto simp: quiet_hooks_def)
  then show ?thesis using early(2,3) by (intro exI [of _ "[]"]) (auto simp: same_def)
next
  case (late a1 a2 a3 e4 a4 a5 oo e6 a6)
  have "same a a1" using same_op [OF assms(2), of a] late(1) by simp
  moreover have "same a1 a2" using same_before_start [of "hk_beforeStart hk" a1] assms(1) late(2)
    by (simp add: quiet_hooks_def)
  ultimately have s2: "same a a2" by (rule same_trans)
  then have reg2: "quiet_registry (ap_registry a2)" using assms(3) by (simp add: same_def)
  then have "same a2 (snd (connect_registry a2))"
    by (auto simp: connect_registry_def quiet_registry_def case_prod_unfold Let_def split: option.splits intro: same_op)
  with s2 late(3) have s3: "same a a3" by (auto intro: same_trans)
  then have reg3: "quiet_registry (ap_registry a3)" and tr3: "ap_transports a3 = map tr js"
    using assms(3) tr by (simp_all add: same_def)
  obtain ks where ks: "started = map tr ks" "set ks \<subseteq> set js" "e4 = None \<longrightarrow> ks = js"
    "\<forall>i. up (ap_world a4) i = (i \<in> set ks \<or> up (ap_world a3) i)"
    "ap_transports a4 = ap_transports a3" "ap_registry a4 = ap_registry a3"
    using start_transports_up [OF reg3 late(4) [unfolded tr3]] by auto
  have s5: "same a4 a5" using ks(6) reg3
    by (auto simp: late(5) watch_registry_def quiet_registry_def split: option.splits intro: same_op)
  have s6: "same a4 a6" using same_trans [OF s5 same_publish] late(7) by (metis snd_conv)
  have "same a4 (run_hooks (hk_afterStart hk) a6)"
    using s6 same_hooks [of "hk_afterStart hk" a6] assms(1) by (auto simp: quiet_hooks_def intro: same_trans)
  then have "same a4 a'" using s6 by (simp add: late(9))
  then show ?thesis using ks late(8) s3 by (intro exI [of _ ks]) (simp add: same_def)
qed

text \<open>A failed start leaves nothing up; one that succeeds leaves all transports up.\<close>

lemma start_outcome:
  assumes "quiet_hooks hk" and "\<And>p. quiet_op (log_New p)" and "quiet_registry (ap_registry a)"
    and tr: "ap_transports a = map tr js" and idle: "\<not> ap_running a" "\<not> ap_starting a"
    and down: "\<forall>j\<in>set js. \<not> up (ap_world a) j" and start: "app_Start hk log_New now a = (err, a')"
  shows "(\<forall>j\<in>set js. up (ap_world a') j = (err = None)) \<and> (\<forall>j. j \<notin> set js \<longrightarrow> up (ap_world a') j = up (ap_world a) j) \<and>
     (err = None \<longrightarrow> ap_transports a' = map tr js \<and> ap_registry a' = ap_registry a)"
proof -
  define b where "b = a\<lparr>ap_starting := True\<rparr>"
  obtain e st c a1 where body: "app_start_body hk log_New now b = (e, st, c, a1)" by (metis prod.exhaust)
  have b: "quiet_registry (ap_registry b)" "ap_transports b = map tr js" "ap_world b = ap_world a"
    using assms(3) tr by (simp_all add: b_def)
  from start_body [OF assms(1) assms(2) b(1,2) body] obtain ks where ks: "st = map tr ks" "set ks \<subseteq> set js"
      "e = None \<longrightarrow> ks = js" "\<forall>i. up (ap_world a1) i = (i \<in> set ks \<or> up (ap_world a) i)"
      "ap_registry a1 = ap_registry b" "ap_transports a1 = ap_transports b"
    unfolding b(3) by blast
  define a2 where "a2 = a1\<lparr>ap_starting := False, ap_running := (e = None)\<rparr>"
  have a': "err = e" "a' = (if e = None then a2 else app_rollback (map tr ks) c a2)"
    using start idle body ks(1) by (auto simp: app_Start_def b_def [symmetric] a2_def Let_def)
  have "quiet_registry (ap_registry a2)" using ks(5) b(1) by (simp add: a2_def)
  note rb = rollback_down [OF this, where js = ks and connected = c]
  show ?thesis
  proof (cases "e = None")
    case True
    then show ?thesis using a' ks tr by (auto simp: a2_def b_def)
  next
    case False
    then have "up (ap_world a') i = (i \<notin> set ks \<and> up (ap_world a1) i)" for i
    proof -
      have "a' = app_rollback (map tr ks) c a2" using a' False by simp
      moreover have "ap_world a2 = ap_world a1" by (simp add: a2_def)
      ultimately show ?thesis using rb [of i] by simp
    qed
    then show ?thesis using False a' ks down by auto
  qed
qed

lemma stop_transports_down:
  "stop_transports (map tr js) e a = (err, a') \<Longrightarrow>
     (\<forall>i. up (ap_world a') i = (i \<notin> set js \<and> up (ap_world a) i)) \<and> ap_running a' = ap_running a"
proof (induction js arbitrary: e a)
  case (Cons j js)
  obtain x w where s: "tr_Stop (tr j) (ap_world a) = (x, w)" by (cases "tr_Stop (tr j) (ap_world a)")
  have "stop_transports (map tr js) (if x = None then e else x) (a\<lparr>ap_world := w\<rparr>) = (err, a')"
    using Cons.prems s by (auto simp: on_world_eq split: option.splits)
  from Cons.IH [OF this] stop_down [OF s] show ?case by auto
qed simp

lemma stop_outcome:
  assumes "quiet_hooks hk" and "quiet_registry (ap_registry a)" and "ap_transports a = map tr js"
    and "ap_running a" and "app_Stop hk a = (err, a')"
  shows "\<forall>i. up (ap_world a') i = (i \<notin> set js \<and> up (ap_world a) i)"
proof -
  define a1 where "a1 = a\<lparr>ap_running := False, ap_cancelled := True\<rparr>"
  define a2 where "a2 = run_hooks (hk_beforeStop hk) a1"
  define a3 where "a3 = (case ap_registry a2 of None \<Rightarrow> a2 | Some reg \<Rightarrow> snd (on_world (rg_Close reg) a2))"
  have "same a a1" by (simp add: same_def a1_def)
  moreover have s2: "same a1 a2" using same_hooks [of "hk_beforeStop hk" a1] assms(1)
    by (simp add: a2_def quiet_hooks_def)
  moreover have "same a2 a3" using assms(2) calculation
    by (auto simp: a3_def same_def [of a a1] same_def [of a1 a2] quiet_registry_def split: option.splits intro: same_op)
  ultimately have s3: "same a a3" by (blast intro: same_trans)
  obtain e a4 where st: "stop_transports (ap_transports a3) None a3 = (e, a4)" by fastforce
  then have "stop_transports (map tr js) None a3 = (e, a4)" using s3 assms(3) by (simp add: same_def)
  note d = stop_transports_down [OF this]
  have "same a4 (close_bus a4)" by (simp add: same_def close_bus_def split: option.splits)
  then have "same a4 (run_hooks (hk_afterStop hk) (close_bus a4))"
    using same_hooks [of "hk_afterStop hk" "close_bus a4"] assms(1)
    by (auto simp: quiet_hooks_def intro: same_trans)
  moreover have "a' = run_hooks (hk_afterStop hk) (close_bus a4)"
    using assms(4,5) unfolding app_Stop_def Let_def a1_def [symmetric] a2_def [symmetric] a3_def [symmetric] st
    by simp
  ultimately show ?thesis using d s3 by (simp add: same_def)
qed

end

section \<open>The servers as transports\<close>

text \<open>
  A world of gRPC servers, the addresses of the machine and the health states; \<open>md i\<close> lists the metadata
  of server \<open>i\<close>.
\<close>

record ('o, 'u, 's) grpc_net =
  gn_server :: "nat \<Rightarrow> ('o, 'u, 's) grpc_server"
  gn_world :: grpc_world

definition grpc_transport ::
    "tls_files \<Rightarrow> 'u list \<Rightarrow> 's list \<Rightarrow> (nat \<Rightarrow> ('o, 'u, 's) grpc_options) \<Rightarrow> (nat \<Rightarrow> (string \<times> string) list) \<Rightarrow> nat \<Rightarrow>
     ('o, 'u, 's) grpc_net transport" where
  "grpc_transport tf us ss opts md i =
     \<lparr>tr_ID = go_ID (opts i), tr_Name = go_Name (opts i), tr_Version = go_Version (opts i),
      tr_Metadata = md i, tr_Addr = go_Address (opts i),
      tr_Start = (\<lambda>w. case grpc_Start tf us ss (gn_server w i) (gn_world w) of
         (err, s, gw) \<Rightarrow> (err, w\<lparr>gn_server := (gn_server w)(i := s), gn_world := gw\<rparr>)),
      tr_Stop = (\<lambda>w. case grpc_Stop (gn_server w i) (gn_world w) of
         (err, s, gw) \<Rightarrow> (err, w\<lparr>gn_server := (gn_server w)(i := s), gn_world := gw\<rparr>))\<rparr>"

definition grpc_net_up :: "('o, 'u, 's) grpc_net \<Rightarrow> nat \<Rightarrow> bool" where
  "grpc_net_up w i = grpc_up (gn_server w i)"

lemma grpc_Start_up: "grpc_Start tf us ss s gw = (err, s', gw') \<Longrightarrow> grpc_up s' = (if err = None then True else grpc_up s)"
  by (auto simp: grpc_Start_def grpc_up_def Let_def split: prod.splits option.splits sum.splits if_splits)

lemma grpc_Stop_down: "grpc_Stop s gw = (err, s', gw') \<Longrightarrow> \<not> grpc_up s'"
  by (auto simp: grpc_Stop_def grpc_up_def Let_def split: prod.splits option.splits)

interpretation grpc_tr: transport_contract grpc_net_up "grpc_transport tf us ss opts md" for tf us ss opts md
proof unfold_locales
  fix i j err w w'
  assume "tr_Start (grpc_transport tf us ss opts md i) w = (err, w')"
  then obtain s gw where "grpc_Start tf us ss (gn_server w i) (gn_world w) = (err, s, gw)"
    and "w' = w\<lparr>gn_server := (gn_server w)(i := s), gn_world := gw\<rparr>"
    by (auto simp: grpc_transport_def split: prod.splits)
  then show "grpc_net_up w' j = (if j = i \<and> err = None then True else grpc_net_up w j)"
    using grpc_Start_up [of tf us ss "gn_server w i" "gn_world w" err s gw] by (simp add: grpc_net_up_def)
next
  fix i j err w w'
  assume "tr_Stop (grpc_transport tf us ss opts md i) w = (err, w')"
  then obtain s gw where "grpc_Stop (gn_server w i) (gn_world w) = (err, s, gw)"
    and "w' = w\<lparr>gn_server := (gn_server w)(i := s), gn_world := gw\<rparr>"
    by (auto simp: grpc_transport_def split: prod.splits)
  then show "grpc_net_up w' j = (j \<noteq> i \<and> grpc_net_up w j)"
    using grpc_Stop_down [of "gn_server w i" "gn_world w" err s gw] by (auto simp: grpc_net_up_def)
qed

text \<open>The same for HTTP servers; \<open>sd i\<close> is how the shutdown of server \<open>i\<close> ends.\<close>

record ('u, 'v) http_net =
  hn_server :: "nat \<Rightarrow> ('u, 'v) http_server"
  hn_world :: health_world

definition http_transport ::
    "('v \<Rightarrow> health_heap) \<Rightarrow> (nat \<Rightarrow> go_error option \<times> go_error option) \<Rightarrow> (nat \<Rightarrow> http_options) \<Rightarrow>
     (nat \<Rightarrow> (string \<times> string) list) \<Rightarrow> nat \<Rightarrow> ('u, 'v) http_net transport" where
  "http_transport hh sd opts md i =
     \<lparr>tr_ID = ho_ID (opts i), tr_Name = ho_Name (opts i), tr_Version = ho_Version (opts i),
      tr_Metadata = md i, tr_Addr = ho_Address (opts i),
      tr_Start = (\<lambda>w. case http_Start hh (hn_server w i) (hn_world w) of
         (err, s, hw) \<Rightarrow> (err, w\<lparr>hn_server := (hn_server w)(i := s), hn_world := hw\<rparr>)),
      tr_Stop = (\<lambda>w. case http_Stop (fst (sd i)) (snd (sd i)) (hn_server w i) (hn_world w) of
         (err, s, hw) \<Rightarrow> (err, w\<lparr>hn_server := (hn_server w)(i := s), hn_world := hw\<rparr>))\<rparr>"

definition http_net_up :: "('u, 'v) http_net \<Rightarrow> nat \<Rightarrow> bool" where
  "http_net_up w i = http_up (hn_server w i)"

interpretation http_tr: transport_contract http_net_up "http_transport hh sd opts md" for hh sd opts md
  by unfold_locales
    (auto simp: http_transport_def http_net_up_def http_Start_def http_Stop_def http_up_def Let_def
      split: prod.splits option.splits if_splits)

section \<open>A closed bus\<close>

lemma bus_start_transports: "start_transports ts st a = (err, st', a') \<Longrightarrow> ap_bus a' = ap_bus a"
  by (induction ts arbitrary: st a) (auto simp: on_world_eq split: option.splits prod.splits)

definition plain_hooks :: "'w hooks" where
  "plain_hooks = \<lparr>hk_beforeStart = [], hk_afterStart = [], hk_beforeStop = [], hk_afterStop = []\<rparr>"

lemma closed_bus_start:
  assumes "bus_closed (ap_bus a)" and "\<not> ap_running a" and "\<not> ap_starting a"
  shows "fst (app_Start plain_hooks log_New now a) \<noteq> None"
proof -
  define b where "b = a\<lparr>ap_starting := True\<rparr>"
  have closed: "bus_closed (ap_bus b)" using assms(1) by (simp add: b_def)
  obtain e st c a1 where body: "app_start_body plain_hooks log_New now b = (e, st, c, a1)" by (metis prod.exhaust)
  from body have "e \<noteq> None"
  proof (cases rule: app_start_bodyE)
    case (late a1 a2 a3 e4 a4 a5 oo e6 a6)
    have "ap_bus a1 = ap_bus b" using late(1) by (auto simp: on_world_eq)
    moreover have "a2 = a1" using late(2) by (simp add: plain_hooks_def)
    moreover have "ap_bus a3 = ap_bus a2" using late(3)
      by (auto simp: connect_registry_def on_world_eq split: option.splits)
    moreover note bus_start_transports [OF late(4)]
    moreover have "ap_bus a5 = ap_bus a4"
      by (simp add: late(5) watch_registry_def on_world_eq split: option.splits)
    ultimately have "bus_closed (ap_bus a5)" using closed by simp
    then show ?thesis using late(7,8) by (auto simp: app_Publish_def bus_snapshot_def)
  qed simp
  then show ?thesis using assms(2,3) body by (simp add: app_Start_def b_def [symmetric] Let_def)
qed

lemma bus_closed_close_bus: "bus_closed (ap_bus (close_bus a))"
  by (simp add: close_bus_def bus_Close_begin_def)

lemma stop_transports_flags:
  "stop_transports ts e a = (err, a') \<Longrightarrow> ap_running a' = ap_running a \<and> ap_starting a' = ap_starting a"
  by (induction ts arbitrary: e a) (auto simp: on_world_eq split: option.splits prod.splits)

lemma stopped:
  assumes "ap_running a" and "\<not> ap_starting a" and "app_Stop plain_hooks a = (err, a')"
  shows "bus_closed (ap_bus a') \<and> \<not> ap_running a' \<and> \<not> ap_starting a' "
proof -
  define a1 where "a1 = a\<lparr>ap_running := False, ap_cancelled := True\<rparr>"
  define a3 where "a3 = (case ap_registry a1 of None \<Rightarrow> a1 | Some reg \<Rightarrow> snd (on_world (rg_Close reg) a1))"
  obtain e a4 where st: "stop_transports (ap_transports a3) None a3 = (e, a4)" by fastforce
  have "\<not> ap_running a3" "\<not> ap_starting a3" using assms(2)
    by (simp_all add: a3_def a1_def on_world_eq split: option.splits)
  with stop_transports_flags [OF st] have "\<not> ap_running (close_bus a4)" "\<not> ap_starting (close_bus a4)"
    by (simp_all add: close_bus_def split: option.splits)
  moreover have "a' = close_bus a4"
    using assms(1,3) unfolding app_Stop_def Let_def a1_def [symmetric] plain_hooks_def hooks.simps run_hooks_def
      fold_simps a3_def [symmetric] st by simp
  ultimately show ?thesis using bus_closed_close_bus [of a4] by simp
qed

section \<open>Properties\<close>

lemma rollback_flags:
  fixes a :: "'w app"
  shows
  "ap_running (app_rollback started c a) = ap_running a \<and> ap_starting (app_rollback started c a) = ap_starting a"
proof -
  have "ap_running (fold (\<lambda>t a. snd (on_world (tr_Stop t) a)) ts a) = ap_running a \<and>
      ap_starting (fold (\<lambda>t a. snd (on_world (tr_Stop t) a)) ts a) = ap_starting a" for ts :: "'w transport list"
    by (induction ts arbitrary: a) (simp_all add: on_world_eq)
  then show ?thesis by (simp add: app_rollback_def Let_def on_world_eq split: option.splits)
qed

lemma app_Start_flags:
  "\<not> ap_running a \<Longrightarrow> \<not> ap_starting a \<Longrightarrow> app_Start hk log_New now a = (err, a') \<Longrightarrow>
     ap_running a' = (err = None) \<and> \<not> ap_starting a'"
  by (auto simp: app_Start_def rollback_flags Let_def split: prod.splits if_splits)

text \<open>
  C11: A failed start is rolled back: when \<open>Start\<close> of an application of gRPC servers returns an error,
  whichever step failed, the application is not running and not starting, and none of its servers is
  serving, the ones it had started included (for hooks, a logger and a registry that leave the
  servers alone).
\<close>

theorem app_failed_start_rolls_back:
  assumes "transport_contract.quiet_hooks grpc_net_up hk"
    and "\<And>p. transport_contract.quiet_op grpc_net_up (log_New p)"
    and "transport_contract.quiet_registry grpc_net_up (ap_registry a)"
    and "ap_transports a = map (grpc_transport tf us ss opts md) js"
    and "\<not> ap_running a" and "\<not> ap_starting a" and "\<forall>j\<in>set js. \<not> grpc_up (gn_server (ap_world a) j)"
    and "app_Start hk log_New now a = (Some err, a')"
  shows "\<not> ap_running a' \<and> \<not> ap_starting a' \<and> (\<forall>j\<in>set js. \<not> grpc_up (gn_server (ap_world a') j))"
  using grpc_tr.start_outcome [OF assms(1-6) _ assms(8)] assms(7) app_Start_flags [OF assms(5,6,8)]
  unfolding grpc_net_up_def by simp

definition no_log :: "string \<Rightarrow> 'w \<Rightarrow> go_error option \<times> 'w" where
  "no_log p w = (None, w)"

text \<open>Two servers: the second one's key files do not load.\<close>

definition two_opts :: "nat \<Rightarrow> (unit, unit, unit) grpc_options" where
  "two_opts i = fold apply_grpc_option
     (if i = 0 then [GrpcWithName ''first''] else [GrpcWithAddress '':9001'', GrpcWithTLS ''c.pem'' ''k.pem''])
     (grpc_DefaultOptions ''01234567'')"

definition two_servers :: "(unit, unit, unit) grpc_net" where
  "two_servers = \<lparr>gn_server = (\<lambda>i. \<lparr>gs_opts = two_opts i, gs_server = None, gs_hasHealth = True, gs_healthStatus = i,
     gs_listener = None, gs_registerFn = False, gs_addr = go_Address (two_opts i)\<rparr>), gn_world = ({}, no_health, [])\<rparr>"

definition two_app :: "(unit, unit, unit) grpc_net app" where
  "two_app = app_Bind (map (grpc_transport bad_files [] [] two_opts (\<lambda>_. [])) [0, 1])
     (app_New 4 ''89abcdef'' [] two_servers)"

theorem app_failed_start_rolls_back_witness:
  "\<exists>err a'. app_Start plain_hooks no_log 0 two_app = (Some err, a') \<and> \<not> grpc_up (gn_server (ap_world a') 0)"
proof -
  obtain r a' where start: "app_Start plain_hooks no_log 0 two_app = (r, a')" by fastforce
  have fail: "r \<noteq> None"
  proof
    assume "r = None"
    with start show False
      by (simp add: app_Start_def two_app_def app_Bind_def app_New_def app_DefaultOptions_def
          app_start_body_def plain_hooks_def on_world_eq no_log_def connect_registry_def grpc_transport_def
          two_servers_def two_opts_def grpc_Start_def net_Listen_def grpc_DefaultOptions_def
          loadTLSCredentials_def bad_files_def Let_def split: prod.splits)
  qed
  then obtain err where err: "r = Some err" by auto
  have "\<not> ap_running a' \<and> \<not> ap_starting a' \<and> (\<forall>j\<in>set [0, 1]. \<not> grpc_up (gn_server (ap_world a') j))"
  proof (rule app_failed_start_rolls_back [OF _ _ _ _ _ _ _ start [unfolded err]])
    show "transport_contract.quiet_hooks grpc_net_up plain_hooks"
      by (simp add: grpc_tr.quiet_hooks_def plain_hooks_def)
    show "transport_contract.quiet_op grpc_net_up (no_log p)" for p
      by (simp add: grpc_tr.quiet_op_def no_log_def)
    show "transport_contract.quiet_registry grpc_net_up (ap_registry two_app)"
      by (simp add: grpc_tr.quiet_registry_def two_app_def app_Bind_def app_New_def app_DefaultOptions_def Let_def)
    show "ap_transports two_app = map (grpc_transport bad_files [] [] two_opts (\<lambda>_. [])) [0, 1]"
      by (simp add: two_app_def app_Bind_def app_New_def Let_def)
    show "\<not> ap_running two_app" "\<not> ap_starting two_app"
      by (simp_all add: two_app_def app_Bind_def app_New_def Let_def)
    show "\<forall>j\<in>set [0, 1]. \<not> grpc_up (gn_server (ap_world two_app) j)"
      by (simp add: two_app_def app_Bind_def app_New_def two_servers_def grpc_up_def Let_def)
  qed
  then show ?thesis using start err by auto
qed

text \<open>
  A start that succeeds leaves the application running with every one of its HTTP servers started; the
  stop that follows takes all of them down, whatever the stops return, and ends the run.
\<close>

theorem app_start_then_stop:
  assumes "transport_contract.quiet_hooks http_net_up hk"
    and "\<And>p. transport_contract.quiet_op http_net_up (log_New p)"
    and "transport_contract.quiet_registry http_net_up (ap_registry a)"
    and "ap_transports a = map (http_transport hh sd opts md) js"
    and "\<not> ap_running a" and "\<not> ap_starting a" and "\<forall>j\<in>set js. \<not> http_up (hn_server (ap_world a) j)"
    and "app_Start hk log_New now a = (None, a1)" and "app_Stop hk a1 = (err, a2)"
  shows "ap_running a1 \<and> (\<forall>j\<in>set js. http_up (hn_server (ap_world a1) j)) \<and>
     (\<forall>j\<in>set js. \<not> http_up (hn_server (ap_world a2) j))"
proof -
  have "\<forall>j\<in>set js. \<not> http_net_up (ap_world a) j" using assms(7) by (simp add: http_net_up_def)
  note st = http_tr.start_outcome [OF assms(1-6) this assms(8)]
  have run: "ap_running a1" using app_Start_flags [OF assms(5,6,8)] by simp
  have quiet_reg: "transport_contract.quiet_registry http_net_up (ap_registry a1)"
    and tr: "ap_transports a1 = map (http_transport hh sd opts md) js"
    using st assms(3) by simp_all
  from http_tr.stop_outcome [OF assms(1) quiet_reg tr run assms(9)] st run show ?thesis
    by (simp add: http_net_up_def)
qed

text \<open>An application with one HTTP server, whose shutdown times out.\<close>

definition one_http :: "(unit, health_heap) http_net app" where
  "one_http = app_Bind [http_transport (\<lambda>w. w) (\<lambda>_. (Some ErrRange, Some ErrRange)) (\<lambda>_. http_DefaultOptions ''01234567'') (\<lambda>_. []) 0]
     (app_New 4 ''89abcdef'' [] \<lparr>hn_server = (\<lambda>_. fst (http_NewServer [] ''01234567'' constant_codec empty_heap)),
        hn_world = (snd (http_NewServer [] ''01234567'' constant_codec empty_heap :: (unit, health_heap) http_server \<times> health_heap), [])\<rparr>)"

theorem app_start_then_stop_witness:
  "(let (e1, a1) = app_Start plain_hooks no_log 0 one_http; (e2, a2) = app_Stop plain_hooks a1
    in e1 = None \<and> \<not> http_up (hn_server (ap_world a2) 0))"
proof -
  obtain e1 a1 e2 a2 where run: "app_Start plain_hooks no_log 0 one_http = (e1, a1)" "app_Stop plain_hooks a1 = (e2, a2)"
    by (metis prod.exhaust)
  note defs = one_http_def app_Bind_def app_New_def app_DefaultOptions_def Let_def
  have e1: "e1 = None" using run(1)
    by (simp add: defs app_Start_def app_start_body_def plain_hooks_def on_world_eq no_log_def connect_registry_def
        http_transport_def http_Start_def watch_registry_def app_Publish_def bus_snapshot_def NewBus_def Let_def
        run_hooks_def split: prod.splits)
  have "ap_running a1 \<and> (\<forall>j\<in>set [0]. http_up (hn_server (ap_world a1) j)) \<and>
     (\<forall>j\<in>set [0]. \<not> http_up (hn_server (ap_world a2) j))"
  proof (rule app_start_then_stop [OF _ _ _ _ _ _ _ run(1) [unfolded e1] run(2)])
    show "transport_contract.quiet_hooks http_net_up plain_hooks"
      by (simp add: http_tr.quiet_hooks_def plain_hooks_def)
    show "transport_contract.quiet_op http_net_up (no_log p)" for p
      by (simp add: http_tr.quiet_op_def no_log_def)
    show "transport_contract.quiet_registry http_net_up (ap_registry one_http)"
      by (simp add: http_tr.quiet_registry_def defs)
    show "ap_transports one_http = map (http_transport (\<lambda>w. w) (\<lambda>_. (Some ErrRange, Some ErrRange))
        (\<lambda>_. http_DefaultOptions ''01234567'') (\<lambda>_. [])) [0]" by (simp add: defs)
    show "\<not> ap_running one_http" "\<not> ap_starting one_http" by (simp_all add: defs)
    show "\<forall>j\<in>set [0]. \<not> http_up (hn_server (ap_world one_http) j)"
      by (simp add: defs http_NewServer_def NewHealthState_def Let_def http_up_def)
  qed
  then show ?thesis using run e1 by simp
qed

text \<open>
  An application cannot be started again: after a start that succeeded and a stop, every further
  start fails, because the stop has closed the event bus for good and the start publishes on it.
\<close>

theorem app_restart_fails:
  assumes "\<not> ap_running a" and "\<not> ap_starting a"
    and "app_Start plain_hooks log_New now a = (None, a1)" and "app_Stop plain_hooks a1 = (err, a2)"
  shows "\<exists>err' a3. app_Start plain_hooks log_New' now' a2 = (Some err', a3) \<and> \<not> ap_running a3"
proof -
  have "ap_running a1" "\<not> ap_starting a1" using app_Start_flags [OF assms(1-3)] by simp_all
  from stopped [OF this assms(4)] have a2: "bus_closed (ap_bus a2)" "\<not> ap_running a2" "\<not> ap_starting a2" by simp_all
  obtain r a3 where run: "app_Start plain_hooks log_New' now' a2 = (r, a3)" by fastforce
  with closed_bus_start [OF a2, of log_New' now'] obtain e where "r = Some e" by auto
  with run app_Start_flags [OF a2(2,3) run] show ?thesis by simp
qed

definition idle_app :: "unit app" where
  "idle_app = app_New 4 ''89abcdef'' [] ()"

theorem app_restart_fails_witness:
  "(let (e1, a1) = app_Start plain_hooks no_log 0 idle_app; (e2, a2) = app_Stop plain_hooks a1;
        (e3, a3) = app_Start plain_hooks no_log 1 a2
    in e1 = None \<and> e3 \<noteq> None)"
proof -
  obtain e1 a1 e2 a2 where run: "app_Start plain_hooks no_log 0 idle_app = (e1, a1)" "app_Stop plain_hooks a1 = (e2, a2)"
    by (metis prod.exhaust)
  note defs = idle_app_def app_New_def app_DefaultOptions_def Let_def
  have e1: "e1 = None" using run(1)
    by (simp add: defs app_Start_def app_start_body_def plain_hooks_def on_world_eq no_log_def connect_registry_def
        watch_registry_def app_Publish_def bus_snapshot_def NewBus_def run_hooks_def split: prod.splits)
  have "\<not> ap_running idle_app" "\<not> ap_starting idle_app" by (simp_all add: defs)
  from app_restart_fails [OF this run(1) [unfolded e1] run(2), of no_log 1] run e1 show ?thesis by auto
qed

lemma body_flags:
  fixes a :: "'w app"
  assumes "app_start_body plain_hooks log_New now a = (err, st, c, a')"
  shows "ap_running a' = ap_running a"
proof -
  have tr: "ap_running (snd (snd (start_transports ts st0 b))) = ap_running b" for ts st0 and b :: "'w app"
    by (induction ts arbitrary: st0 b) (auto simp: on_world_eq split: option.splits prod.splits)
  have con: "ap_running (snd (connect_registry b)) = ap_running b" for b :: "'w app"
    by (simp add: connect_registry_def on_world_eq split: option.splits)
  have wat: "ap_running (watch_registry b) = ap_running b" for b :: "'w app"
    by (simp add: watch_registry_def on_world_eq split: option.splits)
  have pub: "ap_running (snd (app_Publish now t d b)) = ap_running b" for t d and b :: "'w app"
    by (simp add: app_Publish_def split: option.splits sum.splits prod.splits)
  have log: "ap_running b = ap_running a" if "on_world (log_New p) a = (e, b)" for p e b
    using that by (auto simp: on_world_eq)
  from assms show ?thesis
  proof (cases rule: app_start_bodyE)
    case (early e1 a1)
    then show ?thesis using log [OF early(1)] by (auto simp: plain_hooks_def)
  next
    case (late a1 a2 a3 e4 a4 a5 oo e6 a6)
    have "ap_running a3 = ap_running a" using log [OF late(1)] late(2) con [of a2] late(3) by (simp add: plain_hooks_def)
    moreover have "ap_running a4 = ap_running a3" using tr [of "ap_transports a3" "[]" a3] late(4) by simp
    moreover have "ap_running a6 = ap_running a4" using pub [of _ _ a5] late(5,7) wat [of a4] by (metis snd_conv)
    ultimately show ?thesis by (simp add: late(9) plain_hooks_def run_hooks_def)
  qed
qed

lemma body_stop_hook:
  assumes "app_start_body plain_hooks log_New now a = (None, st, c, a')" and "\<not> ap_running a"
  shows "app_start_body (app_AfterStart (app_Stop plain_hooks) plain_hooks) log_New now a = (None, st, c, a')"
proof -
  have "\<not> ap_running a'" using body_flags [OF assms(1)] assms(2) by simp
  then have "run_hooks [app_Stop plain_hooks] a' = a'" by (simp add: run_hooks_def app_Stop_def)
  with assms(1) show ?thesis
    by (auto simp: app_start_body_def app_AfterStart_def plain_hooks_def run_hooks_def Let_def split: option.splits prod.splits)
qed

text \<open>
  A stop called from an after-start hook is lost: the hook runs while the start is in progress, when
  the application is not yet marked running, so \<open>Stop\<close> returns nil without stopping anything and
  the start ends with exactly the running application it ends with when there is no such hook.
\<close>

theorem app_stop_in_after_start_hook_ignored:
  assumes "\<not> ap_running a" and "\<not> ap_starting a" and "app_Start plain_hooks log_New now a = (None, a1)"
  shows "app_Start (app_AfterStart (app_Stop plain_hooks) plain_hooks) log_New now a = (None, a1) \<and> ap_running a1"
proof -
  define b where "b = a\<lparr>ap_starting := True\<rparr>"
  obtain err st c b' where body: "app_start_body plain_hooks log_New now b = (err, st, c, b')" by (metis prod.exhaust)
  from assms have err: "err = None" and a1: "a1 = b'\<lparr>ap_starting := False, ap_running := True\<rparr>"
    using body by (auto simp: app_Start_def b_def [symmetric] Let_def split: if_splits)
  have "\<not> ap_running b" using assms(1) by (simp add: b_def)
  from body_stop_hook [OF body [unfolded err] this] assms(1,2) show ?thesis
    by (simp add: app_Start_def b_def [symmetric] Let_def a1)
qed

theorem app_stop_in_after_start_hook_ignored_witness:
  "\<exists>a1. app_Start plain_hooks no_log 0 idle_app = (None, a1) \<and>
     app_Start (app_AfterStart (app_Stop plain_hooks) plain_hooks) no_log 0 idle_app = (None, a1)"
proof -
  obtain e1 a1 where run: "app_Start plain_hooks no_log 0 idle_app = (e1, a1)" by fastforce
  have flags: "\<not> ap_running idle_app" "\<not> ap_starting idle_app"
    by (simp_all add: idle_app_def app_New_def app_DefaultOptions_def Let_def)
  have e1: "e1 = None" using run
    by (simp add: idle_app_def app_New_def app_DefaultOptions_def app_Start_def app_start_body_def plain_hooks_def
        on_world_eq no_log_def connect_registry_def watch_registry_def app_Publish_def bus_snapshot_def NewBus_def
        run_hooks_def Let_def split: prod.splits)
  from app_stop_in_after_start_hook_ignored [OF flags run [unfolded e1]] run e1 show ?thesis by blast
qed

end
