(* ===== verification/KeyedPool.thy ===== *)
theory KeyedPool
  imports Prelude
begin

text \<open>
  Objects created on first use: the per-method breakers and limiters, the metrics' counters and
  histograms.  A caller looks the key up under a read lock and, when it is absent, runs a creating
  section under the write lock, which looks again.  Between the two sections any other caller may
  run: the histories of a pool are the sequences of these sections.
\<close>

datatype ('t, 'k) pool_section = Look 'k | Create 't 'k

locale double_checked =
  fixes lookup :: "'p \<Rightarrow> 'k \<Rightarrow> 'v option"
    and create :: "'t \<Rightarrow> 'k \<Rightarrow> 'p \<Rightarrow> 'v \<times> 'p"
  assumes create_present: "lookup p k = Some v \<Longrightarrow> create t k p = (v, p)"
    and create_absent: "lookup p k = None \<Longrightarrow> lookup (snd (create t k p)) k = Some (fst (create t k p))"
    and create_other: "k' \<noteq> k \<Longrightarrow> lookup (snd (create t k p)) k' = lookup p k'"
begin

text \<open>What the sections of a history hand out, with their keys, and the pool they leave.\<close>

fun pool_run :: "('t, 'k) pool_section list \<Rightarrow> 'p \<Rightarrow> ('k \<times> 'v) list \<times> 'p" where
  "pool_run [] p = ([], p)"
| "pool_run (Look k # as) p =
     (let (rs, q) = pool_run as p
      in ((case lookup p k of Some v \<Rightarrow> [(k, v)] | None \<Rightarrow> []) @ rs, q))"
| "pool_run (Create t k # as) p =
     (let (v, p') = create t k p; (rs, q) = pool_run as p' in ((k, v) # rs, q))"

lemma create_stored: "lookup (snd (create t k p)) k = Some (fst (create t k p))"
  using create_present create_absent by (cases "lookup p k") auto

lemma create_keeps: "lookup p k' = Some v \<Longrightarrow> lookup (snd (create t k p)) k' = Some v"
  using create_present create_other by (cases "k' = k") auto

lemma pool_run_keeps: "lookup p k = Some v \<Longrightarrow> lookup (snd (pool_run as p)) k = Some v"
proof (induction as p rule: pool_run.induct)
  case (3 t k' as p)
  then show ?case using create_keeps [OF "3.prems", of t k'] by (auto split: prod.splits)
qed (auto split: prod.splits)

lemma pool_run_handed: "(k, v) \<in> set (fst (pool_run as p)) \<Longrightarrow> lookup (snd (pool_run as p)) k = Some v"
proof (induction as p rule: pool_run.induct)
  case (2 k' as p)
  then show ?case using pool_run_keeps [of p k v as] by (auto split: prod.splits option.splits)
next
  case (3 t k' as p)
  obtain u p' where c: "create t k' p = (u, p')" by (cases "create t k' p")
  have st: "lookup p' k' = Some u" using create_stored [of t k' p] c by simp
  from "3.prems" c consider "(k, v) = (k', u)" | "(k, v) \<in> set (fst (pool_run as p'))"
    by (auto split: prod.splits)
  then have "lookup (snd (pool_run as p')) k = Some v"
    using st pool_run_keeps "3.IH" c by cases auto
  then show ?case using c by (auto split: prod.splits)
qed simp

text \<open>All callers of one key are handed the same object.\<close>

lemma pool_run_agree:
  "(k, v) \<in> set (fst (pool_run as p)) \<Longrightarrow> (k, v') \<in> set (fst (pool_run as p)) \<Longrightarrow> v = v'"
  using pool_run_handed [of k v as p] pool_run_handed [of k v' as p] by simp

end

end
