(* ===== verification/GrpcTypes.thy ===== *)
theory GrpcTypes
  imports KeyedPool
begin

text \<open>
  The gRPC status codes the middleware names.  The type \<open>'e\<close> of gRPC errors, the constructor
  \<open>status.Error\<close> and the observer \<open>status.FromError\<close> (\<open>None\<close>: the error carries no status) belong
  to the gRPC library: they are parameters of the interceptors.
\<close>

datatype grpc_code = Unavailable | DeadlineExceeded | Aborted | Internal | ResourceExhausted | OtherCode nat

type_synonym 'e status_error = "grpc_code \<Rightarrow> string \<Rightarrow> 'e"
type_synonym 'e from_error = "'e \<Rightarrow> grpc_code option"

text \<open>A unary server handler, a stream handler and a client invoker, over a world \<open>'w\<close>.\<close>

type_synonym ('req, 'resp, 'e, 'w) unary_handler = "'req \<Rightarrow> 'w \<Rightarrow> ('resp option \<times> 'e option) \<times> 'w"
type_synonym ('e, 'w) invoker = "'w \<Rightarrow> 'e option \<times> 'w"

end
