(* ===== verification/CircuitBreaker.thy ===== *)
theory CircuitBreaker
  imports GrpcTypes
begin

text \<open>
  The circuit breaker (\<open>middleware/circuitbreaker.go\<close>).  Every method runs under the breaker's
  mutex, so the interleavings of any number of goroutines are the sequences of method calls:
  \<open>cb_event\<close> and \<open>cb_exec\<close> below.  A method takes the clock readings it makes as arguments.
  Callbacks started with \<open>go\<close> are recorded in \<open>cb_spawned\<close>.
\<close>

section \<open>State and operations\<close>

text \<open>\<open>CircuitState\<close> is an \<open>int\<close>: the last constructor stands for every value without a name.\<close>

datatype circuit_state = StateClosed | StateOpen | StateHalfOpen | UnnamedState int

fun circuit_state_String :: "circuit_state \<Rightarrow> string" where
  "circuit_state_String StateClosed = ''closed''"
| "circuit_state_String StateOpen = ''open''"
| "circuit_state_String StateHalfOpen = ''half-open''"
| "circuit_state_String (UnnamedState i) = ''unknown''"

abbreviation ErrCircuitOpen :: go_error where "ErrCircuitOpen \<equiv> Err ''circuit breaker is open''"

record cb_config =
  cc_FailureThreshold :: int
  cc_SuccessThreshold :: int
  cc_Timeout :: duration
  cc_OnStateChange :: bool  \<comment> \<open>a callback is set\<close>

definition DefaultCircuitBreakerConfig :: cb_config where
  "DefaultCircuitBreakerConfig =
     \<lparr>cc_FailureThreshold = 5, cc_SuccessThreshold = 3, cc_Timeout = 30 * second,
      cc_OnStateChange = False\<rparr>"

record breaker =
  cb_config :: cb_config
  cb_state :: circuit_state
  cb_failures :: int
  cb_successes :: int
  cb_lastStateChange :: time
  cb_spawned :: "(circuit_state \<times> circuit_state) list"

definition NewCircuitBreaker :: "cb_config \<Rightarrow> time \<Rightarrow> breaker" where
  "NewCircuitBreaker cfg now =
     \<lparr>cb_config = cfg, cb_state = StateClosed, cb_failures = 0, cb_successes = 0,
      cb_lastStateChange = now, cb_spawned = []\<rparr>"

definition cb_setState :: "circuit_state \<Rightarrow> time \<Rightarrow> breaker \<Rightarrow> breaker" where
  "cb_setState new now cb =
     cb\<lparr>cb_state := new, cb_lastStateChange := now, cb_failures := 0, cb_successes := 0,
        cb_spawned := (if cc_OnStateChange (cb_config cb)
                       then cb_spawned cb @ [(cb_state cb, new)] else cb_spawned cb)\<rparr>"

text \<open>\<open>t\<close> is read by \<open>time.Since\<close>, \<open>t'\<close> by \<open>setState\<close>.\<close>

definition cb_Allow :: "time \<Rightarrow> time \<Rightarrow> breaker \<Rightarrow> bool \<times> breaker" where
  "cb_Allow t t' cb =
     (case cb_state cb of
        StateClosed \<Rightarrow> (True, cb)
      | StateOpen \<Rightarrow>
          if t - cb_lastStateChange cb \<ge> cc_Timeout (cb_config cb)
          then (True, cb_setState StateHalfOpen t' cb)
          else (False, cb)
      | StateHalfOpen \<Rightarrow> (True, cb)
      | UnnamedState i \<Rightarrow> (False, cb))"

definition cb_RecordSuccess :: "time \<Rightarrow> breaker \<Rightarrow> breaker" where
  "cb_RecordSuccess t cb =
     (case cb_state cb of
        StateClosed \<Rightarrow> cb\<lparr>cb_failures := 0\<rparr>
      | StateHalfOpen \<Rightarrow>
          (let cb' = cb\<lparr>cb_successes := cb_successes cb + 1\<rparr>
           in if cb_successes cb' \<ge> cc_SuccessThreshold (cb_config cb')
              then cb_setState StateClosed t cb' else cb')
      | _ \<Rightarrow> cb)"

definition cb_RecordFailure :: "time \<Rightarrow> breaker \<Rightarrow> breaker" where
  "cb_RecordFailure t cb =
     (case cb_state cb of
        StateClosed \<Rightarrow>
          (let cb' = cb\<lparr>cb_failures := cb_failures cb + 1\<rparr>
           in if cb_failures cb' \<ge> cc_FailureThreshold (cb_config cb')
              then cb_setState StateOpen t cb' else cb')
      | StateHalfOpen \<Rightarrow> cb_setState StateOpen t cb
      | _ \<Rightarrow> cb)"

text \<open>
  \<open>Execute\<close>, with the protected function as a transformer of a world; \<open>ts\<close> are the three clock
  readings \<open>Allow\<close>, \<open>Allow\<close>'s \<open>setState\<close> and the recording make.
\<close>

type_synonym cb_times = "time \<times> time \<times> time"

definition cb_Execute ::
    "cb_times \<Rightarrow> ('w \<Rightarrow> go_error option \<times> 'w) \<Rightarrow> breaker \<Rightarrow> 'w \<Rightarrow> go_error option \<times> breaker \<times> 'w" where
  "cb_Execute ts fn cb w =
     (let (t1, t2, t3) = ts; (ok, cb1) = cb_Allow t1 t2 cb
      in if \<not> ok then (Some ErrCircuitOpen, cb1, w)
         else (case fn w of
             (Some err, w') \<Rightarrow> (Some err, cb_RecordFailure t3 cb1, w')
           | (None, w') \<Rightarrow> (None, cb_RecordSuccess t3 cb1, w')))"

definition cb_State :: "breaker \<Rightarrow> circuit_state" where
  "cb_State cb = cb_state cb"

section \<open>The gRPC interceptors\<close>

definition isCircuitBreakerError :: "'e from_error \<Rightarrow> 'e option \<Rightarrow> bool" where
  "isCircuitBreakerError FromError err =
     (case err of
        None \<Rightarrow> False
      | Some e \<Rightarrow>
          (case FromError e of
             None \<Rightarrow> True
           | Some code \<Rightarrow> code \<in> {Unavailable, DeadlineExceeded, Aborted, Internal}))"

definition UnaryClientCircuitBreaker ::
    "'e status_error \<Rightarrow> 'e from_error \<Rightarrow> cb_times \<Rightarrow>
     ('e, 'w) invoker \<Rightarrow> breaker \<Rightarrow> 'w \<Rightarrow> 'e option \<times> breaker \<times> 'w" where
  "UnaryClientCircuitBreaker StatusError FromError ts invoker cb w =
     (let (t1, t2, t3) = ts; (ok, cb1) = cb_Allow t1 t2 cb
      in if \<not> ok then (Some (StatusError Unavailable ''circuit breaker is open''), cb1, w)
         else (case invoker w of
             (Some err, w') \<Rightarrow>
               (Some err,
                if isCircuitBreakerError FromError (Some err) then cb_RecordFailure t3 cb1 else cb1, w')
           | (None, w') \<Rightarrow> (None, cb_RecordSuccess t3 cb1, w')))"

definition UnaryServerCircuitBreaker ::
    "'e status_error \<Rightarrow> 'e from_error \<Rightarrow> cb_times \<Rightarrow>
     ('req, 'resp, 'e, 'w) unary_handler \<Rightarrow> 'req \<Rightarrow> breaker \<Rightarrow> 'w \<Rightarrow>
     ('resp option \<times> 'e option) \<times> breaker \<times> 'w" where
  "UnaryServerCircuitBreaker StatusError FromError ts handler req cb w =
     (let (t1, t2, t3) = ts; (ok, cb1) = cb_Allow t1 t2 cb
      in if \<not> ok then ((None, Some (StatusError Unavailable ''service temporarily unavailable'')), cb1, w)
         else (case handler req w of
             ((resp, Some err), w') \<Rightarrow>
               ((resp, Some err),
                if isCircuitBreakerError FromError (Some err) then cb_RecordFailure t3 cb1 else cb1, w')
           | ((resp, None), w') \<Rightarrow> ((resp, None), cb_RecordSuccess t3 cb1, w')))"

section \<open>Breakers per method\<close>

record breaker_pool =
  bp_breakers :: "string \<Rightarrow> breaker option"
  bp_config :: cb_config

definition NewPerMethodCircuitBreaker :: "cb_config \<Rightarrow> breaker_pool" where
  "NewPerMethodCircuitBreaker cfg = \<lparr>bp_breakers = (\<lambda>_. None), bp_config = cfg\<rparr>"

text \<open>\<open>GetBreaker\<close>: the fast path under the read lock, then the section under the write lock.\<close>

definition bp_create :: "time \<Rightarrow> string \<Rightarrow> breaker_pool \<Rightarrow> breaker \<times> breaker_pool" where
  "bp_create now key p =
     (case bp_breakers p key of
        Some b \<Rightarrow> (b, p)
      | None \<Rightarrow>
          (let b = NewCircuitBreaker (bp_config p) now
           in (b, p\<lparr>bp_breakers := (bp_breakers p)(key \<mapsto> b)\<rparr>)))"

definition bp_GetBreaker :: "time \<Rightarrow> string \<Rightarrow> breaker_pool \<Rightarrow> breaker \<times> breaker_pool" where
  "bp_GetBreaker now key p =
     (case bp_breakers p key of Some b \<Rightarrow> (b, p) | None \<Rightarrow> bp_create now key p)"

interpretation breakers: double_checked bp_breakers bp_create
  by unfold_locales (auto simp: bp_create_def Let_def split: option.splits)

text \<open>
  The breaker is shared through its pointer, which the pool never replaces: writing it back under
  its method is the pointer update.
\<close>

definition PerMethod_UnaryClientInterceptor ::
    "'e status_error \<Rightarrow> 'e from_error \<Rightarrow> time \<Rightarrow> cb_times \<Rightarrow> string \<Rightarrow>
     ('e, 'w) invoker \<Rightarrow> breaker_pool \<Rightarrow> 'w \<Rightarrow> 'e option \<times> breaker_pool \<times> 'w" where
  "PerMethod_UnaryClientInterceptor StatusError FromError t0 ts key invoker p w =
     (let (cb, p1) = bp_GetBreaker t0 key p; (t1, t2, t3) = ts; (ok, cb1) = cb_Allow t1 t2 cb;
          put = (\<lambda>b. p1\<lparr>bp_breakers := (bp_breakers p1)(key \<mapsto> b)\<rparr>)
      in if \<not> ok then (Some (StatusError Unavailable (''circuit breaker is open for '' @ key)), put cb1, w)
         else (case invoker w of
             (Some err, w') \<Rightarrow>
               (Some err,
                put (if isCircuitBreakerError FromError (Some err) then cb_RecordFailure t3 cb1 else cb1), w')
           | (None, w') \<Rightarrow> (None, put (cb_RecordSuccess t3 cb1), w')))"

section \<open>Histories of one breaker\<close>

datatype cb_event = EvAllow time time | EvSuccess time | EvFailure time

fun cb_exec :: "cb_event \<Rightarrow> breaker \<Rightarrow> breaker" where
  "cb_exec (EvAllow t t') cb = snd (cb_Allow t t' cb)"
| "cb_exec (EvSuccess t) cb = cb_RecordSuccess t cb"
| "cb_exec (EvFailure t) cb = cb_RecordFailure t cb"

text \<open>
  The invariant: the state is one of the three, the counters belong to the state, and neither
  reaches its threshold (a threshold below 1 behaves as 1).
\<close>

definition cb_ok :: "breaker \<Rightarrow> bool" where
  "cb_ok cb \<longleftrightarrow>
     (case cb_state cb of
        StateClosed \<Rightarrow> cb_successes cb = 0 \<and> 0 \<le> cb_failures cb \<and>
          cb_failures cb < max 1 (cc_FailureThreshold (cb_config cb))
      | StateOpen \<Rightarrow> cb_failures cb = 0 \<and> cb_successes cb = 0
      | StateHalfOpen \<Rightarrow> cb_failures cb = 0 \<and> 0 \<le> cb_successes cb \<and>
          cb_successes cb < max 1 (cc_SuccessThreshold (cb_config cb))
      | UnnamedState i \<Rightarrow> False)"

lemmas cb_defs = cb_setState_def cb_Allow_def cb_RecordSuccess_def cb_RecordFailure_def Let_def

lemma cb_ok_New [inv_intros]: "cb_ok (NewCircuitBreaker cfg now)"
  unfolding cb_ok_def NewCircuitBreaker_def by simp

lemma cb_ok_exec [inv_intros]: "cb_ok cb \<Longrightarrow> cb_ok (cb_exec e cb)"
  unfolding cb_ok_def
  by (cases e; cases "cb_state cb") (auto simp: cb_defs)

lemma cb_exec_config [simp]: "cb_config (cb_exec e cb) = cb_config cb"
  by (cases e) (auto simp: cb_defs split: circuit_state.splits)

lemma cb_ok_run: "cb_ok cb \<Longrightarrow> cb_ok (fold cb_exec es cb)"
  by (induction es arbitrary: cb) (auto intro: cb_ok_exec)

lemma cb_run_config [simp]: "cb_config (fold cb_exec es cb) = cb_config cb"
  by (induction es arbitrary: cb) auto

section \<open>Properties\<close>

text \<open>
  C35: Whatever calls any number of goroutines make on a new breaker, in any order and at any
  times, its state is closed, open or half-open, its counters fit the state, and the failure
  counter of a closed breaker and the success counter of a half-open one stay below their
  thresholds.
\<close>

theorem cb_invariant: "cb_ok (fold cb_exec es (NewCircuitBreaker cfg now))"
  by (rule cb_ok_run) (rule cb_ok_New)

text \<open>Recorded outcomes of requests, as a closed breaker sees them: \<open>True\<close> is a failure.\<close>

fun cb_outcome :: "bool \<Rightarrow> cb_event" where
  "cb_outcome failed = (if failed then EvFailure 0 else EvSuccess 0)"

text \<open>The length of the run of failures at the end of a history.\<close>

definition trailing_failures :: "bool list \<Rightarrow> nat" where
  "trailing_failures os = length (takeWhile id (rev os))"

lemma trailing_failures_snoc [simp]:
  "trailing_failures (os @ [f]) = (if f then Suc (trailing_failures os) else 0)"
  by (simp add: trailing_failures_def)

lemma trailing_failures_Nil [simp]: "trailing_failures [] = 0"
  by (simp add: trailing_failures_def)

lemma trailing_failures_ge:
  "n \<le> trailing_failures os \<longleftrightarrow> (\<exists>as. os = as @ replicate n True)"
proof (induction os arbitrary: n rule: rev_induct)
  case (snoc f os)
  show ?case
  proof (cases n)
    case (Suc m)
    have "(\<exists>as. os @ [f] = as @ replicate n True) \<longleftrightarrow> f \<and> (\<exists>as. os = as @ replicate m True)"
      unfolding Suc replicate_Suc replicate_append_same [symmetric] by auto
    then show ?thesis using Suc snoc.IH [of m] by auto
  qed simp
qed simp

text \<open>\<open>n\<close> failures in a row somewhere in the history.\<close>

definition failure_run :: "nat \<Rightarrow> bool list \<Rightarrow> bool" where
  "failure_run n os \<longleftrightarrow> (\<exists>as bs. os = as @ replicate n True @ bs)"

lemma failure_run_snoc:
  "failure_run n (os @ [f]) \<longleftrightarrow> failure_run n os \<or> n \<le> trailing_failures (os @ [f])"
proof
  assume "failure_run n (os @ [f])"
  then obtain as bs where eq: "os @ [f] = as @ replicate n True @ bs" by (auto simp: failure_run_def)
  show "failure_run n os \<or> n \<le> trailing_failures (os @ [f])"
  proof (cases bs rule: rev_cases)
    case Nil
    with eq show ?thesis unfolding trailing_failures_ge by auto
  next
    case (snoc bs' b)
    with eq have "os = as @ replicate n True @ bs'" by simp
    then show ?thesis unfolding failure_run_def by blast
  qed
next
  assume "failure_run n os \<or> n \<le> trailing_failures (os @ [f])"
  then show "failure_run n (os @ [f])"
    unfolding failure_run_def trailing_failures_ge by (metis append.assoc append_Nil2)
qed

lemma cb_outcomes_state:
  fixes n :: nat and now :: time
  assumes "0 < n" and "cc_FailureThreshold cfg = int n"
  defines "cb \<equiv> (\<lambda>os. fold cb_exec (map cb_outcome os) (NewCircuitBreaker cfg now))"
  shows "if failure_run n os then cb_state (cb os) = StateOpen
     else cb_state (cb os) = StateClosed \<and> cb_failures (cb os) = int (trailing_failures os)"
proof (induction os rule: rev_induct)
  case Nil
  then show ?case using assms(1) by (simp add: cb_def NewCircuitBreaker_def failure_run_def)
next
  case (snoc f os)
  have step: "cb (os @ [f]) = cb_exec (cb_outcome f) (cb os)" by (simp add: cb_def)
  have cfg: "cb_config (cb os) = cfg" by (simp add: cb_def NewCircuitBreaker_def)
  show ?case
  proof (cases "failure_run n os")
    case True
    with snoc.IH have "cb_state (cb os) = StateOpen" by simp
    with True show ?thesis by (auto simp: step cb_defs failure_run_snoc)
  next
    case False
    with snoc.IH have st: "cb_state (cb os) = StateClosed" "cb_failures (cb os) = int (trailing_failures os)"
      by simp_all
    have "cb_state (cb (os @ [f])) = (if f \<and> n \<le> Suc (trailing_failures os) then StateOpen else StateClosed)"
      using st cfg assms(2) by (auto simp: step cb_defs)
    moreover have "\<not> (f \<and> n \<le> Suc (trailing_failures os)) \<Longrightarrow>
        cb_failures (cb (os @ [f])) = int (trailing_failures (os @ [f]))"
      using st cfg assms(2) by (auto simp: step cb_defs)
    moreover have "failure_run n (os @ [f]) \<longleftrightarrow> f \<and> n \<le> Suc (trailing_failures os)"
      using False assms(1) by (auto simp: failure_run_snoc)
    ultimately show ?thesis by auto
  qed
qed

text \<open>
  C5: With a failure threshold of \<open>n\<close>, a new breaker that records a sequence of outcomes opens
  exactly when the sequence contains \<open>n\<close> failures in a row; any success in between starts the
  count again.
\<close>

theorem cb_opens_iff_consecutive_failures:
  fixes n :: nat
  assumes "0 < n" and "cc_FailureThreshold cfg = int n"
  shows "cb_state (fold cb_exec (map cb_outcome os) (NewCircuitBreaker cfg now)) =
     (if failure_run n os then StateOpen else StateClosed)"
  using cb_outcomes_state [OF assms, where os = os and now = now] by (auto split: if_splits)

theorem cb_opens_iff_consecutive_failures_witness:
  "cb_state (fold cb_exec (map cb_outcome [True, True, False, True, True, True, True])
      (NewCircuitBreaker DefaultCircuitBreakerConfig 0)) = StateClosed \<and>
   failure_run 5 [True, True, False, True, True, True, True] = False"
proof -
  have closed: "cb_state (fold cb_exec (map cb_outcome [True, True, False, True, True, True, True])
      (NewCircuitBreaker DefaultCircuitBreakerConfig 0)) = StateClosed"
    by (simp add: cb_defs NewCircuitBreaker_def DefaultCircuitBreakerConfig_def)
  moreover have "cb_state (fold cb_exec (map cb_outcome [True, True, False, True, True, True, True])
      (NewCircuitBreaker DefaultCircuitBreakerConfig 0)) =
      (if failure_run 5 [True, True, False, True, True, True, True] then StateOpen else StateClosed)"
    by (rule cb_opens_iff_consecutive_failures) (simp_all add: DefaultCircuitBreakerConfig_def)
  ultimately show ?thesis by (auto split: if_splits)
qed

text \<open>The clock reading an event makes to decide, when it makes one.\<close>

fun cb_decides_at :: "cb_event \<Rightarrow> time option" where
  "cb_decides_at (EvAllow t t') = Some t"
| "cb_decides_at (EvSuccess t) = None"
| "cb_decides_at (EvFailure t) = None"

text \<open>
  While its timeout has not passed, an open breaker stays exactly as it is and admits
  nothing, whatever calls are made on it: outcomes of requests admitted earlier do not close it.
\<close>

theorem cb_open_rejects:
  assumes "cb_state cb = StateOpen"
    and "\<forall>e\<in>set es. \<forall>t. cb_decides_at e = Some t \<longrightarrow> t - cb_lastStateChange cb < cc_Timeout (cb_config cb)"
    and "t - cb_lastStateChange cb < cc_Timeout (cb_config cb)"
  shows "fold cb_exec es cb = cb \<and> fst (cb_Allow t t' (fold cb_exec es cb)) = False"
proof -
  have "cb_exec e cb = cb" if "e \<in> set es" for e
  proof (cases e)
    case (EvAllow u u')
    with that assms(2) have "u - cb_lastStateChange cb < cc_Timeout (cb_config cb)" by auto
    with EvAllow assms(1) show ?thesis by (simp add: cb_defs)
  qed (use assms(1) in \<open>simp_all add: cb_defs\<close>)
  then have "fold cb_exec es cb = cb"
    by (induction es) auto
  with assms(1,3) show ?thesis by (simp add: cb_Allow_def)
qed

theorem cb_open_rejects_witness:
  "fst (cb_Allow 29 29 (fold cb_exec [EvSuccess 7, EvAllow 20 20, EvFailure 25]
     \<lparr>cb_config = \<lparr>cc_FailureThreshold = 5, cc_SuccessThreshold = 3, cc_Timeout = 30, cc_OnStateChange = False\<rparr>,
      cb_state = StateOpen, cb_failures = 0, cb_successes = 0, cb_lastStateChange = 0, cb_spawned = []\<rparr>)) = False"
  using cb_open_rejects [of
      "\<lparr>cb_config = \<lparr>cc_FailureThreshold = 5, cc_SuccessThreshold = 3, cc_Timeout = 30, cc_OnStateChange = False\<rparr>,
      cb_state = StateOpen, cb_failures = 0, cb_successes = 0, cb_lastStateChange = 0, cb_spawned = []\<rparr>"
      "[EvSuccess 7, EvAllow 20 20, EvFailure 25]" 29 29]
  by (simp add: cb_defs)

lemma cb_halfopen_successes:
  assumes "cb_state cb = StateHalfOpen" and "cb_successes cb = int k"
    and "cc_SuccessThreshold (cb_config cb) = int n" and "k + m < n"
  shows "fold cb_exec (replicate m (EvSuccess t)) cb = cb\<lparr>cb_successes := int (k + m)\<rparr>"
  using assms
proof (induction m arbitrary: cb k)
  case (Suc m)
  have one: "cb_exec (EvSuccess t) cb = cb\<lparr>cb_successes := int (Suc k)\<rparr>"
    using Suc.prems by (simp add: cb_defs)
  have "fold cb_exec (replicate m (EvSuccess t)) (cb\<lparr>cb_successes := int (Suc k)\<rparr>) =
      (cb\<lparr>cb_successes := int (Suc k)\<rparr>)\<lparr>cb_successes := int (Suc k + m)\<rparr>"
    by (rule Suc.IH) (use Suc.prems in auto)
  with one show ?case by simp
qed simp

text \<open>
  A breaker that has just turned half-open closes at its \<open>n\<close>-th success, for a success
  threshold of \<open>n\<close>, and not before; a failure before that opens it again at once, with the
  timeout running from that failure.
\<close>

theorem cb_halfopen_recovery:
  fixes n :: nat
  assumes "cb_state cb = StateHalfOpen" and "cb_successes cb = 0"
    and "cc_SuccessThreshold (cb_config cb) = int n" and "m < n"
  shows "cb_state (fold cb_exec (replicate m (EvSuccess t)) cb) = StateHalfOpen \<and>
     cb_state (fold cb_exec (replicate n (EvSuccess t)) cb) = StateClosed \<and>
     (let cb' = fold cb_exec (replicate m (EvSuccess t) @ [EvFailure t']) cb
      in cb_state cb' = StateOpen \<and> cb_lastStateChange cb' = t')"
proof -
  have m: "fold cb_exec (replicate m (EvSuccess t)) cb = cb\<lparr>cb_successes := int m\<rparr>"
    using cb_halfopen_successes [OF assms(1) _ assms(3), of 0 m t] assms(2,4) by simp
  obtain k where k: "n = Suc k" using assms(4) by (cases n) auto
  have "fold cb_exec (replicate k (EvSuccess t)) cb = cb\<lparr>cb_successes := int k\<rparr>"
    using cb_halfopen_successes [OF assms(1) _ assms(3), of 0 k t] assms(2) k by simp
  then have "fold cb_exec (replicate n (EvSuccess t)) cb = cb_RecordSuccess t (cb\<lparr>cb_successes := int k\<rparr>)"
    unfolding k replicate_Suc replicate_append_same [symmetric] by simp
  then have "cb_state (fold cb_exec (replicate n (EvSuccess t)) cb) = StateClosed"
    using assms(1,3) k by (simp add: cb_defs)
  with m assms(1) show ?thesis by (simp add: cb_defs)
qed

theorem cb_halfopen_recovery_witness:
  "cb_state (fold cb_exec (replicate 3 (EvSuccess 9))
     \<lparr>cb_config = DefaultCircuitBreakerConfig, cb_state = StateHalfOpen, cb_failures = 0,
      cb_successes = 0, cb_lastStateChange = 0, cb_spawned = []\<rparr>) = StateClosed"
  using cb_halfopen_recovery [of "\<lparr>cb_config = DefaultCircuitBreakerConfig, cb_state = StateHalfOpen,
      cb_failures = 0, cb_successes = 0, cb_lastStateChange = 0, cb_spawned = []\<rparr>" 3 2 9 10]
  by (simp add: DefaultCircuitBreakerConfig_def)

text \<open>
  The half-open state does not limit requests: any number of calls of \<open>Allow\<close> at any times
  is admitted and leaves the breaker unchanged.
\<close>

theorem cb_halfopen_admits_all:
  assumes "cb_state cb = StateHalfOpen"
  shows "fold (\<lambda>(t, t') (oks, b). (oks @ [fst (cb_Allow t t' b)], snd (cb_Allow t t' b))) ts ([], cb) =
     (replicate (length ts) True, cb)"
proof -
  have "fold (\<lambda>(t, t') (oks, b). (oks @ [fst (cb_Allow t t' b)], snd (cb_Allow t t' b))) ts (oks, cb) =
      (oks @ replicate (length ts) True, cb)" for oks
    using assms by (induction ts arbitrary: oks) (auto simp: cb_Allow_def)
  then show ?thesis by simp
qed

theorem cb_halfopen_admits_all_witness:
  "fold (\<lambda>(t, t') (oks, b). (oks @ [fst (cb_Allow t t' b)], snd (cb_Allow t t' b))) [(1, 1), (1, 1), (2, 2)]
     ([], \<lparr>cb_config = DefaultCircuitBreakerConfig, cb_state = StateHalfOpen, cb_failures = 0,
      cb_successes = 0, cb_lastStateChange = 0, cb_spawned = []\<rparr>) =
   ([True, True, True], \<lparr>cb_config = DefaultCircuitBreakerConfig, cb_state = StateHalfOpen, cb_failures = 0,
      cb_successes = 0, cb_lastStateChange = 0, cb_spawned = []\<rparr>)"
  using cb_halfopen_admits_all [of "\<lparr>cb_config = DefaultCircuitBreakerConfig, cb_state = StateHalfOpen,
      cb_failures = 0, cb_successes = 0, cb_lastStateChange = 0, cb_spawned = []\<rparr>" "[(1, 1), (1, 1), (2, 2)]"]
  by (simp add: numeral_eq_Suc)

end
