(* ===== verification/Codecs.thy ===== *)
theory Codecs
  imports Prelude
begin

text \<open>
  The codecs (\<open>codec\<close>): JSON and Protocol Buffers hand over to their libraries, which are arguments, and
  the raw codec passes bytes through.  A codec sees the dynamic type of the value: \<open>'u\<close> stands for every
  type but bytes, strings and pointers to bytes.
\<close>

datatype 'u val = RawBytes string | RawString string | RawBytesPtr "string option" | OtherVal 'u

text \<open>What a decoder is given to write into, and what is in there afterwards.\<close>

datatype 'u target = ToBytes | ToString | ToOther 'u

record 'u go_codec =
  cdc_Name :: string
  cdc_ContentType :: string
  cdc_Marshal :: "'u val \<Rightarrow> string result"
  cdc_Unmarshal :: "string \<Rightarrow> 'u target \<Rightarrow> 'u val result"

definition JSONCodec :: "('u val \<Rightarrow> string result) \<Rightarrow> (string \<Rightarrow> 'u target \<Rightarrow> 'u val result) \<Rightarrow> 'u go_codec" where
  "JSONCodec marshal unmarshal =
     \<lparr>cdc_Name = ''json'', cdc_ContentType = ''application/json'', cdc_Marshal = marshal, cdc_Unmarshal = unmarshal\<rparr>"

text \<open>\<open>message\<close> tells the values that implement \<open>proto.Message\<close>.\<close>

definition ProtoCodec ::
    "('u \<Rightarrow> bool) \<Rightarrow> ('u \<Rightarrow> string result) \<Rightarrow> (string \<Rightarrow> 'u \<Rightarrow> 'u result) \<Rightarrow> 'u go_codec" where
  "ProtoCodec message marshal unmarshal =
     \<lparr>cdc_Name = ''proto'', cdc_ContentType = ''application/x-protobuf'',
      cdc_Marshal = (\<lambda>v. case v of
          OtherVal u \<Rightarrow> if message u then marshal u else Inl (Err ''proto codec: value must implement proto.Message'')
        | _ \<Rightarrow> Inl (Err ''proto codec: value must implement proto.Message'')),
      cdc_Unmarshal = (\<lambda>data tg. case tg of
          ToOther u \<Rightarrow> if message u then map_sum id OtherVal (unmarshal data u)
                       else Inl (Err ''proto codec: target must implement proto.Message'')
        | _ \<Rightarrow> Inl (Err ''proto codec: target must implement proto.Message''))\<rparr>"

definition raw_Marshal :: "'u val \<Rightarrow> string result" where
  "raw_Marshal v =
     (case v of
        RawBytes b \<Rightarrow> Inr b
      | RawString s \<Rightarrow> Inr s
      | RawBytesPtr p \<Rightarrow> Inr (case p of Some b \<Rightarrow> b | None \<Rightarrow> [])
      | OtherVal _ \<Rightarrow> Inl (Err ''raw codec: value must be []byte or string''))"

definition raw_Unmarshal :: "string \<Rightarrow> 'u target \<Rightarrow> 'u val result" where
  "raw_Unmarshal data tg =
     (case tg of
        ToBytes \<Rightarrow> Inr (RawBytes data)
      | ToString \<Rightarrow> Inr (RawString data)
      | ToOther _ \<Rightarrow> Inl (Err ''raw codec: target must be *[]byte or *string''))"

definition RawCodec :: "'u go_codec" where
  "RawCodec =
     \<lparr>cdc_Name = ''raw'', cdc_ContentType = ''application/octet-stream'', cdc_Marshal = raw_Marshal, cdc_Unmarshal = raw_Unmarshal\<rparr>"

section \<open>The contract of a codec\<close>

text \<open>
  What the users of a codec rely on: a value that it encodes and that fits a target is what decoding into
  the target gives back.  \<open>fits v tg v'\<close>: \<open>v'\<close> is the value \<open>v\<close> as the target holds it.
\<close>

locale codec_contract =
  fixes marshal :: "'v \<Rightarrow> string result"
    and unmarshal :: "string \<Rightarrow> 't \<Rightarrow> 'v result"
    and fits :: "'v \<Rightarrow> 't \<Rightarrow> 'v \<Rightarrow> bool"
  assumes round_trip: "fits v tg v' \<Longrightarrow> marshal v = Inr d \<Longrightarrow> unmarshal d tg = Inr v'"
begin

lemma fits_unique: "fits v tg v1 \<Longrightarrow> fits v tg v2 \<Longrightarrow> marshal v = Inr d \<Longrightarrow> v1 = v2"
  by (drule (1) round_trip, drule (1) round_trip, simp)

lemma resend: "fits v tg v' \<Longrightarrow> marshal v = Inr d \<Longrightarrow> fits v' tg v'' \<Longrightarrow> marshal v' = Inr d' \<Longrightarrow>
    unmarshal d tg = Inr v' \<and> unmarshal d' tg = Inr v''"
  by (simp add: round_trip)

end

text \<open>The bytes of a value the raw codec takes, in the form the target asks for.\<close>

fun raw_fits :: "'u val \<Rightarrow> 'u target \<Rightarrow> 'u val \<Rightarrow> bool" where
  "raw_fits v ToBytes v' \<longleftrightarrow> (\<exists>d. raw_Marshal v = Inr d \<and> v' = RawBytes d)"
| "raw_fits v ToString v' \<longleftrightarrow> (\<exists>d. raw_Marshal v = Inr d \<and> v' = RawString d)"
| "raw_fits v (ToOther _) v' \<longleftrightarrow> False"

lemma raw_fits_back: "raw_fits v tg v' \<Longrightarrow> raw_Marshal v = Inr d \<Longrightarrow> raw_Unmarshal d tg = Inr v'"
  by (cases tg) (auto simp: raw_Unmarshal_def)

interpretation raw_codec: codec_contract raw_Marshal raw_Unmarshal raw_fits
  by (rule codec_contract.intro, rule raw_fits_back)

text \<open>
  Bytes and strings go through the raw codec unchanged, whatever they contain, into bytes and into strings;
  every other value, and every other target, is refused.
\<close>

theorem raw_codec_round_trip:
  "cdc_Marshal RawCodec (RawBytes d) = Inr d \<and> cdc_Marshal RawCodec (RawString d) = Inr d \<and>
   cdc_Unmarshal RawCodec d ToBytes = Inr (RawBytes d) \<and> cdc_Unmarshal RawCodec d ToString = Inr (RawString d) \<and>
   isl (cdc_Marshal RawCodec (OtherVal u)) \<and> isl (cdc_Unmarshal RawCodec d (ToOther u))"
proof -
  have bytes: "raw_Marshal (RawBytes d) = Inr d" by (simp add: raw_Marshal_def)
  have "raw_Unmarshal d ToBytes = Inr (RawBytes d)" "raw_Unmarshal d ToString = Inr (RawString d)"
    by (rule raw_codec.round_trip [OF _ bytes], simp add: bytes)+
  then show ?thesis by (simp add: RawCodec_def) (simp add: raw_Marshal_def raw_Unmarshal_def)
qed

end
