(* ===== verification/ColorPrint.thy ===== *)
theory ColorPrint
  imports GoStrings
begin

text \<open>
  Coloured output on a console (\<open>util/colorprint\<close>).  \<open>linux.go\<close> and \<open>darwin.go\<close> are the same code: what
  they write to the standard output.  \<open>windows.go\<close> calls the system: the calls it makes, in order.
\<close>

section \<open>The palette\<close>

record Color =
  Black :: int
  Blue :: int
  Green :: int
  Cyan :: int
  Red :: int
  Purple :: int
  Yellow :: int
  LightGray :: int
  Gray :: int
  LightBlue :: int
  LightGreen :: int
  LightCyan :: int
  LightRed :: int
  LightPurple :: int
  LightYellow :: int
  White :: int

definition FontColor :: Color where
  "FontColor =
     \<lparr>Black = 0, Blue = 1, Green = 2, Cyan = 3, Red = 4, Purple = 5, Yellow = 6, LightGray = 7, Gray = 8,
      LightBlue = 9, LightGreen = 10, LightCyan = 11, LightRed = 12, LightPurple = 13, LightYellow = 14,
      White = 15\<rparr>"

section \<open>Linux and macOS\<close>

definition escape :: string where
  "escape = [CHR 0x1B]"

definition ColorPrint :: "string \<Rightarrow> int \<Rightarrow> string" where
  "ColorPrint s i =
     (if i = Yellow FontColor then escape @ ''[0;40;33m'' @ s @ escape @ ''[0m''
      else if i = Red FontColor then escape @ ''[0;40;31m'' @ s @ escape @ ''[0m''
      else if i = LightRed FontColor then escape @ ''[1;40;31m'' @ s @ escape @ ''[0m''
      else s)"

section \<open>Windows\<close>

text \<open>
  \<open>proc.Call\<close> returns the result of \<open>SetConsoleTextAttribute\<close>, which the code takes for a handle and gives
  to \<open>CloseHandle\<close>; the built-in \<open>print\<close> writes to the standard error.
\<close>

datatype console_effect = SetConsoleTextAttribute int int | Print string | CloseHandle int

definition ColorPrint_windows :: "(int \<Rightarrow> int \<Rightarrow> int) \<Rightarrow> int \<Rightarrow> string \<Rightarrow> int \<Rightarrow> console_effect list" where
  "ColorPrint_windows set_attribute stdout s i =
     [SetConsoleTextAttribute stdout i, Print s, CloseHandle (set_attribute stdout i)]"

section \<open>Properties\<close>

text \<open>Only three of the sixteen colours of the palette change what is printed.\<close>

theorem most_colours_print_plain: "ColorPrint s i = s \<longleftrightarrow> i \<notin> {Yellow FontColor, Red FontColor, LightRed FontColor}"
proof -
  have "x @ s @ y \<noteq> s" if "x \<noteq> []" for x y :: string
  proof
    assume "x @ s @ y = s"
    then have "length (x @ s @ y) = length s" by simp
    with that show False by simp
  qed
  from this [of "escape @ c" "escape @ d" for c d] show ?thesis
    by (auto simp: ColorPrint_def escape_def FontColor_def)
qed

end
