(* ===== verification/GoFloat.thy ===== *)
theory GoFloat
  imports Complex_Main Prelude
begin

text \<open>
  Go's \<open>float64\<close>: a value is a real number, and every arithmetic operation is the exact one
  followed by \<open>float64\<close>, the rounding of IEEE 754 binary64 to nearest, ties to even, subnormal
  numbers included (overflow to infinity and NaN are not modelled).  What the limiter and the
  metrics need of a rounding is the locale \<open>rounding\<close>, interpreted here on \<open>float64\<close> and on the
  identity, the exact arithmetic their ideal behaviour is stated for.
\<close>

section \<open>Rounding to nearest, ties to even\<close>

definition round_even :: "real \<Rightarrow> int" where
  "round_even x =
     (let f = \<lfloor>x\<rfloor>; d = x - of_int f
      in if d < 1 / 2 then f else if 1 / 2 < d then f + 1 else if even f then f else f + 1)"

lemma round_even_of_int [simp]: "round_even (of_int n) = n"
  by (simp add: round_even_def)

lemma round_even_bounds: "\<lfloor>x\<rfloor> \<le> round_even x" "round_even x \<le> \<lfloor>x\<rfloor> + 1"
  by (auto simp: round_even_def Let_def)

lemma round_even_mono:
  assumes "x \<le> y"
  shows "round_even x \<le> round_even y"
proof (cases "\<lfloor>x\<rfloor> = \<lfloor>y\<rfloor>")
  case True
  with assms show ?thesis by (auto simp: round_even_def Let_def)
next
  case False
  with assms have "\<lfloor>x\<rfloor> + 1 \<le> \<lfloor>y\<rfloor>" using floor_mono [OF assms] by linarith
  then show ?thesis using round_even_bounds(2) [of x] round_even_bounds(1) [of y] by linarith
qed

section \<open>The exponent and the rounding of binary64\<close>

text \<open>
  The weight of the last bit of a number is a power of two: 53 bits below the leading one, and
  never below \<open>2^-1074\<close>.
\<close>

definition ulp_exp :: "real \<Rightarrow> int" where
  "ulp_exp x = max (- 1074) (\<lfloor>log 2 \<bar>x\<bar>\<rfloor> - 52)"

definition ulp :: "real \<Rightarrow> real" where
  "ulp x = 2 powr (real_of_int (ulp_exp x))"

definition float64 :: "real \<Rightarrow> real" where
  "float64 x = (if x = 0 then 0 else of_int (round_even (x / ulp x)) * ulp x)"

lemma ulp_pos [simp]: "0 < ulp x"
  by (simp add: ulp_def)

lemma ulp_nonneg [simp]: "0 \<le> ulp x"
  by (rule less_imp_le) (rule ulp_pos)

lemma ulp_nonzero [simp]: "ulp x \<noteq> 0"
  using ulp_pos [of x] by linarith

lemma div_ulp_nonneg: "0 \<le> x \<Longrightarrow> 0 \<le> x / ulp x"
  by (rule divide_nonneg_nonneg) (simp_all add: less_imp_le)

lemma float64_0 [simp]: "float64 0 = 0"
  by (simp add: float64_def)

lemma round_even_uminus: "round_even (- x) = - round_even x"
proof (cases "x = of_int \<lfloor>x\<rfloor>")
  case True
  then have "round_even (- x) = round_even (of_int (- \<lfloor>x\<rfloor>))" "round_even x = round_even (of_int \<lfloor>x\<rfloor>)"
    by simp_all
  then show ?thesis unfolding round_even_of_int by simp
next
  case False
  then have "\<lfloor>- x\<rfloor> = - \<lfloor>x\<rfloor> - 1" by linarith
  with False show ?thesis by (auto simp: round_even_def Let_def)
qed

lemma float64_uminus: "float64 (- x) = - float64 x"
  by (simp add: float64_def ulp_def ulp_exp_def round_even_uminus)

lemma ulp_exp_mono:
  assumes "0 < x" "x \<le> y"
  shows "ulp_exp x \<le> ulp_exp y"
proof -
  have "log 2 \<bar>x\<bar> \<le> log 2 \<bar>y\<bar>" using assms by (simp add: log_le_cancel_iff)
  then show ?thesis unfolding ulp_exp_def by (intro max.mono diff_mono floor_mono order_refl)
qed

text \<open>A positive number is below \<open>2^53\<close> units in its last place.\<close>

lemma ulp_upper: "0 < x \<Longrightarrow> x < 2 ^ 53 * ulp x"
proof -
  assume x: "0 < x"
  have "log 2 x < real_of_int (\<lfloor>log 2 x\<rfloor> + 1)" by linarith
  also have "\<dots> \<le> 53 + real_of_int (ulp_exp x)" using x by (simp add: ulp_exp_def)
  finally have "2 powr log 2 x < 2 powr (53 + real_of_int (ulp_exp x))" by simp
  also have "\<dots> = 2 ^ 53 * ulp x" by (simp add: powr_add ulp_def powr_numeral)
  finally show ?thesis using x by simp
qed

text \<open>A number whose last place is above the least one has its full 53 bits.\<close>

lemma ulp_lower: "0 < y \<Longrightarrow> - 1074 < ulp_exp y \<Longrightarrow> 2 ^ 52 * ulp y \<le> y"
proof -
  assume y: "0 < y" and e: "- 1074 < ulp_exp y"
  then have "real_of_int (ulp_exp y) + 52 = real_of_int \<lfloor>log 2 y\<rfloor>" by (auto simp: ulp_exp_def)
  then have "2 powr (52 + real_of_int (ulp_exp y)) \<le> 2 powr log 2 y" by (simp add: add.commute)
  then show ?thesis using y by (simp add: powr_add ulp_def powr_numeral)
qed

lemma float64_le_pow: "0 < x \<Longrightarrow> float64 x \<le> 2 ^ 53 * ulp x"
proof -
  assume x: "0 < x"
  have "x / ulp x \<le> of_int (2 ^ 53)" using ulp_upper [OF x] by (simp add: field_simps)
  then have "round_even (x / ulp x) \<le> 2 ^ 53" using round_even_mono round_even_of_int by metis
  then have "real_of_int (round_even (x / ulp x)) \<le> real_of_int (2 ^ 53)" by (simp only: of_int_le_iff)
  then show ?thesis using x by (simp add: float64_def)
qed

lemma float64_ge_pow: "0 < y \<Longrightarrow> - 1074 < ulp_exp y \<Longrightarrow> 2 ^ 52 * ulp y \<le> float64 y"
proof -
  assume y: "0 < y" and e: "- 1074 < ulp_exp y"
  have "of_int (2 ^ 52) \<le> y / ulp y" using ulp_lower [OF y e] by (simp add: field_simps)
  then have "2 ^ 52 \<le> round_even (y / ulp y)" using round_even_mono round_even_of_int by metis
  then have "real_of_int (2 ^ 52) \<le> real_of_int (round_even (y / ulp y))" by (simp only: of_int_le_iff)
  then show ?thesis using y by (simp add: float64_def)
qed

lemma float64_nonneg: "0 \<le> x \<Longrightarrow> 0 \<le> float64 x"
proof -
  assume x: "0 \<le> x"
  have "round_even (of_int 0) \<le> round_even (x / ulp x)"
    using div_ulp_nonneg [OF x] by (intro round_even_mono) simp
  then have "0 \<le> real_of_int (round_even (x / ulp x))" unfolding round_even_of_int by simp
  then have "0 \<le> of_int (round_even (x / ulp x)) * ulp x" using ulp_pos [of x] by (intro mult_nonneg_nonneg) auto
  then show ?thesis by (simp add: float64_def)
qed

lemma float64_mono_pos:
  assumes "0 < x" "x \<le> y"
  shows "float64 x \<le> float64 y"
proof (cases "ulp_exp x = ulp_exp y")
  case True
  then have u: "ulp x = ulp y" by (simp add: ulp_def)
  have "round_even (x / ulp y) \<le> round_even (y / ulp y)"
    by (rule round_even_mono, rule divide_right_mono [OF assms(2) less_imp_le [OF ulp_pos]])
  then show ?thesis using assms by (simp add: float64_def u)
next
  case False
  with ulp_exp_mono [OF assms] have lt: "ulp_exp x + 1 \<le> ulp_exp y" by simp
  have y: "0 < y" "- 1074 < ulp_exp y" using assms lt by (auto simp: ulp_exp_def)
  have "2 powr (real_of_int (ulp_exp x) + 1) \<le> 2 powr (real_of_int (ulp_exp y))"
    using lt by (simp del: of_int_add add: of_int_add [symmetric])
  then have "2 * ulp x \<le> ulp y" by (simp add: ulp_def powr_add)
  then have "2 ^ 53 * ulp x \<le> 2 ^ 52 * ulp y" by simp
  with float64_le_pow [OF assms(1)] float64_ge_pow [OF y] show ?thesis by linarith
qed

lemma float64_mono: "x \<le> y \<Longrightarrow> float64 x \<le> float64 y"
proof -
  assume le: "x \<le> y"
  consider "0 < x" | "x \<le> 0" "0 \<le> y" | "y < 0" using le by linarith
  then show ?thesis
  proof cases
    case 1
    then show ?thesis using le by (rule float64_mono_pos)
  next
    case 2
    have "float64 x \<le> 0" using float64_nonneg [of "- x"] 2 by (simp add: float64_uminus)
    then show ?thesis using float64_nonneg [OF 2(2)] by linarith
  next
    case 3
    then have "float64 (- y) \<le> float64 (- x)" using le by (intro float64_mono_pos) auto
    then show ?thesis by (simp add: float64_uminus)
  qed
qed

section \<open>Values binary64 represents exactly\<close>

lemma float64_exact_lt:
  assumes x: "x = of_int m * 2 powr real_of_int e" and m: "0 < m" "m < 2 ^ 53" and e: "- 1074 \<le> e"
  shows "float64 x = x"
proof -
  have pos: "0 < x" using m x by simp
  have "real_of_int m < real_of_int (2 ^ 53)" using m(2) by (simp only: of_int_less_iff)
  then have "x < 2 ^ 53 * 2 powr real_of_int e" using x by simp
  also have "\<dots> = 2 powr (53 + real_of_int e)" by (simp add: powr_add powr_numeral)
  finally have "log 2 x < real_of_int (53 + e)" using pos by (simp add: log_less_iff)
  then have "\<lfloor>log 2 x\<rfloor> < 53 + e" by (simp add: floor_less_iff)
  then have u: "ulp_exp x \<le> e" using pos e by (simp add: ulp_exp_def)
  define k where "k = nat (e - ulp_exp x)"
  have "real_of_int e = real k + real_of_int (ulp_exp x)" using u by (simp add: k_def)
  then have "2 powr real_of_int e = 2 ^ k * ulp x"
    by (simp add: ulp_def powr_add powr_realpow)
  then have "x = of_int (m * 2 ^ k) * ulp x" using x by (metis mult.assoc of_int_mult of_int_numeral of_int_power)
  then have q: "x / ulp x = of_int (m * 2 ^ k)" using ulp_pos [of x] by (metis nonzero_mult_div_cancel_right less_irrefl ulp_pos)
  have "float64 x = of_int (round_even (x / ulp x)) * ulp x" using pos by (simp add: float64_def)
  also have "\<dots> = of_int (m * 2 ^ k) * ulp x" unfolding q round_even_of_int ..
  also have "\<dots> = x" unfolding q [symmetric] using ulp_pos [of x] by simp
  finally show ?thesis .
qed

lemma float64_exact_pos:
  assumes x: "x = of_int m * 2 powr real_of_int e" and m: "0 < m" "m \<le> 2 ^ 53" and e: "- 1074 \<le> e"
  shows "float64 x = x"
proof (cases "m = 2 ^ 53")
  case True
  then have "x = of_int 1 * 2 powr real_of_int (e + 53)" using x by (simp add: powr_add powr_numeral)
  then show ?thesis using e by (intro float64_exact_lt [of x 1 "e + 53"]) auto
next
  case False
  with m have "m < 2 ^ 53" by simp
  with x m(1) e show ?thesis by (intro float64_exact_lt)
qed

lemma float64_exact:
  assumes x: "x = of_int m * 2 powr real_of_int e" and m: "\<bar>m\<bar> \<le> 2 ^ 53" and e: "- 1074 \<le> e"
  shows "float64 x = x"
proof -
  consider "m = 0" | "0 < m" | "m < 0" by linarith
  then show ?thesis
  proof cases
    case 1
    then show ?thesis using x by simp
  next
    case 2
    then show ?thesis using x m e by (intro float64_exact_pos) auto
  next
    case 3
    then have "float64 (- x) = - x" using x m e by (intro float64_exact_pos [of _ "- m"]) auto
    then show ?thesis by (simp add: float64_uminus)
  qed
qed

lemma float64_of_int: "\<bar>n\<bar> \<le> 2 ^ 53 \<Longrightarrow> float64 (of_int n) = of_int n"
  by (rule float64_exact [of _ n 0]) auto

lemma round_even_float_bound: "0 < x \<Longrightarrow> \<bar>round_even (x / ulp x)\<bar> \<le> 2 ^ 53"
proof -
  assume x: "0 < x"
  have "x / ulp x \<le> of_int (2 ^ 53)" using ulp_upper [OF x] by (simp add: field_simps)
  then have "round_even (x / ulp x) \<le> 2 ^ 53" using round_even_mono round_even_of_int by metis
  moreover have "round_even (of_int 0) \<le> round_even (x / ulp x)"
    using div_ulp_nonneg [of x] x by (intro round_even_mono) simp
  ultimately show ?thesis unfolding round_even_of_int by simp
qed

lemma float64_idem [simp]: "float64 (float64 x) = float64 x"
proof -
  have pos: "float64 (float64 y) = float64 y" if "0 < y" for y
    by (rule float64_exact [of _ "round_even (y / ulp y)" "ulp_exp y"])
      (use that round_even_float_bound [OF that] in \<open>simp_all add: float64_def ulp_def ulp_exp_def\<close>)
  consider "x = 0" | "0 < x" | "0 < - x" by linarith
  then show ?thesis
  proof cases
    case 3
    then show ?thesis using pos [OF 3] by (simp add: float64_uminus)
  qed (use pos in simp_all)
qed

section \<open>The contract of a rounding\<close>

locale rounding =
  fixes rnd :: "real \<Rightarrow> real"
  assumes rnd_mono: "x \<le> y \<Longrightarrow> rnd x \<le> rnd y"
    and rnd_idem: "rnd (rnd x) = rnd x"
    and rnd_int: "\<bar>n\<bar> \<le> 2 ^ 53 \<Longrightarrow> rnd (of_int n) = of_int n"
begin

lemma rnd_0: "rnd 0 = 0"
  using rnd_int [of 0] by simp

lemma rnd_1: "rnd 1 = 1"
  using rnd_int [of 1] by simp

lemma rnd_nonneg: "0 \<le> x \<Longrightarrow> 0 \<le> rnd x"
  using rnd_mono [of 0 x] by (simp add: rnd_0)

text \<open>Subtracting does not grow a representable value, and does not pass below zero.\<close>

lemma rnd_minus_le: "rnd x = x \<Longrightarrow> 0 \<le> y \<Longrightarrow> rnd (x - y) \<le> x"
  using rnd_mono [of "x - y" x] by simp

lemma rnd_plus_ge: "rnd x = x \<Longrightarrow> 0 \<le> y \<Longrightarrow> x \<le> rnd (x + y)"
  using rnd_mono [of x "x + y"] by simp

end

interpretation ieee: rounding float64
  by unfold_locales (auto intro: float64_mono float64_of_int)

interpretation exact_arith: rounding "\<lambda>x. x"
  by unfold_locales auto

text \<open>The conversion of a float to an integer drops the fraction.\<close>

definition float_to_int :: "real \<Rightarrow> int" where
  "float_to_int x = (if x \<ge> 0 then \<lfloor>x\<rfloor> else \<lceil>x\<rceil>)"

section \<open>\<open>time.Duration.Seconds\<close>\<close>

text \<open>Whole seconds and the remainder are converted separately; Go's division truncates.\<close>

definition go_quot :: "int \<Rightarrow> int \<Rightarrow> int" where
  "go_quot a b = sgn a * sgn b * (\<bar>a\<bar> div \<bar>b\<bar>)"

definition go_rem :: "int \<Rightarrow> int \<Rightarrow> int" where
  "go_rem a b = a - b * go_quot a b"

definition Seconds :: "(real \<Rightarrow> real) \<Rightarrow> duration \<Rightarrow> real" where
  "Seconds rnd d =
     rnd (rnd (of_int (go_quot d second)) + rnd (rnd (of_int (go_rem d second)) / 1000000000))"

lemma go_quot_rem:
  "b \<noteq> 0 \<Longrightarrow> real_of_int (go_quot a b) + of_int (go_rem a b) / of_int b = of_int a / of_int b"
  by (simp add: go_rem_def field_simps)

lemma Seconds_exact: "Seconds (\<lambda>x. x) d = of_int d / 1000000000"
  using go_quot_rem [of second d] unfolding Seconds_def by simp

lemma go_rem_nonneg: "0 \<le> a \<Longrightarrow> 0 < b \<Longrightarrow> 0 \<le> go_rem a b"
  by (cases "a = 0") (simp_all add: go_rem_def go_quot_def sgn_if minus_mult_div_eq_mod)

lemma go_quot_nonneg: "0 \<le> a \<Longrightarrow> 0 < b \<Longrightarrow> 0 \<le> go_quot a b"
  by (simp add: go_quot_def sgn_if pos_imp_zdiv_nonneg_iff)

context rounding
begin

lemma Seconds_nonneg: "0 \<le> d \<Longrightarrow> 0 \<le> Seconds rnd d"
proof -
  assume d: "0 \<le> d"
  have "0 \<le> go_quot d second" by (rule go_quot_nonneg [OF d]) simp
  moreover have "0 \<le> go_rem d second" by (rule go_rem_nonneg [OF d]) simp
  ultimately show "0 \<le> Seconds rnd d" unfolding Seconds_def
    by (intro rnd_nonneg add_nonneg_nonneg divide_nonneg_nonneg) simp_all
qed

lemma go_quot_0 [simp]: "go_quot 0 b = 0" and go_rem_0 [simp]: "go_rem 0 b = 0"
  by (simp_all add: go_quot_def go_rem_def)

lemma Seconds_0 [simp]: "Seconds rnd 0 = 0"
  unfolding Seconds_def go_quot_0 go_rem_0 by (simp add: rnd_0)

end

end
