(* ===== verification/Config.thy ===== *)
theory Config
  imports GoStrings GoFloat
begin

text \<open>
  The configuration (\<open>config\<close>): layers of sources merged into one tree, values looked up by dotted
  keys through a cache, accessors, the environment and file sources, and watching.  The JSON and YAML
  decoders, the file system and the file watcher's notifications are arguments.
\<close>

section \<open>Trees\<close>

text \<open>What a decoder puts into a \<open>map[string]any\<close>.\<close>

datatype cval =
    VNull | VBool bool | VInt int | VInt64 int | VFloat real | VStr string | VBytes string
  | VList "cval list" | VMap "string \<Rightarrow> cval option"

type_synonym cmap = "string \<Rightarrow> cval option"

text \<open>
  \<open>mergeMaps\<close>.  \<open>merge_val v old\<close> is what is stored for a key whose value in the source is \<open>v\<close> and was \<open>old\<close>
  in the destination: maps are merged, everything else is replaced.  The keys are independent, so the
  order in which the range meets them does not matter.
\<close>

primrec merge_val :: "cval \<Rightarrow> cval option \<Rightarrow> cval" where
  "merge_val VNull = (\<lambda>old. VNull)"
| "merge_val (VBool b) = (\<lambda>old. VBool b)"
| "merge_val (VInt i) = (\<lambda>old. VInt i)"
| "merge_val (VInt64 i) = (\<lambda>old. VInt64 i)"
| "merge_val (VFloat x) = (\<lambda>old. VFloat x)"
| "merge_val (VStr t) = (\<lambda>old. VStr t)"
| "merge_val (VBytes t) = (\<lambda>old. VBytes t)"
| "merge_val (VList vs) = (\<lambda>old. VList vs)"
| "merge_val (VMap m) = (\<lambda>old. case old of
       Some (VMap d) \<Rightarrow> VMap (\<lambda>k. case (map_option merge_val \<circ> m) k of None \<Rightarrow> d k | Some f \<Rightarrow> Some (f (d k)))
     | _ \<Rightarrow> VMap m)"

definition mergeMaps :: "cmap \<Rightarrow> cmap \<Rightarrow> cmap" where
  "mergeMaps dst src = (\<lambda>k. case src k of None \<Rightarrow> dst k | Some v \<Rightarrow> Some (merge_val v (dst k)))"

lemma merge_maps [simp]: "merge_val (VMap m) (Some (VMap d)) = VMap (mergeMaps d m)"
  by (simp add: mergeMaps_def fun_eq_iff split: option.splits)

fun is_map :: "cval \<Rightarrow> bool" where
  "is_map (VMap m) = True"
| "is_map _ = False"

lemma merge_not_map [simp]: "\<not> is_map v \<Longrightarrow> merge_val v old = v"
  by (cases v) simp_all

lemma merge_onto_nothing [simp]: "merge_val v None = v"
  by (cases v) simp_all

text \<open>\<open>getValue\<close>: down the maps, a nil on the way ends the search.\<close>

fun walk :: "string list \<Rightarrow> cval \<Rightarrow> cval option" where
  "walk [] current = Some current"
| "walk (part # parts) (VMap m) =
     (case m part of None \<Rightarrow> None | Some VNull \<Rightarrow> None | Some v \<Rightarrow> walk parts v)"
| "walk (part # parts) _ = None"

definition dot :: char where "dot = CHR ''.''"

definition getValue :: "string \<Rightarrow> cmap \<Rightarrow> cval option" where
  "getValue key data = walk (split_on dot key) (VMap data)"

section \<open>Sources and decoders\<close>

record key_value =
  kv_Key :: string
  kv_Value :: string
  kv_Format :: string

text \<open>\<open>json.Unmarshal\<close> and \<open>yaml.Unmarshal\<close> into a map: an error, and the map as they leave it.\<close>

record decoders =
  dc_json :: "string \<Rightarrow> cmap \<Rightarrow> go_error option \<times> cmap"
  dc_yaml :: "string \<Rightarrow> cmap \<Rightarrow> go_error option \<times> cmap"

type_synonym decoder = "key_value \<Rightarrow> cmap \<Rightarrow> go_error option \<times> cmap"

definition no_keys :: cmap where "no_keys = (\<lambda>_. None)"

definition defaultDecoder :: "decoders \<Rightarrow> decoder" where
  "defaultDecoder dc kv data =
     (let (err, parsed) =
        (if kv_Format kv = ''json'' then
           (case dc_json dc (kv_Value kv) no_keys of
              (Some e, p) \<Rightarrow> (Some (Wrap ''json decode error'' e), p) | (None, p) \<Rightarrow> (None, p))
         else if kv_Format kv = ''yaml'' \<or> kv_Format kv = ''yml'' then
           (case dc_yaml dc (kv_Value kv) no_keys of
              (Some e, p) \<Rightarrow> (Some (Wrap ''yaml decode error'' e), p) | (None, p) \<Rightarrow> (None, p))
         else
           (case dc_yaml dc (kv_Value kv) no_keys of
              (Some _, p) \<Rightarrow>
                (case dc_json dc (kv_Value kv) p of
                   (Some _, p') \<Rightarrow> (Some (Err ''decode error: unknown format''), p') | (None, p') \<Rightarrow> (None, p'))
            | (None, p) \<Rightarrow> (None, p)))
      in case err of Some e \<Rightarrow> (Some e, data) | None \<Rightarrow> (None, mergeMaps data parsed))"

text \<open>A source reads the outside world \<open>'w\<close>; \<open>so_watchable\<close> tells whether its \<open>Watch\<close> gives a watcher.\<close>

record 'w source =
  so_Load :: "'w \<Rightarrow> key_value list result"
  so_watchable :: "'w \<Rightarrow> bool result"

record 'w config =
  cf_sources :: "'w source list"
  cf_decoder :: decoder
  cf_resolver :: "(cmap \<Rightarrow> go_error option \<times> cmap) option"
  cf_data :: cmap
  cf_cached :: "string \<Rightarrow> cval option"
  cf_observers :: "string \<Rightarrow> nat list option"
  cf_watchers :: "nat list"  \<comment> \<open>the sources watched, one entry per watcher\<close>

datatype 'w config_option =
  CfWithSource "'w source list" | CfWithDecoder decoder | CfWithResolver "cmap \<Rightarrow> go_error option \<times> cmap"

fun apply_config_option :: "'w config_option \<Rightarrow> 'w config \<Rightarrow> 'w config" where
  "apply_config_option (CfWithSource ss) c = c\<lparr>cf_sources := cf_sources c @ ss\<rparr>"
| "apply_config_option (CfWithDecoder d) c = c\<lparr>cf_decoder := d\<rparr>"
| "apply_config_option (CfWithResolver r) c = c\<lparr>cf_resolver := Some r\<rparr>"

definition config_New :: "decoders \<Rightarrow> 'w config_option list \<Rightarrow> 'w config" where
  "config_New dc os = fold apply_config_option os
     \<lparr>cf_sources = [], cf_decoder = defaultDecoder dc, cf_resolver = None, cf_data = no_keys, cf_cached = (\<lambda>_. None),
      cf_observers = (\<lambda>_. None), cf_watchers = []\<rparr>"

section \<open>Loading\<close>

fun decode_all :: "decoder \<Rightarrow> key_value list \<Rightarrow> cmap \<Rightarrow> go_error option \<times> cmap" where
  "decode_all d [] data = (None, data)"
| "decode_all d (kv # kvs) data =
     (case d kv data of (Some err, data') \<Rightarrow> (Some err, data') | (None, data') \<Rightarrow> decode_all d kvs data')"

fun load_sources :: "'w \<Rightarrow> decoder \<Rightarrow> 'w source list \<Rightarrow> cmap \<Rightarrow> go_error option \<times> cmap" where
  "load_sources w d [] data = (None, data)"
| "load_sources w d (src # srcs) data =
     (case so_Load src w of
        Inl err \<Rightarrow> (Some err, data)
      | Inr kvs \<Rightarrow>
          (case decode_all d kvs data of
             (Some err, data') \<Rightarrow> (Some err, data') | (None, data') \<Rightarrow> load_sources w d srcs data'))"

definition config_Load :: "'w \<Rightarrow> 'w config \<Rightarrow> go_error option \<times> 'w config" where
  "config_Load w c =
     (case load_sources w (cf_decoder c) (cf_sources c) (cf_data c) of
        (Some err, data) \<Rightarrow> (Some err, c\<lparr>cf_data := data\<rparr>)
      | (None, data) \<Rightarrow>
          (case cf_resolver c of
             None \<Rightarrow> (None, c\<lparr>cf_data := data\<rparr>)
           | Some r \<Rightarrow> (let (err, data') = r data in (err, c\<lparr>cf_data := data'\<rparr>))))"

definition MustLoad :: "'w \<Rightarrow> 'w config \<Rightarrow> 'w config outcome" where
  "MustLoad w c = (case config_Load w c of (Some err, _) \<Rightarrow> Panicked (error_text err) | (None, c') \<Rightarrow> Ret c')"

text \<open>
  \<open>Value\<close>: \<open>None\<close> is the nil value.  A value that is found is cached for good.  (In the code a cached map
  is shared with the tree and sees the keys merged into it later; the cache of the model is exact for
  the values that are not maps.)
\<close>

definition config_Value :: "string \<Rightarrow> 'w config \<Rightarrow> cval option \<times> 'w config" where
  "config_Value key c =
     (case cf_cached c key of
        Some v \<Rightarrow> (Some v, c)
      | None \<Rightarrow>
          (case getValue key (cf_data c) of
             None \<Rightarrow> (None, c)
           | Some v \<Rightarrow> (Some v, c\<lparr>cf_cached := (cf_cached c)(key \<mapsto> v)\<rparr>)))"

section \<open>Sources in contexts\<close>

text \<open>
  A context as the values put into it, the newest first.  The key is the unexported type
  \<open>sourceContext\<close>, so only this package can store under it; other keys and values are opaque.
\<close>

datatype context_key = SourceContextKey | OtherKey nat

datatype 'w context_value = CtxSource "'w source" | CtxOther nat

type_synonym 'w go_context = "(context_key \<times> 'w context_value) list"

definition WithSourceContext :: "'w go_context \<Rightarrow> 'w source \<Rightarrow> 'w go_context" where
  "WithSourceContext ctx src = (SourceContextKey, CtxSource src) # ctx"

definition SourceFromContext :: "'w go_context \<Rightarrow> 'w source option \<times> bool" where
  "SourceFromContext ctx =
     (case map_of ctx SourceContextKey of Some (CtxSource src) \<Rightarrow> (Some src, True) | _ \<Rightarrow> (None, False))"

lemma source_context_round_trip:
  "SourceFromContext (WithSourceContext ctx src) = (Some src, True)"
  by (simp add: SourceFromContext_def WithSourceContext_def)

section \<open>Accessors\<close>

text \<open>
  What the accessors use of the library: the rest of \<open>float64\<close> conversion (\<open>fc_wide\<close>: to \<open>int64\<close> out of
  range, left to the implementation), parsing and printing.
\<close>

record conversions =
  fc_wide :: "real \<Rightarrow> int"
  fc_parse_float :: "string \<Rightarrow> real result"
  fc_parse_duration :: "string \<Rightarrow> int result"
  fc_print :: "cval \<Rightarrow> string"
  fc_type :: "cval \<Rightarrow> string"

definition parse_bool :: "string \<Rightarrow> bool result" where
  "parse_bool t =
     (if t \<in> {''1'', ''t'', ''T'', ''true'', ''TRUE'', ''True''} then Inr True
      else if t \<in> {''0'', ''f'', ''F'', ''false'', ''FALSE'', ''False''} then Inr False
      else Inl ErrSyntax)"

definition cannot :: "conversions \<Rightarrow> string \<Rightarrow> cval \<Rightarrow> 'a result" where
  "cannot cv target v = Inl (Err (''cannot convert '' @ fc_type cv v @ '' to '' @ target))"

text \<open>\<open>reflect.Value.Float\<close> panics on a value whose kind is not a float.\<close>

definition av_Bool :: "conversions \<Rightarrow> cval \<Rightarrow> bool result outcome" where
  "av_Bool cv v =
     (case v of
        VBool b \<Rightarrow> Ret (Inr b)
      | VStr t \<Rightarrow> Ret (parse_bool t)
      | VInt i \<Rightarrow> Panicked ''reflect: call of reflect.Value.Float on int Value''
      | VInt64 i \<Rightarrow> Panicked ''reflect: call of reflect.Value.Float on int64 Value''
      | VFloat x \<Rightarrow> Ret (Inr (x \<noteq> 0))
      | _ \<Rightarrow> Ret (cannot cv ''bool'' v))"

definition av_Int :: "conversions \<Rightarrow> cval \<Rightarrow> int result" where
  "av_Int cv v =
     (case v of
        VInt i \<Rightarrow> Inr i
      | VInt64 i \<Rightarrow> Inr i
      | VFloat x \<Rightarrow> Inr (if in_int64 (float_to_int x) then float_to_int x else fc_wide cv x)
      | VStr t \<Rightarrow> atoi t
      | _ \<Rightarrow> cannot cv ''int'' v)"

definition av_Float :: "conversions \<Rightarrow> cval \<Rightarrow> real result" where
  "av_Float cv v =
     (case v of
        VFloat x \<Rightarrow> Inr x
      | VInt i \<Rightarrow> Inr (float64 (of_int i))
      | VInt64 i \<Rightarrow> Inr (float64 (of_int i))
      | VStr t \<Rightarrow> fc_parse_float cv t
      | _ \<Rightarrow> cannot cv ''float'' v)"

definition av_String :: "conversions \<Rightarrow> cval \<Rightarrow> string" where
  "av_String cv v = (case v of VStr t \<Rightarrow> t | VBytes t \<Rightarrow> t | _ \<Rightarrow> fc_print cv v)"

definition av_Duration :: "conversions \<Rightarrow> cval \<Rightarrow> int result" where
  "av_Duration cv v = fc_parse_duration cv (av_String cv v)"

definition av_Slice :: "conversions \<Rightarrow> cval \<Rightarrow> cval list result" where
  "av_Slice cv v = (case v of VList vs \<Rightarrow> Inr vs | _ \<Rightarrow> cannot cv ''slice'' v)"

definition av_Map :: "conversions \<Rightarrow> cval \<Rightarrow> cmap result" where
  "av_Map cv v = (case v of VMap m \<Rightarrow> Inr m | _ \<Rightarrow> cannot cv ''map'' v)"

text \<open>\<open>Scan\<close> writes the value as JSON and decodes it; both are the library's.\<close>

definition av_Scan ::
    "(cval \<Rightarrow> string result) \<Rightarrow> (string \<Rightarrow> 'v \<Rightarrow> go_error option \<times> 'v) \<Rightarrow> cval \<Rightarrow> 'v \<Rightarrow> go_error option \<times> 'v" where
  "av_Scan marshal unmarshal v dst =
     (case marshal v of Inl err \<Rightarrow> (Some err, dst) | Inr data \<Rightarrow> unmarshal data dst)"

text \<open>
  The interface \<open>Value\<close> has two implementations: \<open>atomicValue\<close>, above, and \<open>nilValue\<close>, here \<open>None\<close>, all of
  whose methods succeed with a zero value.  \<open>None\<close> also stands for a nil slice or map.
\<close>

definition value_Bool :: "conversions \<Rightarrow> cval option \<Rightarrow> bool result outcome" where
  "value_Bool cv v = (case v of None \<Rightarrow> Ret (Inr False) | Some x \<Rightarrow> av_Bool cv x)"

definition value_Int :: "conversions \<Rightarrow> cval option \<Rightarrow> int result" where
  "value_Int cv v = (case v of None \<Rightarrow> Inr 0 | Some x \<Rightarrow> av_Int cv x)"

definition value_Float :: "conversions \<Rightarrow> cval option \<Rightarrow> real result" where
  "value_Float cv v = (case v of None \<Rightarrow> Inr 0 | Some x \<Rightarrow> av_Float cv x)"

definition value_String :: "conversions \<Rightarrow> cval option \<Rightarrow> string result" where
  "value_String cv v = (case v of None \<Rightarrow> Inr '''' | Some x \<Rightarrow> Inr (av_String cv x))"

definition value_Duration :: "conversions \<Rightarrow> cval option \<Rightarrow> int result" where
  "value_Duration cv v = (case v of None \<Rightarrow> Inr 0 | Some x \<Rightarrow> av_Duration cv x)"

definition value_Slice :: "conversions \<Rightarrow> cval option \<Rightarrow> cval list option result" where
  "value_Slice cv v = (case v of None \<Rightarrow> Inr None | Some x \<Rightarrow> map_sum id Some (av_Slice cv x))"

definition value_Map :: "conversions \<Rightarrow> cval option \<Rightarrow> cmap option result" where
  "value_Map cv v = (case v of None \<Rightarrow> Inr None | Some x \<Rightarrow> map_sum id Some (av_Map cv x))"

definition value_Scan ::
    "(cval \<Rightarrow> string result) \<Rightarrow> (string \<Rightarrow> 'v \<Rightarrow> go_error option \<times> 'v) \<Rightarrow> cval option \<Rightarrow> 'v \<Rightarrow>
     go_error option \<times> 'v" where
  "value_Scan marshal unmarshal v dst = (case v of None \<Rightarrow> (None, dst) | Some x \<Rightarrow> av_Scan marshal unmarshal x dst)"

definition value_Load :: "cval option \<Rightarrow> cval" where
  "value_Load v = (case v of None \<Rightarrow> VNull | Some x \<Rightarrow> x)"

text \<open>The helpers drop the error and return what comes with it, mostly the zero value.\<close>

definition GetString :: "conversions \<Rightarrow> string \<Rightarrow> 'w config \<Rightarrow> string \<times> 'w config" where
  "GetString cv key c =
     (let (v, c') = config_Value key c in (case value_String cv v of Inl _ \<Rightarrow> '''' | Inr t \<Rightarrow> t, c'))"

definition or_zero :: "int result \<Rightarrow> int" where
  "or_zero r = (case r of Inl _ \<Rightarrow> 0 | Inr i \<Rightarrow> i)"

text \<open>\<open>strconv.ParseInt\<close> returns the nearest integer beside its range error.\<close>

definition int_beside_error :: "conversions \<Rightarrow> cval option \<Rightarrow> int" where
  "int_beside_error cv v = (case v of Some (VStr t) \<Rightarrow> atoi_value t | _ \<Rightarrow> or_zero (value_Int cv v))"

definition GetInt :: "conversions \<Rightarrow> string \<Rightarrow> 'w config \<Rightarrow> int \<times> 'w config" where
  "GetInt cv key c = (let (v, c') = config_Value key c in (int_beside_error cv v, c'))"

definition GetBool :: "conversions \<Rightarrow> string \<Rightarrow> 'w config \<Rightarrow> bool outcome \<times> 'w config" where
  "GetBool cv key c =
     (let (v, c') = config_Value key c
      in (case value_Bool cv v of
            Panicked p \<Rightarrow> Panicked p | Ret (Inl _) \<Rightarrow> Ret False | Ret (Inr b) \<Rightarrow> Ret b, c'))"

definition GetDuration :: "conversions \<Rightarrow> string \<Rightarrow> 'w config \<Rightarrow> int \<times> 'w config" where
  "GetDuration cv key c = (let (v, c') = config_Value key c in (or_zero (value_Duration cv v), c'))"

section \<open>The file source\<close>

text \<open>\<open>filepath.Ext\<close>: from the last dot of the last element on.\<close>

definition path_ext :: "string \<Rightarrow> string" where
  "path_ext p =
     (let r = takeWhile (\<lambda>ch. ch \<noteq> CHR ''/'') (rev p)
      in if dot \<in> set r then dot # rev (takeWhile (\<lambda>ch. ch \<noteq> dot) r) else '''')"

definition fileSource_Load :: "string \<Rightarrow> (string \<Rightarrow> string result) \<Rightarrow> key_value list result" where
  "fileSource_Load path read_file =
     (case read_file path of
        Inl err \<Rightarrow> Inl err
      | Inr data \<Rightarrow>
          (let format = trim_prefix [dot] (path_ext path);
               format' = (if format = ''yml'' then ''yaml'' else format)
           in Inr [\<lparr>kv_Key = path, kv_Value = data, kv_Format = format'\<rparr>]))"

text \<open>\<open>fsnotify\<close>: the errors of \<open>NewWatcher\<close> and of \<open>Add\<close>.\<close>

record fsnotify =
  fn_NewWatcher :: "go_error option"
  fn_Add :: "string \<Rightarrow> (string \<Rightarrow> string result) \<Rightarrow> go_error option"

definition fileSource_Watch :: "fsnotify \<Rightarrow> string \<Rightarrow> (string \<Rightarrow> string result) \<Rightarrow> bool result" where
  "fileSource_Watch fn path fs =
     (case fn_NewWatcher fn of
        Some err \<Rightarrow> Inl err
      | None \<Rightarrow> (case fn_Add fn path fs of Some err \<Rightarrow> Inl err | None \<Rightarrow> Inr True))"

definition NewFileSource :: "fsnotify \<Rightarrow> string \<Rightarrow> (string \<Rightarrow> string result) source" where
  "NewFileSource fn path = \<lparr>so_Load = fileSource_Load path, so_watchable = fileSource_Watch fn path\<rparr>"

section \<open>The environment source\<close>

text \<open>Upper and lower case of ASCII text.\<close>

definition upper :: "char \<Rightarrow> char" where
  "upper ch = (let n = of_char ch :: nat in if 97 \<le> n \<and> n \<le> 122 then char_of (n - 32) else ch)"

definition lower :: "char \<Rightarrow> char" where
  "lower ch = (let n = of_char ch :: nat in if 65 \<le> n \<and> n \<le> 90 then char_of (n + 32) else ch)"

text \<open>\<open>strings.SplitN(env, "=", 2)\<close>, when there are two parts.\<close>

definition split_eq :: "string \<Rightarrow> (string \<times> string) option" where
  "split_eq env =
     (let k = takeWhile (\<lambda>ch. ch \<noteq> CHR ''='') env
      in if length k < length env then Some (k, drop (length k + 1) env) else None)"

definition env_prefix :: "string \<Rightarrow> string" where
  "env_prefix p =
     (let q = map upper p in if q \<noteq> '''' \<and> last q \<noteq> CHR ''_'' then q @ ''_'' else q)"

definition env_key :: "string \<Rightarrow> string" where
  "env_key k = map (\<lambda>ch. lower (if ch = CHR ''_'' then dot else ch)) k"

definition env_add :: "string \<Rightarrow> string \<Rightarrow> (string \<Rightarrow> string option) \<Rightarrow> string \<Rightarrow> string option" where
  "env_add prefix env kvs =
     (case split_eq env of
        None \<Rightarrow> kvs
      | Some (key, v) \<Rightarrow>
          if prefix \<noteq> '''' \<and> \<not> has_prefix prefix key then kvs
          else kvs(env_key (if prefix \<noteq> '''' then trim_prefix prefix key else key) \<mapsto> v))"

definition env_values :: "string \<Rightarrow> string list \<Rightarrow> string \<Rightarrow> string option" where
  "env_values p environ = fold (env_add (env_prefix p)) environ (\<lambda>_. None)"

definition quote :: string where "quote = [CHR 34]"

text \<open>The JSON text is put together by hand; \<open>ks\<close> is the order of the range.\<close>

definition env_json :: "(string \<times> string) list \<Rightarrow> string" where
  "env_json kvs = ''{'' @ join_with '','' (map (\<lambda>(k, v). quote @ k @ quote @ '':'' @ quote @ v @ quote) kvs) @ ''}''"

definition envSource_Load :: "string \<Rightarrow> string list \<Rightarrow> string list \<Rightarrow> key_value list result" where
  "envSource_Load p ks environ =
     Inr [\<lparr>kv_Key = ''env'', kv_Value = env_json (range_over ks (env_values p environ)), kv_Format = ''json''\<rparr>]"

definition envSource_Watch :: "string list \<Rightarrow> bool result" where
  "envSource_Watch environ = Inr False"

definition NewEnvSource :: "string \<Rightarrow> string list \<Rightarrow> string list source" where
  "NewEnvSource p ks = \<lparr>so_Load = envSource_Load p ks, so_watchable = envSource_Watch\<rparr>"

text \<open>\<open>FromFile\<close> and \<open>FromEnv\<close>: the world is the file system, or the environment; \<open>FromEnv\<close> drops the error.\<close>

definition FromFile :: "fsnotify \<Rightarrow> decoders \<Rightarrow> string \<Rightarrow> (string \<Rightarrow> string result) \<Rightarrow> (string \<Rightarrow> string result) config result" where
  "FromFile fn dc path fs =
     (case config_Load fs (config_New dc [CfWithSource [NewFileSource fn path]]) of
        (Some err, _) \<Rightarrow> Inl err | (None, c) \<Rightarrow> Inr c)"

definition FromEnv :: "decoders \<Rightarrow> string list \<Rightarrow> string \<Rightarrow> string list \<Rightarrow> string list config" where
  "FromEnv dc ks prefix environ =
     snd (config_Load environ (config_New dc [CfWithSource [NewEnvSource prefix ks]]))"

section \<open>Watching\<close>

text \<open>
  \<open>Watch\<close>: the observer is added, and a watcher of every source is started, whether one runs already
  or not.  \<open>w\<close> is the world the sources' \<open>Watch\<close> looks at.
\<close>

fun watch_sources :: "'w \<Rightarrow> nat \<Rightarrow> 'w source list \<Rightarrow> nat list \<Rightarrow> go_error option \<times> nat list" where
  "watch_sources w i [] ws = (None, ws)"
| "watch_sources w i (src # srcs) ws =
     (case so_watchable src w of
        Inl err \<Rightarrow> (Some err, ws)
      | Inr True \<Rightarrow> watch_sources w (Suc i) srcs (ws @ [i])
      | Inr False \<Rightarrow> watch_sources w (Suc i) srcs ws)"

definition config_Watch :: "'w \<Rightarrow> string \<Rightarrow> nat \<Rightarrow> 'w config \<Rightarrow> go_error option \<times> 'w config" where
  "config_Watch w key obs c =
     (let c1 = c\<lparr>cf_observers := (cf_observers c)(key \<mapsto>
                   (case cf_observers c key of Some os \<Rightarrow> os | None \<Rightarrow> []) @ [obs])\<rparr>;
          (err, ws) = watch_sources w 0 (cf_sources c1) (cf_watchers c1)
      in (err, c1\<lparr>cf_watchers := ws\<rparr>))"

text \<open>
  One change delivered to one watcher: decode, clear the cache, notify.  \<open>ks\<close> is the order of the range
  over the observers; the notifications are the observer, its key, and the value.
\<close>

fun notify_keys :: "(string \<times> nat list) list \<Rightarrow> 'w config \<Rightarrow> (nat \<times> string \<times> cval option) list \<times> 'w config" where
  "notify_keys [] c = ([], c)"
| "notify_keys ((key, obs) # kos) c =
     (let (val, c1) = config_Value key c; (ns, c2) = notify_keys kos c1
      in (map (\<lambda>o'. (o', key, val)) obs @ ns, c2))"

definition config_changed ::
    "string list \<Rightarrow> key_value list \<Rightarrow> 'w config \<Rightarrow> (nat \<times> string \<times> cval option) list \<times> 'w config" where
  "config_changed ks kvs c =
     (let data = fold (\<lambda>kv d. snd (cf_decoder c kv d)) kvs (cf_data c);
          c1 = c\<lparr>cf_data := data, cf_cached := (\<lambda>_. None)\<rparr>
      in notify_keys (range_over ks (cf_observers c1)) c1)"

text \<open>
  The goroutine of a watcher: it ends when \<open>Next\<close> fails, and goes on when \<open>Next\<close> gives nothing.
  \<open>next_kvs\<close> is \<open>Next\<close> over the state \<open>'e\<close> of the watcher; a loop that does not end is \<open>None\<close>.
\<close>

partial_function (option) watchSource ::
    "string list \<Rightarrow> ('e \<Rightarrow> key_value list result \<times> 'e) \<Rightarrow> 'e \<Rightarrow> 'w config \<Rightarrow>
     ((nat \<times> string \<times> cval option) list \<times> 'w config) option" where
  "watchSource ks next_kvs e c =
     (case next_kvs e of
        (Inl err, e') \<Rightarrow> Some ([], c)
      | (Inr kvs, e') \<Rightarrow>
          if kvs = [] then watchSource ks next_kvs e' c
          else (let (ns, c1) = config_changed ks kvs c
                in Option.bind (watchSource ks next_kvs e' c1) (\<lambda>r. Some (ns @ fst r, snd r))))"

text \<open>
  The file watcher: what its \<open>select\<close> receives.  A closed channel is always ready, and \<open>Next\<close> then
  returns neither data nor an error.
\<close>

datatype file_event = FileWritten | FileOther | WatchFailed go_error

fun fileWatcher_Next :: "(unit \<Rightarrow> key_value list result) \<Rightarrow> file_event list \<Rightarrow> key_value list result \<times> file_event list" where
  "fileWatcher_Next load [] = (Inr [], [])"
| "fileWatcher_Next load (FileWritten # es) = (load (), es)"
| "fileWatcher_Next load (FileOther # es) = fileWatcher_Next load es"
| "fileWatcher_Next load (WatchFailed err # es) = (Inl err, es)"

section \<open>Closing, and decoding into structs\<close>

text \<open>The watchers are stopped in turn, up to the first that fails; the second component is those it was tried on.\<close>

fun stop_watchers :: "(nat \<Rightarrow> go_error option) \<Rightarrow> nat list \<Rightarrow> go_error option \<times> nat list" where
  "stop_watchers stop [] = (None, [])"
| "stop_watchers stop (i # is) =
     (case stop i of
        Some err \<Rightarrow> (Some err, [i])
      | None \<Rightarrow> (let (err, tried) = stop_watchers stop is in (err, i # tried)))"

definition config_Close :: "(nat \<Rightarrow> go_error option) \<Rightarrow> 'w config \<Rightarrow> go_error option \<times> nat list" where
  "config_Close stop c = stop_watchers stop (cf_watchers c)"

text \<open>\<open>Scan\<close> writes the tree as JSON and decodes it into the caller's value; the library is an argument.\<close>

definition config_Scan ::
    "(cmap \<Rightarrow> string result) \<Rightarrow> (string \<Rightarrow> 'v \<Rightarrow> go_error option \<times> 'v) \<Rightarrow> 'v \<Rightarrow> 'w config \<Rightarrow> go_error option \<times> 'v" where
  "config_Scan marshal unmarshal v c =
     (case marshal (cf_data c) of Inl err \<Rightarrow> (Some err, v) | Inr data \<Rightarrow> unmarshal data v)"

record bootstrap_config =
  bc_app_name :: string
  bc_app_version :: string
  bc_http_addr :: string
  bc_http_timeout :: string
  bc_grpc_addr :: string
  bc_grpc_timeout :: string
  bc_database_driver :: string
  bc_database_source :: string
  bc_redis_addr :: string
  bc_log_path :: string
  bc_log_level :: string

definition Bootstrap ::
    "fsnotify \<Rightarrow> decoders \<Rightarrow> (cmap \<Rightarrow> string result) \<Rightarrow> (string \<Rightarrow> bootstrap_config \<Rightarrow> go_error option \<times> bootstrap_config) \<Rightarrow>
     string \<Rightarrow> (string \<Rightarrow> string result) \<Rightarrow> bootstrap_config result" where
  "Bootstrap fn dc marshal unmarshal path fs =
     (case FromFile fn dc path fs of
        Inl err \<Rightarrow> Inl err
      | Inr c \<Rightarrow>
          (case config_Scan marshal unmarshal \<lparr>bc_app_name = '''', bc_app_version = '''', bc_http_addr = '''', bc_http_timeout = '''',
               bc_grpc_addr = '''', bc_grpc_timeout = '''', bc_database_driver = '''', bc_database_source = '''',
               bc_redis_addr = '''', bc_log_path = '''', bc_log_level = ''''\<rparr> c of
             (Some err, _) \<Rightarrow> Inl err | (None, bc) \<Rightarrow> Inr bc))"

section \<open>Layers\<close>

text \<open>The map that a decoded source adds, for every source.\<close>

definition layered :: "cmap list \<Rightarrow> cmap \<Rightarrow> cmap" where
  "layered ms d = fold (\<lambda>m d. mergeMaps d m) ms d"

definition decodes_to :: "decoder \<Rightarrow> 'w \<Rightarrow> 'w source \<Rightarrow> cmap \<Rightarrow> bool" where
  "decodes_to dec w src m \<longleftrightarrow> (\<exists>kv. so_Load src w = Inr [kv] \<and> (\<forall>d. dec kv d = (None, mergeMaps d m)))"

lemma load_layers:
  "list_all2 (decodes_to dec w) srcs ms \<Longrightarrow> load_sources w dec srcs d = (None, layered ms d)"
  by (induction srcs ms arbitrary: d rule: list_all2_induct) (auto simp: decodes_to_def layered_def)

text \<open>What a map is merged into: the old map, or nothing.\<close>

definition base :: "cval option \<Rightarrow> cmap" where
  "base old = (case old of Some (VMap d) \<Rightarrow> d | _ \<Rightarrow> no_keys)"

lemma merge_no_keys [simp]: "mergeMaps no_keys m = m"
  by (auto simp: mergeMaps_def no_keys_def fun_eq_iff split: option.splits)

lemma merge_map: "merge_val (VMap m) old = VMap (mergeMaps (base old) m)"
proof (cases old)
  case (Some v)
  then show ?thesis by (cases v) (simp_all add: base_def del: merge_val.simps(9), simp_all)
qed (simp add: base_def)

text \<open>A source is silent on a path when it has maps along it and then nothing.\<close>

fun silent :: "string list \<Rightarrow> cmap \<Rightarrow> bool" where
  "silent [] m = False"
| "silent (p # ps) m = (case m p of None \<Rightarrow> True | Some (VMap m') \<Rightarrow> silent ps m' | Some _ \<Rightarrow> False)"

lemma walk_map: "walk (p # ps) (VMap m) = Option.bind (m p) (\<lambda>v. if v = VNull then None else walk ps v)"
  by (cases "m p") (auto split: cval.splits)

lemma walk_leaf: "\<not> is_map v \<Longrightarrow> ps \<noteq> [] \<Longrightarrow> walk ps v = None"
  by (cases ps; cases v) simp_all

lemma merge_lookup_leaf:
  "walk ps (VMap m) = Some v \<Longrightarrow> \<not> is_map v \<Longrightarrow> walk ps (VMap (mergeMaps d m)) = Some v"
proof (induction ps arbitrary: m d)
  case (Cons p ps)
  then obtain u where u: "m p = Some u" "u \<noteq> VNull" "walk ps u = Some v"
    by (auto simp: walk_map split: bind_splits if_splits simp del: walk.simps(2))
  show ?case
  proof (cases "is_map u")
    case True
    then obtain m' where m': "u = VMap m'" by (cases u) simp_all
    from u(3) Cons.prems(2) m' have "walk ps (VMap (mergeMaps d' m')) = Some v" for d'
      using Cons.IH by blast
    then show ?thesis using u m' by (simp add: walk_map mergeMaps_def merge_map del: walk.simps merge_val.simps)
  qed (use u in \<open>simp add: mergeMaps_def walk_map del: walk.simps(2)\<close>)
qed auto

lemma merge_lookup_silent:
  "silent ps m \<Longrightarrow> walk ps (VMap (mergeMaps d m)) = walk ps (VMap d)"
proof (induction ps arbitrary: m d)
  case (Cons p ps)
  show ?case
  proof (cases "m p")
    case None
    then show ?thesis by (simp add: walk_map mergeMaps_def del: walk.simps)
  next
    case (Some u)
    with Cons.prems obtain m' where m': "u = VMap m'" "silent ps m'" by (cases u) simp_all
    have "ps \<noteq> []" using m'(2) by auto
    have "walk ps (merge_val u (d p)) = walk ps (VMap (base (d p)))"
      using Cons.IH [OF m'(2)] by (simp add: m' merge_map del: merge_val.simps)
    also have "\<dots> = Option.bind (d p) (\<lambda>v. if v = VNull then None else walk ps v)"
    proof (cases "d p")
      case None
      then show ?thesis using \<open>ps \<noteq> []\<close> by (cases ps) (simp_all add: base_def no_keys_def)
    next
      case (Some x)
      have "walk ps (VMap no_keys) = None" using \<open>ps \<noteq> []\<close> by (cases ps) (simp_all add: no_keys_def)
      with Some walk_leaf [of x ps] \<open>ps \<noteq> []\<close> show ?thesis by (cases x) (simp_all add: base_def)
    qed
    finally show ?thesis using Some
      by (simp add: walk_map mergeMaps_def m' merge_map del: walk.simps merge_val.simps)
  qed
qed simp

lemma layered_silent:
  "\<forall>m\<in>set ms. silent ps m \<Longrightarrow> walk ps (VMap (layered ms d)) = walk ps (VMap d)"
  by (induction ms arbitrary: d) (simp_all add: layered_def merge_lookup_silent del: walk.simps)

lemma layered_lookup:
  assumes "walk ps (VMap m) = Some v" and "\<not> is_map v" and "\<forall>m\<in>set later. silent ps m"
  shows "walk ps (VMap (layered (earlier @ m # later) d)) = Some v"
  using layered_silent [OF assms(3), of "mergeMaps (layered earlier d) m"] merge_lookup_leaf [OF assms(1,2)]
  by (simp add: layered_def)

subsection \<open>Loading twice\<close>

text \<open>The values of the layers for one key, in order, are put one over the other.\<close>

definition put :: "cval list \<Rightarrow> cval option \<Rightarrow> cval option" where
  "put vs old = fold (\<lambda>v old. Some (merge_val v old)) vs old"

lemma put_simps [simp]: "put [] old = old" "put (v # vs) old = put vs (Some (merge_val v old))"
  by (simp_all add: put_def)

definition at_key :: "string \<Rightarrow> cmap list \<Rightarrow> cval list" where
  "at_key k ms = List.map_filter (\<lambda>m. m k) ms"

lemma at_key_simps [simp]:
  "at_key k [] = []" "at_key k (m # ms) = (case m k of None \<Rightarrow> at_key k ms | Some v \<Rightarrow> v # at_key k ms)"
  by (simp_all add: at_key_def List.map_filter_def split: option.splits)

lemma length_at_key: "length (at_key k ms) \<le> length ms"
  by (induction ms) (auto split: option.splits)

lemma layered_at: "layered ms d k = put (at_key k ms) (d k)"
  by (induction ms arbitrary: d) (auto simp: layered_def mergeMaps_def split: option.splits)

lemma put_maps: "put (map VMap (m # ms)) old = Some (VMap (layered (m # ms) (base old)))"
proof (induction ms arbitrary: m old)
  case Nil
  then show ?case by (simp add: merge_map layered_def del: merge_val.simps)
next
  case (Cons m' ms)
  have "put (map VMap (m # m' # ms)) old = put (map VMap (m' # ms)) (Some (VMap (mergeMaps (base old) m)))"
    by (simp add: merge_map del: merge_val.simps merge_maps)
  then show ?case using Cons.IH [of m' "Some (VMap (mergeMaps (base old) m))"] by (simp add: base_def layered_def)
qed

text \<open>A value that is not a map makes everything before it irrelevant.\<close>

lemma put_forgets: "\<exists>v\<in>set vs. \<not> is_map v \<Longrightarrow> put vs old = put vs old'"
proof (induction vs arbitrary: old old')
  case (Cons v vs)
  then show ?case by (cases "is_map v") auto
qed simp

lemma all_maps: "\<forall>v\<in>set vs. is_map v \<Longrightarrow> \<exists>ms. vs = map VMap ms"
proof (induction vs)
  case (Cons v vs)
  then obtain ms m where "vs = map VMap ms" "v = VMap m" by (cases v) auto
  then have "v # vs = map VMap (m # ms)" by simp
  then show ?case by metis
qed simp

lemma put_twice_maps:
  assumes "\<And>k d. put (at_key k (m # ms)) (put (at_key k (m # ms)) d) = put (at_key k (m # ms)) d"
  shows "put (map VMap (m # ms)) (put (map VMap (m # ms)) old) = put (map VMap (m # ms)) old"
proof -
  have "layered (m # ms) (layered (m # ms) d) = layered (m # ms) d" for d
    using assms by (auto simp: fun_eq_iff layered_at)
  then show ?thesis unfolding put_maps by (simp add: base_def)
qed

lemma put_twice_head:
  assumes shorter: "\<And>vs old. length vs \<le> n \<Longrightarrow> put vs (put vs old) = put vs old"
  shows "length vs \<le> n \<Longrightarrow> put (v # vs) (put (v # vs) old) = put (v # vs) old"
proof (induction v arbitrary: vs old)
  case (VMap m)
  show ?case
  proof (cases "\<forall>u\<in>set vs. is_map u")
    case True
    then obtain ms where ms: "vs = map VMap ms" using all_maps by blast
    have "put (at_key k (m # ms)) (put (at_key k (m # ms)) d) = put (at_key k (m # ms)) d" for k d
    proof (cases "m k")
      case None
      then show ?thesis using shorter [of "at_key k ms"] length_at_key [of k ms] VMap.prems ms by simp
    next
      case (Some u)
      then have "u \<in> Option.set_option (m k)" by simp
      moreover have "m k \<in> range m" by simp
      ultimately have IH: "length us \<le> n \<Longrightarrow> put (u # us) (put (u # us) o') = put (u # us) o'" for us o'
        using VMap.IH by blast
      from IH [of "at_key k ms" d] Some length_at_key [of k ms] VMap.prems ms show ?thesis by simp
    qed
    from put_twice_maps [OF this] show ?thesis by (simp add: ms del: put_simps)
  next
    case False
    then show ?thesis using put_forgets [of "VMap m # vs"] by (metis list.set_intros(2))
  qed
qed (rule put_forgets, simp)+

lemma put_twice: "put vs (put vs old) = put vs old"
proof (induction "length vs" arbitrary: vs old rule: less_induct)
  case less
  show ?case
  proof (cases vs)
    case (Cons v us)
    then have "put (v # us) (put (v # us) old) = put (v # us) old"
      using less [of _ ] by (intro put_twice_head [of "length us"]) auto
    then show ?thesis using Cons by simp
  qed simp
qed

lemma layered_twice: "layered ms (layered ms d) = layered ms d"
  by (auto simp: fun_eq_iff layered_at put_twice)

section \<open>Watching forever\<close>

lemma watchSource_returns:
  assumes "watchSource ks next_kvs e c = Some r" and "next_kvs = fileWatcher_Next load" and "\<exists>kvs. load () = Inr kvs"
  shows "\<exists>err. WatchFailed err \<in> set e"
  using assms
proof (induction ks next_kvs e c r rule: watchSource.raw_induct [rotated, consumes 1])
  case (1 watch ks next_kvs e c r)
  have *: "fileWatcher_Next load e = (Inl err, e') \<Longrightarrow> \<exists>kvs. load () = Inr kvs \<Longrightarrow> WatchFailed err \<in> set e" for err e'
    by (induction load e rule: fileWatcher_Next.induct) auto
  have **: "fileWatcher_Next load e = (Inr kvs, e') \<Longrightarrow> set e' \<subseteq> set e" for kvs e'
    by (induction load e rule: fileWatcher_Next.induct) auto
  show ?case
  proof (cases "fst (fileWatcher_Next load e)")
    case (Inl err)
    then have "fileWatcher_Next load e = (Inl err, snd (fileWatcher_Next load e))" by (simp add: prod_eq_iff)
    from * [OF this "1.prems"(2)] show ?thesis by blast
  next
    case (Inr kvs)
    then obtain e' where n: "fileWatcher_Next load e = (Inr kvs, e')" by (metis prod.collapse)
    obtain ns c1 where ch: "config_changed ks kvs c = (ns, c1)" by fastforce
    from "1.hyps" "1.prems"(1) n ch obtain c' r' where "watch ks next_kvs e' c' = Some r'"
      by (cases "kvs = []") (auto simp: bind_eq_Some_conv)
    from "1.IH" [OF this "1.prems"] ** [OF n] show ?thesis by blast
  qed
qed

section \<open>Properties\<close>

text \<open>
  C17: The last source that defines a key decides.  With sources that load and decode, a key whose value in some
  source is not a map, and on which every later source is silent, has that value in the merged data,
  whatever the earlier sources and the data before hold.  Without a resolver \<open>Load\<close> succeeds and keeps these
  data; with one, the resolver is given them at the end, its error is the result of \<open>Load\<close>, and what it makes
  of the data is kept.
\<close>

theorem config_last_source_wins:
  assumes "list_all2 (decodes_to (cf_decoder c) w) (cf_sources c) (earlier @ m # later)"
    and "getValue key m = Some v" and "\<not> is_map v" and "\<forall>m'\<in>set later. silent (split_on dot key) m'"
  shows "\<exists>d. getValue key d = Some v \<and>
     config_Load w c = (case cf_resolver c of
         None \<Rightarrow> (None, c\<lparr>cf_data := d\<rparr>)
       | Some resolve \<Rightarrow> (fst (resolve d), c\<lparr>cf_data := snd (resolve d)\<rparr>))"
proof -
  define d where "d = layered (earlier @ m # later) (cf_data c)"
  have "getValue key d = Some v"
    using layered_lookup [OF assms(2) [unfolded getValue_def] assms(3,4)] by (simp add: d_def getValue_def del: walk.simps)
  moreover have "load_sources w (cf_decoder c) (cf_sources c) (cf_data c) = (None, d)"
    using load_layers [OF assms(1), of "cf_data c"] by (simp add: d_def)
  ultimately show ?thesis
    by (intro exI [of _ d]) (simp add: config_Load_def case_prod_beta split: option.split)
qed

text \<open>Two sources: defaults, and a file that overrides one of them.\<close>

definition layer_source :: "string \<Rightarrow> unit source" where
  "layer_source t = \<lparr>so_Load = (\<lambda>_. Inr [\<lparr>kv_Key = t, kv_Value = t, kv_Format = ''json''\<rparr>]), so_watchable = (\<lambda>_. Inr False)\<rparr>"

definition layer :: "string \<Rightarrow> cmap" where
  "layer t = (if t = ''defaults'' then [''http'' \<mapsto> VMap [''addr'' \<mapsto> VStr '':80'', ''port'' \<mapsto> VInt 80]]
              else [''http'' \<mapsto> VMap [''port'' \<mapsto> VInt 8080]])"

definition layer_decoders :: decoders where
  "layer_decoders = \<lparr>dc_json = (\<lambda>t _. (None, layer t)), dc_yaml = (\<lambda>t _. (None, layer t))\<rparr>"

definition layered_config :: "unit config" where
  "layered_config = config_New layer_decoders [CfWithSource [layer_source ''defaults'', layer_source ''file'']]"

lemma layered_decodes:
  "list_all2 (decodes_to (cf_decoder layered_config) ()) (cf_sources layered_config) [layer ''defaults'', layer ''file'']"
  by (simp add: layered_config_def config_New_def decodes_to_def layer_source_def defaultDecoder_def layer_decoders_def)

theorem config_last_source_wins_witness:
  "\<exists>c'. config_Load () layered_config = (None, c') \<and> getValue ''http.addr'' (cf_data c') = Some (VStr '':80'')"
proof -
  have "list_all2 (decodes_to (cf_decoder layered_config) ()) (cf_sources layered_config) ([] @ layer ''defaults'' # [layer ''file''])"
    using layered_decodes by simp
  moreover have resolver: "cf_resolver layered_config = None" by (simp add: layered_config_def config_New_def)
  moreover have "getValue ''http.addr'' (layer ''defaults'') = Some (VStr '':80'')"
    by (simp add: getValue_def dot_def layer_def)
  moreover have "\<forall>m'\<in>set [layer ''file'']. silent (split_on dot ''http.addr'') m'"
    by (simp add: dot_def layer_def)
  ultimately obtain d where "getValue ''http.addr'' d = Some (VStr '':80'')"
    "config_Load () layered_config = (case cf_resolver layered_config of
         None \<Rightarrow> (None, layered_config\<lparr>cf_data := d\<rparr>)
       | Some resolve \<Rightarrow> (fst (resolve d), layered_config\<lparr>cf_data := snd (resolve d)\<rparr>))"
    using config_last_source_wins [of layered_config "()" "[]" "layer ''defaults''" "[layer ''file'']" "''http.addr''" "VStr '':80''"]
    by auto
  with resolver show ?thesis by auto
qed

text \<open>
  C40: Loading a configuration without a resolver, from sources that load and decode, is idempotent: it
  succeeds, and loading again from sources that have not changed leaves the data as it is, although the
  layers are merged over the result of the first load and not over empty data.  (A resolver runs at the end
  of each \<open>Load\<close> on the merged data, and need neither succeed nor undo what it did.)
\<close>

theorem config_reload_idempotent:
  assumes "list_all2 (decodes_to (cf_decoder c) w) (cf_sources c) ms" and "cf_resolver c = None"
    and "config_Load w c = (err, c')"
  shows "err = None \<and> config_Load w c' = (None, c')"
  using load_layers [OF assms(1), of "cf_data c"] load_layers [OF assms(1), of "layered ms (cf_data c)"] assms(2,3)
  by (auto simp: config_Load_def layered_twice)

theorem config_reload_idempotent_witness:
  "\<exists>c'. config_Load () layered_config = (None, c') \<and> config_Load () c' = (None, c')"
proof -
  obtain err c' where l: "config_Load () layered_config = (err, c')" by fastforce
  have "cf_resolver layered_config = None" by (simp add: layered_config_def config_New_def)
  from config_reload_idempotent [OF layered_decodes this l] l show ?thesis by auto
qed

text \<open>
  A key that has been looked up does not see a later \<open>Load\<close>: the cache is cleared only for changes that
  come from a watcher, so \<open>Value\<close> goes on returning the old value.
\<close>

theorem config_Load_keeps_cached_values:
  assumes "config_Value key c = (Some v, c1)" and "\<not> is_map v" and "config_Load w c1 = (err, c2)"
  shows "config_Value key c2 = (Some v, c2)"
proof -
  have "cf_cached c1 key = Some v" using assms(1) by (auto simp: config_Value_def split: option.splits)
  moreover have "cf_cached c2 = cf_cached c1" using assms(3)
    by (auto simp: config_Load_def Let_def split: option.splits prod.splits)
  ultimately show ?thesis by (simp add: config_Value_def)
qed

text \<open>A source whose content is the world: the port changes, the cached value does not.\<close>

definition port_config :: "int config" where
  "port_config = config_New \<lparr>dc_json = (\<lambda>t _. (None, [''port'' \<mapsto> VStr t])), dc_yaml = (\<lambda>t d. (None, d))\<rparr>
     [CfWithSource [\<lparr>so_Load = (\<lambda>i. Inr [\<lparr>kv_Key = '''', kv_Value = itoa i, kv_Format = ''json''\<rparr>]), so_watchable = (\<lambda>_. Inr False)\<rparr>]]"

theorem config_Load_keeps_cached_values_witness:
  "(let (_, c) = config_Load 80 port_config; (v, c1) = config_Value ''port'' c; (_, c2) = config_Load 8080 c1
    in getValue ''port'' (cf_data c2) = Some (VStr (itoa 8080)) \<and> config_Value ''port'' c2 = (Some (VStr (itoa 80)), c2))"
proof -
  obtain e c v c1 e2 c2 where runs: "config_Load 80 port_config = (e, c)" "config_Value ''port'' c = (v, c1)"
      "config_Load 8080 c1 = (e2, c2)" by (metis prod.exhaust)
  have v: "v = Some (VStr (itoa 80))" and d: "getValue ''port'' (cf_data c2) = Some (VStr (itoa 8080))"
    using runs by (auto simp: port_config_def config_New_def config_Load_def config_Value_def getValue_def dot_def
        defaultDecoder_def no_keys_def mergeMaps_def)
  from config_Load_keeps_cached_values [OF runs(2) [unfolded v] _ runs(3)] runs v d show ?thesis by simp
qed

text \<open>
  After \<open>Close\<close> the goroutine of a file watcher never returns.  Its closed channels are always ready;
  \<open>Next\<close> then gives neither data nor an error, and the loop takes that for an empty change: it spins.
\<close>

theorem config_watch_spins_after_close:
  "watchSource ks (fileWatcher_Next (\<lambda>_. fileSource_Load path (\<lambda>_. Inr text))) [] c = None"
  using watchSource_returns [of ks "fileWatcher_Next (\<lambda>_. fileSource_Load path (\<lambda>_. Inr text))" "[]" c]
  by (cases "watchSource ks (fileWatcher_Next (\<lambda>_. fileSource_Load path (\<lambda>_. Inr text))) [] c")
    (auto simp: fileSource_Load_def Let_def)

text \<open>
  Every call of \<open>Watch\<close> starts a watcher of every watchable source, also of those that are watched
  already: after \<open>n\<close> calls every change of a source is decoded and announced to all observers \<open>n\<close> times.
\<close>

theorem config_Watch_multiplies_watchers:
  assumes "\<forall>src\<in>set (cf_sources c). so_watchable src w = Inr True"
  shows "length (cf_watchers (fold (\<lambda>(key, obs) c. snd (config_Watch w key obs c)) calls c)) =
     length (cf_watchers c) + length calls * length (cf_sources c)"
proof -
  have ws: "\<forall>src\<in>set srcs. so_watchable src w = Inr True \<Longrightarrow>
      length (snd (watch_sources w i srcs ws)) = length ws + length srcs" for i ws and srcs :: "'a source list"
    by (induction srcs arbitrary: i ws) auto
  have src: "cf_sources (snd (config_Watch w key obs c)) = cf_sources c" for key obs and c :: "'a config"
    by (simp add: config_Watch_def Let_def split: prod.splits)
  have one: "length (cf_watchers (snd (config_Watch w key obs c))) = length (cf_watchers c) + length (cf_sources c)"
    if "\<forall>src\<in>set (cf_sources c). so_watchable src w = Inr True" for key obs and c :: "'a config"
    using ws [OF that, of 0 "cf_watchers c"] by (simp add: config_Watch_def Let_def case_prod_beta)
  from assms show ?thesis
    by (induction calls arbitrary: c) (auto simp: src one)
qed

theorem config_Watch_multiplies_watchers_witness:
  "length (cf_watchers (fold (\<lambda>(key, obs) c. snd (config_Watch () key obs c)) [(''a'', 1), (''b'', 2)]
     (config_New layer_decoders [CfWithSource [(layer_source ''file'')\<lparr>so_watchable := (\<lambda>_. Inr True)\<rparr>]]))) = 2"
  using config_Watch_multiplies_watchers
    [of "config_New layer_decoders [CfWithSource [(layer_source ''file'')\<lparr>so_watchable := (\<lambda>_. Inr True)\<rparr>]]" "()" "[(''a'', 1), (''b'', 2)]"]
  by (simp add: config_New_def)

text \<open>
  An environment variable whose name has an underscore cannot be read.  Its key \<open>a.b\<close> is stored flat,
  as one key with a dot, while \<open>Value\<close> looks for a key \<open>b\<close> in a map \<open>a\<close>: the value is there and \<open>Value\<close>
  returns the nil value.  (\<open>json\<close> decodes the text that was put together, as it does for plain values.)
\<close>

theorem config_env_dotted_keys_unreachable:
  assumes "c = config_New dc [CfWithSource [NewEnvSource prefix ks]]"
    and "dc_json dc (env_json (range_over ks (env_values prefix environ))) no_keys =
        (None, \<lambda>k. map_option VStr (env_values prefix environ k))"
    and "env_values prefix environ key = Some v" and "dot \<in> set key"
  shows "\<exists>c'. config_Load environ c = (None, c') \<and> cf_data c' key = Some (VStr v) \<and> config_Value key c' = (None, c')"
proof -
  define m where "m = (\<lambda>k. map_option VStr (env_values prefix environ k))"
  obtain c' where c': "config_Load environ c = (None, c')" "cf_data c' = m" "cf_cached c' = (\<lambda>_. None)"
    using assms(1,2) by (auto simp: config_New_def config_Load_def NewEnvSource_def envSource_Load_def defaultDecoder_def m_def)
  obtain p q ps where split: "split_on dot key = p # q # ps"
  proof (cases "split_on dot key")
    case (Cons p ps)
    then show ?thesis using that assms(4) join_split [of dot key] split_on_sep_free [of p dot key]
      by (cases ps) auto
  qed simp
  have "walk (p # q # ps) (VMap m) = None"
    by (auto simp: m_def split: option.splits)
  then have "config_Value key c' = (None, c')" using c'(2,3) split by (simp add: config_Value_def getValue_def)
  with c' assms(3) show ?thesis by (auto simp: m_def)
qed

definition env_decoders :: "string list \<Rightarrow> decoders" where
  "env_decoders environ = \<lparr>dc_json = (\<lambda>_ _. (None, \<lambda>k. map_option VStr (env_values ''app'' environ k))), dc_yaml = (\<lambda>_ d. (None, d))\<rparr>"

theorem config_env_dotted_keys_unreachable_witness:
  "\<exists>c'. config_Load [''APP_DB_HOST=h''] (config_New (env_decoders [''APP_DB_HOST=h''])
       [CfWithSource [NewEnvSource ''app'' []]]) = (None, c') \<and>
     cf_data c' ''db.host'' = Some (VStr ''h'') \<and> config_Value ''db.host'' c' = (None, c')"
proof (rule config_env_dotted_keys_unreachable [OF refl])
  show "dc_json (env_decoders [''APP_DB_HOST=h'']) (env_json (range_over [] (env_values ''app'' [''APP_DB_HOST=h'']))) no_keys =
      (None, \<lambda>k. map_option VStr (env_values ''app'' [''APP_DB_HOST=h''] k))"
    by (simp add: env_decoders_def)
  show "env_values ''app'' [''APP_DB_HOST=h''] ''db.host'' = Some ''h''"
    by code_simp
  show "dot \<in> set ''db.host''" by (simp add: dot_def)
qed

end
