(* ===== verification/RemoteRegistry.thy ===== *)
theory RemoteRegistry
  imports RegistryTypes GoFloat
begin

text \<open>
  What \<open>registry/consul.go, etcd.go, nacos.go\<close> have in common, each with its own copy of the code: the
  options, the cache of services, the watchers and the notification, which these backends run under
  the registry's mutex.  As in \<open>MemoryRegistry\<close> the watchers a client may hold are a heap by number, and
  \<open>rr_watchers\<close> is the key set of the map \<open>r.watchers\<close>; \<open>rr_client\<close> tells whether the client is set.
  The watchers of a backend may have fields of their own: \<open>'w\<close> is a record that extends \<open>rwatcher\<close>.
\<close>

section \<open>State\<close>

record rwatcher =
  rw_events :: "event chan"
  rw_done :: bool
  rw_service :: string

record 'w remote =
  rr_opts :: reg_options
  rr_services :: cache
  rr_watchers :: "nat set"
  rr_heap :: "nat \<Rightarrow> 'w option"
  rr_nextID :: nat
  rr_running :: bool
  rr_client :: bool

definition remote_Init :: "reg_option list \<Rightarrow> ('w, 'z) remote_scheme \<Rightarrow> ('w, 'z) remote_scheme" where
  "remote_Init os r = r\<lparr>rr_opts := reg_apply_all os (rr_opts r)\<rparr>"

text \<open>\<open>newConsulRegistry\<close> and the others: the defaults with the backend's own address, then the options.\<close>

definition remote_options :: "string \<Rightarrow> reg_option list \<Rightarrow> reg_options" where
  "remote_options addr os = reg_apply_all os (reg_DefaultOptions\<lparr>ro_addresses := [addr]\<rparr>)"

section \<open>Watchers\<close>

definition new_rwatcher :: "reg_options \<Rightarrow> rwatcher" where
  "new_rwatcher oo = \<lparr>rw_events = chan_make 100, rw_done = False, rw_service = wo_service (ro_watcher_option oo)\<rparr>"

text \<open>The new watcher gets the next number and is entered in the map.\<close>

definition remote_allocate :: "'w \<Rightarrow> ('w, 'z) remote_scheme \<Rightarrow> nat \<times> ('w, 'z) remote_scheme" where
  "remote_allocate w r =
     (let i = rr_nextID r + 1
      in (i, r\<lparr>rr_nextID := i, rr_watchers := insert i (rr_watchers r), rr_heap := (rr_heap r)(i \<mapsto> w)\<rparr>))"

text \<open>A \<open>select\<close> that sends an event, or drops it when the buffer is full.\<close>

definition push_event :: "event \<Rightarrow> 'b rwatcher_scheme \<Rightarrow> 'b rwatcher_scheme" where
  "push_event ev w = w\<lparr>rw_events := chan_offer ev (rw_events w)\<rparr>"

definition remote_push :: "nat \<Rightarrow> event \<Rightarrow> ('b rwatcher_scheme, 'z) remote_scheme \<Rightarrow> ('b rwatcher_scheme, 'z) remote_scheme" where
  "remote_push i ev r = r\<lparr>rr_heap := (rr_heap r)(i := map_option (push_event ev) (rr_heap r i))\<rparr>"

text \<open>\<open>notify\<close>: every watcher of the map gets its own send, so the order of the range does not matter.\<close>

definition wanted :: "string \<Rightarrow> 'b rwatcher_scheme \<Rightarrow> bool" where
  "wanted name w \<longleftrightarrow> rw_service w = '''' \<or> rw_service w = name"

definition remote_notify :: "event \<Rightarrow> ('b rwatcher_scheme, 'z) remote_scheme \<Rightarrow> ('b rwatcher_scheme, 'z) remote_scheme" where
  "remote_notify ev r = r\<lparr>rr_heap := (\<lambda>i.
     if i \<in> rr_watchers r
     then map_option (\<lambda>w. if wanted (svc_name (ev_service ev)) w then push_event ev w else w) (rr_heap r i)
     else rr_heap r i)\<rparr>"

text \<open>
  \<open>Next\<close>: the outcomes that are ready, of which the \<open>select\<close> takes one; with none ready the call waits.
  It looks at the watcher's own two channels and at nothing else.
\<close>

definition remote_Next ::
    "nat \<Rightarrow> ('b rwatcher_scheme, 'z) remote_scheme \<Rightarrow> (event result \<times> ('b rwatcher_scheme, 'z) remote_scheme) list" where
  "remote_Next i r =
     (case rr_heap r i of
        None \<Rightarrow> []
      | Some w \<Rightarrow>
          (case chan_recv (rw_events w) of
             Some (ev, c) \<Rightarrow> [(Inr ev, r\<lparr>rr_heap := (rr_heap r)(i \<mapsto> w\<lparr>rw_events := c\<rparr>)\<rparr>)]
           | None \<Rightarrow> []) @
          (if rw_done w then [(Inl ErrWatcherStopped, r)] else []))"

definition remote_done :: "nat \<Rightarrow> ('b rwatcher_scheme, 'z) remote_scheme \<Rightarrow> ('b rwatcher_scheme, 'z) remote_scheme" where
  "remote_done i r = r\<lparr>rr_heap := (rr_heap r)(i := map_option (rw_done_update (\<lambda>_. True)) (rr_heap r i))\<rparr>"

definition remote_Stop :: "nat \<Rightarrow> ('b rwatcher_scheme, 'z) remote_scheme \<Rightarrow> ('b rwatcher_scheme, 'z) remote_scheme" where
  "remote_Stop i r = remote_done i (r\<lparr>rr_watchers := rr_watchers r - {i}\<rparr>)"

text \<open>The calls of the callback \<open>OnEvent\<close>, when there is one.\<close>

definition on_event :: "reg_options \<Rightarrow> event list \<Rightarrow> (nat \<times> event) list" where
  "on_event oo evs = (case wo_on_event (ro_watcher_option oo) of None \<Rightarrow> [] | Some f \<Rightarrow> map (Pair f) evs)"

section \<open>The cache\<close>

text \<open>
  What \<open>Register\<close> and \<open>Deregister\<close> do to the cache, followed by their notification: always \<open>Create\<close>,
  also for a service that was there, and always \<open>Delete\<close>, also for one that was not.
\<close>

definition remote_cache_put ::
    "time \<Rightarrow> service \<Rightarrow> ('b rwatcher_scheme, 'z) remote_scheme \<Rightarrow> ('b rwatcher_scheme, 'z) remote_scheme" where
  "remote_cache_put t s r =
     remote_notify \<lparr>ev_type = Create, ev_service = s, ev_timestamp = t\<rparr> (r\<lparr>rr_services := cache_put s (rr_services r)\<rparr>)"

definition remote_cache_remove ::
    "time \<Rightarrow> service \<Rightarrow> ('b rwatcher_scheme, 'z) remote_scheme \<Rightarrow> ('b rwatcher_scheme, 'z) remote_scheme" where
  "remote_cache_remove t s r =
     remote_notify \<lparr>ev_type = Delete, ev_service = s, ev_timestamp = t\<rparr> (r\<lparr>rr_services := cache_remove s (rr_services r)\<rparr>)"

text \<open>Every cached service, by name in the order of the range.\<close>

definition cached_services :: "string list \<Rightarrow> cache \<Rightarrow> service list" where
  "cached_services ks c = concat (map snd (range_over ks c))"

lemma remote_notify_fields [simp]:
  "rr_opts (remote_notify ev r) = rr_opts r" "rr_services (remote_notify ev r) = rr_services r"
  "rr_watchers (remote_notify ev r) = rr_watchers r" "rr_nextID (remote_notify ev r) = rr_nextID r"
  "rr_running (remote_notify ev r) = rr_running r" "rr_client (remote_notify ev r) = rr_client r"
  "remote.more (remote_notify ev r) = remote.more r"
  by (simp_all add: remote_notify_def)

lemma remote_push_fields [simp]:
  "rr_opts (remote_push i ev r) = rr_opts r" "rr_services (remote_push i ev r) = rr_services r"
  "rr_watchers (remote_push i ev r) = rr_watchers r" "rr_nextID (remote_push i ev r) = rr_nextID r"
  "rr_running (remote_push i ev r) = rr_running r" "rr_client (remote_push i ev r) = rr_client r"
  "remote.more (remote_push i ev r) = remote.more r"
  by (simp_all add: remote_push_def)

lemma remote_done_fields [simp]:
  "rr_opts (remote_done i r) = rr_opts r" "rr_services (remote_done i r) = rr_services r"
  "rr_watchers (remote_done i r) = rr_watchers r" "rr_nextID (remote_done i r) = rr_nextID r"
  "rr_running (remote_done i r) = rr_running r" "rr_client (remote_done i r) = rr_client r"
  "remote.more (remote_done i r) = remote.more r"
  by (simp_all add: remote_done_def)

lemma remote_cache_fields [simp]:
  "rr_services (remote_cache_put t s r) = cache_put s (rr_services r)"
  "rr_services (remote_cache_remove t s r) = cache_remove s (rr_services r)"
  "rr_client (remote_cache_put t s r) = rr_client r" "rr_client (remote_cache_remove t s r) = rr_client r"
  "rr_running (remote_cache_put t s r) = rr_running r" "rr_running (remote_cache_remove t s r) = rr_running r"
  "rr_opts (remote_cache_put t s r) = rr_opts r" "rr_opts (remote_cache_remove t s r) = rr_opts r"
  "rr_watchers (remote_cache_put t s r) = rr_watchers r" "rr_watchers (remote_cache_remove t s r) = rr_watchers r"
  "remote.more (remote_cache_put t s r) = remote.more r" "remote.more (remote_cache_remove t s r) = remote.more r"
  by (simp_all add: remote_cache_put_def remote_cache_remove_def)

text \<open>A watcher that has left the map is out of reach of the notifications.\<close>

lemma remote_notify_unwatched [simp]: "i \<notin> rr_watchers r \<Longrightarrow> rr_heap (remote_notify ev r) i = rr_heap r i"
  by (simp add: remote_notify_def)

lemma remote_cache_unwatched [simp]:
  "i \<notin> rr_watchers r \<Longrightarrow> rr_heap (remote_cache_put t s r) i = rr_heap r i"
  "i \<notin> rr_watchers r \<Longrightarrow> rr_heap (remote_cache_remove t s r) i = rr_heap r i"
  by (simp_all add: remote_cache_put_def remote_cache_remove_def)

text \<open>\<open>Next\<close> waits exactly when the buffer is empty and the watcher is not stopped.\<close>

lemma remote_Next_waits:
  "rr_heap r i = Some w \<Longrightarrow> remote_Next i r = [] \<longleftrightarrow> chan_buf (rw_events w) = [] \<and> \<not> rw_done w"
  by (auto simp: remote_Next_def chan_simps split: option.splits)

section \<open>Invariant\<close>

text \<open>The map's watchers exist and are numbered by what was handed out; no buffer exceeds its capacity.\<close>

definition remote_ok :: "('b rwatcher_scheme, 'z) remote_scheme \<Rightarrow> bool" where
  "remote_ok r \<longleftrightarrow> rr_watchers r \<subseteq> dom (rr_heap r) \<and> (\<forall>i\<in>dom (rr_heap r). 0 < i \<and> i \<le> rr_nextID r) \<and>
     (\<forall>w\<in>ran (rr_heap r). chan_cap (rw_events w) = 100 \<and> chan_ok (rw_events w))"

definition fed :: "event chan \<Rightarrow> event chan \<Rightarrow> bool" where
  "fed c c' \<longleftrightarrow> c' = c \<or> (\<exists>ev. c' = chan_offer ev c \<or> chan_recv c = Some (ev, c'))"

lemma fed_intros [simp]: "fed c c" "fed c (chan_offer ev c)"
  by (auto simp: fed_def)

lemma fed_ok: "fed c c' \<Longrightarrow> chan_cap c = 100 \<and> chan_ok c \<Longrightarrow> chan_cap c' = 100 \<and> chan_ok c'"
  by (auto simp: fed_def chan_recv_Some intro: chan_ok_offer) (simp_all add: chan_ok_def)

lemma remote_ok_heap:
  assumes "remote_ok r" and "\<And>i. rr_heap r' i = None \<longleftrightarrow> rr_heap r i = None"
    and "rr_watchers r' \<subseteq> rr_watchers r" and "rr_nextID r' = rr_nextID r"
    and "\<And>i w w'. rr_heap r i = Some w \<Longrightarrow> rr_heap r' i = Some w' \<Longrightarrow> fed (rw_events w) (rw_events w')"
  shows "remote_ok r'"
proof -
  have dom: "dom (rr_heap r') = dom (rr_heap r)" by (rule set_eqI) (simp only: domIff assms(2))
  have "chan_cap (rw_events w') = 100 \<and> chan_ok (rw_events w')" if "w' \<in> ran (rr_heap r')" for w'
  proof -
    from that obtain i where i: "rr_heap r' i = Some w'" by (auto simp: ran_def)
    with assms(2) [of i] obtain w where w: "rr_heap r i = Some w" by (cases "rr_heap r i") auto
    with assms(1) have "chan_cap (rw_events w) = 100 \<and> chan_ok (rw_events w)"
      by (auto simp: remote_ok_def intro: ranI)
    with assms(5) [OF w i] show ?thesis by (rule fed_ok)
  qed
  with assms(1,3,4) dom show ?thesis by (auto simp: remote_ok_def)
qed




lemma rw_events_push [simp]: "rw_events (push_event ev w) = chan_offer ev (rw_events w)"
  by (simp add: push_event_def)

lemma remote_ok_notify [inv_intros]: "remote_ok r \<Longrightarrow> remote_ok (remote_notify ev r)"
proof (erule remote_ok_heap)
  fix i w w'
  assume "rr_heap r i = Some w" "rr_heap (remote_notify ev r) i = Some w'"
  then have "w' \<in> {w, push_event ev w}" by (simp add: remote_notify_def split: if_split_asm)
  then show "fed (rw_events w) (rw_events w')" by auto
qed (simp_all add: remote_notify_def)

lemma remote_ok_push [inv_intros]: "remote_ok r \<Longrightarrow> remote_ok (remote_push i ev r)"
proof (erule remote_ok_heap)
  fix j w w'
  assume "rr_heap r j = Some w" "rr_heap (remote_push i ev r) j = Some w'"
  then have "w' \<in> {w, push_event ev w}" by (simp add: remote_push_def split: if_split_asm)
  then show "fed (rw_events w) (rw_events w')" by auto
qed (simp_all add: remote_push_def)

lemma remote_ok_done [inv_intros]: "remote_ok r \<Longrightarrow> remote_ok (remote_done i r)"
  by (rule remote_ok_heap [of r]) (simp_all add: remote_done_def, force split: if_splits)
lemma remote_ok_Next [inv_intros]:
  assumes "remote_ok r" and "(a, r') \<in> set (remote_Next i r)"
  shows "remote_ok r'"
proof -
  obtain nw where nw: "rr_heap r i = Some nw"
    using assms(2) by (cases "rr_heap r i") (simp_all add: remote_Next_def)
  have "r' = r \<or> (\<exists>ev c. chan_recv (rw_events nw) = Some (ev, c) \<and>
      r' = r\<lparr>rr_heap := (rr_heap r)(i \<mapsto> nw\<lparr>rw_events := c\<rparr>)\<rparr>)"
    using assms(2) nw by (cases "chan_recv (rw_events nw)") (auto simp: remote_Next_def fun_upd_def split: if_splits)
  with nw consider "r' = r"
    | ev c where "rr_heap r i = Some nw" "chan_recv (rw_events nw) = Some (ev, c)"
        "r' = r\<lparr>rr_heap := (rr_heap r)(i \<mapsto> nw\<lparr>rw_events := c\<rparr>)\<rparr>" by blast
  then show ?thesis
  proof cases
    case 2
    show ?thesis
    proof (rule remote_ok_heap [OF assms(1)])
      fix j w w' assume "rr_heap r j = Some w" "rr_heap r' j = Some w'"
      with 2 show "fed (rw_events w) (rw_events w')" by (auto simp: fed_def split: if_splits)
    qed (use 2 in simp_all)
  qed (use assms(1) in simp)
qed

lemma remote_Next_fields:
  "(a, r') \<in> set (remote_Next i r) \<Longrightarrow> rr_running r' = rr_running r \<and> rr_client r' = rr_client r"
  by (auto simp: remote_Next_def split: option.splits if_splits)

lemma remote_ok_same:
  "remote_ok r \<Longrightarrow> rr_heap r' = rr_heap r \<Longrightarrow> rr_watchers r' \<subseteq> rr_watchers r \<Longrightarrow> rr_nextID r' = rr_nextID r \<Longrightarrow> remote_ok r'"
  by (auto simp: remote_ok_def)

lemma remote_ok_Stop [inv_intros]: "remote_ok r \<Longrightarrow> remote_ok (remote_Stop i r)"
  unfolding remote_Stop_def by (rule remote_ok_done, erule remote_ok_same) auto

lemma remote_ok_services [inv_intros]: "remote_ok r \<Longrightarrow> remote_ok (r\<lparr>rr_services := c\<rparr>)"
  by (simp add: remote_ok_def)

lemma remote_ok_cache [inv_intros]:
  "remote_ok r \<Longrightarrow> remote_ok (remote_cache_put t s r)" "remote_ok r \<Longrightarrow> remote_ok (remote_cache_remove t s r)"
  by (simp_all add: remote_cache_put_def remote_cache_remove_def remote_ok_notify remote_ok_services)

lemma remote_ok_allocate:
  assumes "remote_ok r" and "chan_cap (rw_events w) = 100" and "chan_ok (rw_events w)"
  shows "remote_ok (snd (remote_allocate w r))"
proof -
  have nums: "\<forall>i\<in>dom (rr_heap r). 0 < i \<and> i \<le> rr_nextID r" using assms(1) by (simp add: remote_ok_def)
  have "rr_nextID r + 1 \<notin> dom (rr_heap r)"
  proof
    assume "rr_nextID r + 1 \<in> dom (rr_heap r)"
    with nums have "rr_nextID r + 1 \<le> rr_nextID r" by blast
    then show False by simp
  qed
  then have "ran ((rr_heap r)(rr_nextID r + 1 \<mapsto> w)) = insert w (ran (rr_heap r))"
    by (simp only: domIff not_not ran_map_upd)
  moreover have "\<forall>i\<in>insert (rr_nextID r + 1) (dom (rr_heap r)). 0 < i \<and> i \<le> rr_nextID r + 1"
    using nums by (simp add: le_SucI)
  ultimately show ?thesis using assms by (simp add: remote_ok_def remote_allocate_def subset_insertI2)
qed

lemma new_rwatcher_chan [simp]: "chan_cap (rw_events (new_rwatcher oo)) = 100" "chan_ok (rw_events (new_rwatcher oo))"
  by (simp_all add: new_rwatcher_def)

text \<open>The cached part of a registration meets the contract of a caching backend.\<close>

fun remote_apply :: "reg_op \<Rightarrow> ('b rwatcher_scheme, 'z) remote_scheme \<Rightarrow> ('b rwatcher_scheme, 'z) remote_scheme" where
  "remote_apply (Reg t s) r = remote_cache_put t (stamped t s) r"
| "remote_apply (Dereg s) r = remote_cache_remove 0 s r"

interpretation remote_backend: cached_backend remote_apply rr_services "\<lambda>_. True"
  by (rule cached_backend.intro) (simp, case_tac a, simp_all)

end
