(* ===== verification/ConsulRegistry.thy ===== *)
theory ConsulRegistry
  imports RemoteRegistry
begin

text \<open>
  The Consul registry (\<open>registry/consul.go\<close>).  The agent's client is an argument, a record of functions
  on a world \<open>'w\<close>.  The operations run under the mutex, except for the deregistrations of \<open>Close\<close>; the
  health checks and the watchers' goroutines are steps of their own.
\<close>

section \<open>The agent\<close>

record consul_conf =
  kf_address :: string
  kf_https :: bool
  kf_tls :: "(string \<times> string \<times> string) option"
  kf_http_auth :: "(string \<times> string) option"

record consul_registration =
  kr_id :: string
  kr_name :: string
  kr_address :: string
  kr_port :: int
  kr_tags :: "string list"
  kr_meta :: "(string \<times> string) list"
  kr_ttl :: string

record consul_entry =
  ke_id :: string
  ke_service :: string
  ke_address :: string
  ke_port :: int
  ke_tags :: "string list"
  ke_meta :: "(string \<times> string) list"

text \<open>
  \<open>ka_health\<close> is \<open>Health().Service\<close> for passing instances; \<open>ka_catalog\<close> the names of \<open>Catalog().Services\<close>,
  in the order in which the range meets them.  \<open>ka_pass\<close> is \<open>PassTTL\<close>, which can fail: the code logs a warning
  and goes on.
\<close>

record 'w consul_agent =
  ka_new :: "consul_conf \<Rightarrow> 'w \<Rightarrow> go_error option"
  ka_self :: "'w \<Rightarrow> go_error option"
  ka_register :: "consul_registration \<Rightarrow> 'w \<Rightarrow> go_error option \<times> 'w"
  ka_pass :: "string \<Rightarrow> string \<Rightarrow> 'w \<Rightarrow> go_error option \<times> 'w"
  ka_deregister :: "string \<Rightarrow> 'w \<Rightarrow> go_error option \<times> 'w"
  ka_health :: "string \<Rightarrow> 'w \<Rightarrow> consul_entry list result"
  ka_catalog :: "'w \<Rightarrow> string list result"

section \<open>State\<close>

record consul_watcher = rwatcher +
  cw_lastIndex :: nat

record consul = "consul_watcher remote" +
  co_prefix :: string
  co_registered :: "service list"
  co_loops :: nat  \<comment> \<open>goroutines \<open>healthCheckLoop\<close>\<close>
  co_watching :: "nat set"  \<comment> \<open>watchers whose goroutine \<open>watch\<close> runs\<close>
  co_stopped :: bool  \<comment> \<open>\<open>stopCh\<close> is closed\<close>

definition consul_prefix :: "reg_options \<Rightarrow> string" where
  "consul_prefix oo =
     (let p = (if ro_group oo \<noteq> '''' then ro_group oo else '''')
      in if ro_namespace oo \<noteq> '''' then (if p \<noteq> '''' then p @ ''/'' else p) @ ro_namespace oo else p)"

definition newConsulRegistry :: "reg_option list \<Rightarrow> consul" where
  "newConsulRegistry os =
     (let oo = remote_options ''127.0.0.1:8500'' os
      in \<lparr>rr_opts = oo, rr_services = (\<lambda>_. None), rr_watchers = {}, rr_heap = (\<lambda>_. None), rr_nextID = 0, rr_running = False,
          rr_client = False, co_prefix = consul_prefix oo, co_registered = [], co_loops = 0, co_watching = {},
          co_stopped = False\<rparr>)"

text \<open>\<open>serviceName\<close> and \<open>serviceID\<close> do the same to their argument.\<close>

definition consul_serviceName :: "consul \<Rightarrow> string \<Rightarrow> string" where
  "consul_serviceName r name = (if co_prefix r = '''' then name else co_prefix r @ ''/'' @ name)"

definition consul_serviceID :: "consul \<Rightarrow> string \<Rightarrow> string" where
  "consul_serviceID r i = (if co_prefix r = '''' then i else co_prefix r @ ''/'' @ i)"

definition consul_config :: "reg_options \<Rightarrow> string \<Rightarrow> consul_conf" where
  "consul_config oo address =
     \<lparr>kf_address = address, kf_https = ro_secure oo,
      kf_tls = (if ro_secure oo \<and> ro_tls_cert oo \<noteq> '''' then Some (ro_tls_cert oo, ro_tls_key oo, ro_tls_cacert oo) else None),
      kf_http_auth = (if ro_username oo \<noteq> '''' then Some (ro_username oo, ro_password oo) else None)\<rparr>"

text \<open>Only the first address is used; there must be one.\<close>

definition consul_Connect :: "'w consul_agent \<Rightarrow> 'w \<Rightarrow> consul \<Rightarrow> (go_error option \<times> consul) outcome" where
  "consul_Connect ka w r =
     (if rr_running r then Ret (None, r)
      else (case ro_addresses (rr_opts r) of
              [] \<Rightarrow> Panicked ''index out of range''
            | address # _ \<Rightarrow>
                (case ka_new ka (consul_config (rr_opts r) address) w of
                   Some err \<Rightarrow> Ret (Some (Wrap ''consul connect failed'' err), r)
                 | None \<Rightarrow>
                     (case ka_self ka w of
                        Some err \<Rightarrow> Ret (Some (Wrap ''consul connect failed'' err), r)
                      | None \<Rightarrow> Ret (None, r\<lparr>rr_client := True, rr_running := True, co_loops := co_loops r + 1\<rparr>)))))"

section \<open>Registration\<close>

definition check_id :: "string \<Rightarrow> string" where
  "check_id i = ''service:'' @ i"

definition consul_registration_of :: "consul \<Rightarrow> service \<Rightarrow> consul_registration" where
  "consul_registration_of r s =
     (let (address, port) = parseAddr (svc_address s) 80
      in \<lparr>kr_id = consul_serviceID r (svc_id s), kr_name = consul_serviceName r (svc_name s), kr_address = address,
          kr_port = port, kr_tags = [svc_version s], kr_meta = svc_metadata s,
          kr_ttl = itoa (float_to_int (Seconds float64 (ro_ttl (rr_opts r)))) @ ''s''\<rparr>)"

definition consul_Register ::
    "'w consul_agent \<Rightarrow> time \<Rightarrow> time \<Rightarrow> service \<Rightarrow> 'w \<times> consul \<Rightarrow> go_error option \<times> 'w \<times> consul" where
  "consul_Register ka t t' s0 wr =
     (let (w, r) = wr
      in if \<not> rr_client r then (Some ErrNotConnected, w, r)
         else (case ka_register ka (consul_registration_of r s0) w of
             (Some err, w1) \<Rightarrow> (Some (Wrap ''consul register failed'' err), w1, r)
           | (None, w1) \<Rightarrow>
               (let s = stamped t s0
                in (None, snd (ka_pass ka (check_id (consul_serviceID r (svc_id s0))) ''initial registration'' w1),
                    remote_cache_put t' s (r\<lparr>co_registered := co_registered r @ [s]\<rparr>)))))"

definition consul_deregisterService :: "'w consul_agent \<Rightarrow> service \<Rightarrow> consul \<Rightarrow> 'w \<Rightarrow> go_error option \<times> 'w" where
  "consul_deregisterService ka s r w =
     (if \<not> rr_client r then (None, w) else ka_deregister ka (consul_serviceID r (svc_id s)) w)"

definition consul_Deregister ::
    "'w consul_agent \<Rightarrow> time \<Rightarrow> service \<Rightarrow> 'w \<times> consul \<Rightarrow> go_error option \<times> 'w \<times> consul" where
  "consul_Deregister ka t s wr =
     (let (w, r) = wr
      in case consul_deregisterService ka s r w of
           (Some err, w1) \<Rightarrow> (Some (Wrap ''consul deregister failed'' err), w1, r)
         | (None, w1) \<Rightarrow>
             (None, w1, remote_cache_remove t s
                (r\<lparr>co_registered := remove_first (\<lambda>svc. svc_id svc = svc_id s) (co_registered r)\<rparr>)))"

definition consul_Close :: "'w consul_agent \<Rightarrow> 'w \<times> consul \<Rightarrow> ('w \<times> consul) outcome" where
  "consul_Close ka wr =
     (let (w, r) = wr
      in if \<not> rr_running r then Ret (w, r)
         else if co_stopped r then Panicked ''close of closed channel''
         else Ret (fold (\<lambda>s w. snd (consul_deregisterService ka s r w)) (co_registered r) w,
                   r\<lparr>rr_running := False, co_stopped := True, co_registered := [], rr_watchers := {}\<rparr>))"

text \<open>\<open>healthCheckLoop\<close>: a tick passes the check of every service in the list; the loop ends with \<open>stopCh\<close>.\<close>

definition consul_health_tick :: "'w consul_agent \<Rightarrow> 'w \<times> consul \<Rightarrow> 'w \<times> consul" where
  "consul_health_tick ka wr =
     (let (w, r) = wr
      in (if co_loops r = 0 then w
          else fold (\<lambda>s w. snd (ka_pass ka (check_id (consul_serviceID r (svc_id s))) ''health check'' w)) (co_registered r) w, r))"

definition consul_health_end :: "consul \<Rightarrow> consul" where
  "consul_health_end r = (if co_stopped r then r\<lparr>co_loops := co_loops r - 1\<rparr> else r)"

section \<open>Lookup\<close>

definition entry_service :: "consul_entry \<Rightarrow> service" where
  "entry_service e =
     \<lparr>svc_name = ke_service e, svc_version = (case ke_tags e of [] \<Rightarrow> '''' | tag # _ \<Rightarrow> tag), svc_id = ke_id e,
      svc_address = ke_address e @ '':'' @ itoa (ke_port e), svc_metadata = ke_meta e, svc_endpoints = [], svc_ttl = 0,
      svc_last_seen = 0, svc_healthy = True\<rparr>"

definition consul_GetService :: "'w consul_agent \<Rightarrow> string \<Rightarrow> 'w \<times> consul \<Rightarrow> service list result \<times> consul" where
  "consul_GetService ka name wr =
     (let (w, r) = wr
      in if \<not> rr_client r then (Inl ErrNotConnected, r)
         else (case ka_health ka (consul_serviceName r name) w of
             Inl err \<Rightarrow>
               (if cached (rr_services r) name \<noteq> [] then Inr (cached (rr_services r) name)
                else Inl (Wrap ''consul get service failed'' err), r)
           | Inr entries \<Rightarrow>
               if entries = [] then (Inl ErrNotFound, r)
               else (let services = map entry_service entries
                     in (Inr services, r\<lparr>rr_services := (rr_services r)(name \<mapsto> services)\<rparr>))))"

text \<open>The names of the catalogue are the full ones, and each is looked up through \<open>GetService\<close>.\<close>

definition consul_list_step :: "'w consul_agent \<Rightarrow> 'w \<Rightarrow> string \<Rightarrow> service list \<times> consul \<Rightarrow> service list \<times> consul" where
  "consul_list_step ka w name lr =
     (let (l, r) = lr
      in if name = ''consul'' then (l, r)
         else (case consul_GetService ka name (w, r) of (Inl _, r') \<Rightarrow> (l, r') | (Inr svcs, r') \<Rightarrow> (l @ svcs, r')))"

definition consul_ListServices :: "'w consul_agent \<Rightarrow> string list \<Rightarrow> 'w \<times> consul \<Rightarrow> service list result \<times> consul" where
  "consul_ListServices ka ks wr =
     (let (w, r) = wr
      in if \<not> rr_client r then (Inl ErrNotConnected, r)
         else (case ka_catalog ka w of
             Inl _ \<Rightarrow> (Inr (cached_services ks (rr_services r)), r)
           | Inr names \<Rightarrow> (let (l, r') = fold (consul_list_step ka w) names ([], r) in (Inr l, r'))))"

section \<open>Watchers\<close>

definition consul_Watch :: "consul \<Rightarrow> nat result \<times> consul" where
  "consul_Watch r =
     (if \<not> rr_client r then (Inl ErrNotConnected, r)
      else (let (i, r1) = remote_allocate (rwatcher.extend (new_rwatcher (rr_opts r)) \<lparr>cw_lastIndex = 0\<rparr>) r
            in (Inr i, if wo_service (ro_watcher_option (rr_opts r)) \<noteq> '''' then r1\<lparr>co_watching := insert i (co_watching r1)\<rparr>
                       else r1)))"

text \<open>
  One blocking query of a watcher's goroutine and what follows an answer: instances with the index of
  the answer.  An answer with a newer index sends an event for every instance.
\<close>

definition consul_watch_answer ::
    "nat \<Rightarrow> time \<Rightarrow> (consul_entry list \<times> nat) result \<Rightarrow> consul \<Rightarrow> consul \<times> (nat \<times> event) list" where
  "consul_watch_answer i t answer r =
     (case (answer, rr_heap r i) of
        (Inr (entries, index), Some cw) \<Rightarrow>
          if i \<in> co_watching r \<and> index > cw_lastIndex cw
          then (let r1 = r\<lparr>rr_heap := (rr_heap r)(i \<mapsto> cw\<lparr>cw_lastIndex := index\<rparr>)\<rparr>;
                    evs = map (\<lambda>e. \<lparr>ev_type = Update, ev_service = entry_service e, ev_timestamp = t\<rparr>) entries
                in (fold (remote_push i) evs r1, on_event (rr_opts r) evs))
          else (r, [])
      | _ \<Rightarrow> (r, []))"

text \<open>The goroutine ends when it finds \<open>done\<close> or \<open>stopCh\<close> closed before a query.\<close>

definition consul_watch_check :: "nat \<Rightarrow> consul \<Rightarrow> consul" where
  "consul_watch_check i r =
     (if co_stopped r \<or> (case rr_heap r i of Some cw \<Rightarrow> rw_done cw | None \<Rightarrow> False)
      then r\<lparr>co_watching := co_watching r - {i}\<rparr> else r)"

section \<open>Properties\<close>

text \<open>
  The answer of the agent's health query for an instance, once its catalogue has it and its check is passing:
  the registration as it was made.
\<close>

definition entry_of :: "consul_registration \<Rightarrow> consul_entry" where
  "entry_of g = \<lparr>ke_id = kr_id g, ke_service = kr_name g, ke_address = kr_address g, ke_port = kr_port g,
     ke_tags = kr_tags g, ke_meta = kr_meta g\<rparr>"

text \<open>
  C29: What \<open>GetService\<close> says of a service registered at \<open>host:port\<close>, in whatever state the agent is by then and
  whether or not the first \<open>PassTTL\<close> succeeded, which \<open>Register\<close> only logs.  When the health query fails, the
  service comes back from the cache as it was registered.  When the query answers and shows the instance (which
  takes its check to be passing and the catalogue to have it), the service comes back with its address,
  version and metadata, healthy, but with the registry's prefix before its name and identifier: the
  identifier a deregistration of what came back asks the agent to remove has the prefix twice, and with a
  prefix it is not the one the service was registered under.
\<close>

theorem consul_register_get:
  assumes addr: "svc_address s = host @ '':'' @ itoa p" "CHR '':'' \<notin> set host" "in_int64 p"
    and took: "consul_Register ka t t' s (w, r) = (None, w1, r1)"
  shows "case ka_health ka (consul_serviceName r (svc_name s)) w' of
      Inl err \<Rightarrow> \<exists>svcs. consul_GetService ka (svc_name s) (w', r1) = (Inr svcs, r1) \<and> stamped t s \<in> set svcs
    | Inr entries \<Rightarrow> entry_of (consul_registration_of r s) \<in> set entries \<longrightarrow>
       (\<exists>svcs r2. consul_GetService ka (svc_name s) (w', r1) = (Inr svcs, r2) \<and>
          (\<exists>svc\<in>set svcs. svc_name svc = consul_serviceName r (svc_name s) \<and> svc_id svc = consul_serviceID r (svc_id s) \<and>
             svc_address svc = svc_address s \<and> svc_version svc = svc_version s \<and> svc_metadata svc = svc_metadata s \<and>
             svc_healthy svc \<and>
             consul_deregisterService ka svc r2 w' = ka_deregister ka (consul_serviceID r (consul_serviceID r (svc_id s))) w' \<and>
             (co_prefix r \<noteq> '''' \<longrightarrow> consul_serviceID r (consul_serviceID r (svc_id s)) \<noteq> kr_id (consul_registration_of r s))))"
proof -
  define g where "g = consul_registration_of r s"
  have parse: "parseAddr (svc_address s) 80 = (host, p)"
    unfolding addr(1) by (rule parseAddr_host_port) (use addr in simp_all)
  have g: "kr_id g = consul_serviceID r (svc_id s)" "kr_name g = consul_serviceName r (svc_name s)" "kr_address g = host"
    "kr_port g = p" "kr_tags g = [svc_version s]" "kr_meta g = svc_metadata s"
    by (simp_all add: g_def consul_registration_of_def parse)
  have client: "rr_client r" using took by (simp add: consul_Register_def split: if_splits)
  obtain x w2 where reg: "ka_register ka g w = (x, w2)" by (rule prod.exhaust)
  with took client have "x = None" by (cases x) (simp_all add: consul_Register_def g_def)
  with took client reg have r1: "r1 = remote_cache_put t' (stamped t s) (r\<lparr>co_registered := co_registered r @ [stamped t s]\<rparr>)"
    by (auto simp: consul_Register_def g_def [symmetric] Let_def)
  have keep: "rr_client r1" "co_prefix r1 = co_prefix r" "rr_services r1 = cache_put (stamped t s) (rr_services r)"
    using client by (simp_all add: r1 remote_cache_put_def remote_notify_def)
  then have name: "consul_serviceName r1 (svc_name s) = consul_serviceName r (svc_name s)" by (simp add: consul_serviceName_def)
  show ?thesis
  proof (cases "ka_health ka (consul_serviceName r (svc_name s)) w'")
    case (Inl err)
    have in_cache: "stamped t s \<in> set (cached (rr_services r1) (svc_name s))"
      using in_cached_put [of "stamped t s" "rr_services r"] keep(3) by simp
    then have "cached (rr_services r1) (svc_name s) \<noteq> []" by auto
    with Inl keep(1) name have "consul_GetService ka (svc_name s) (w', r1) = (Inr (cached (rr_services r1) (svc_name s)), r1)"
      by (simp add: consul_GetService_def)
    then show ?thesis using in_cache Inl by auto
  next
    case (Inr entries)
    define svc where "svc = entry_service (entry_of g)"
    have svc: "svc_name svc = consul_serviceName r (svc_name s)" "svc_id svc = consul_serviceID r (svc_id s)"
      "svc_address svc = svc_address s" "svc_version svc = svc_version s" "svc_metadata svc = svc_metadata s" "svc_healthy svc"
      by (simp_all add: svc_def entry_service_def entry_of_def g addr(1))
    have other: "co_prefix r \<noteq> '''' \<longrightarrow> consul_serviceID r (consul_serviceID r (svc_id s)) \<noteq> kr_id g"
      by (simp add: g consul_serviceID_def)
    have "\<exists>svcs r2. consul_GetService ka (svc_name s) (w', r1) = (Inr svcs, r2) \<and> svc \<in> set svcs \<and>
        consul_deregisterService ka svc r2 w' = ka_deregister ka (consul_serviceID r (consul_serviceID r (svc_id s))) w'"
      if "entry_of g \<in> set entries"
    proof -
      define r2 where "r2 = r1\<lparr>rr_services := (rr_services r1)(svc_name s \<mapsto> map entry_service entries)\<rparr>"
      have "consul_GetService ka (svc_name s) (w', r1) = (Inr (map entry_service entries), r2)"
        using that Inr keep(1) name by (auto simp: consul_GetService_def Let_def r2_def)
      moreover have "svc \<in> set (map entry_service entries)" using that by (simp add: svc_def)
      moreover have "consul_deregisterService ka svc r2 w' = ka_deregister ka (consul_serviceID r (consul_serviceID r (svc_id s))) w'"
        using keep(1,2) by (simp add: consul_deregisterService_def r2_def svc(2) consul_serviceID_def)
      ultimately show ?thesis by blast
    qed
    then show ?thesis unfolding Inr sum.case g_def [symmetric] using svc other by blast
  qed
qed

text \<open>An agent: its registrations, all of them passing.\<close>

definition consul_memory :: "consul_registration list consul_agent" where
  "consul_memory =
     \<lparr>ka_new = (\<lambda>_ _. None), ka_self = (\<lambda>_. None), ka_register = (\<lambda>g w. (None, g # filter (\<lambda>g'. kr_id g' \<noteq> kr_id g) w)),
      ka_pass = (\<lambda>_ _ w. (None, w)), ka_deregister = (\<lambda>i w. (None, filter (\<lambda>g. kr_id g \<noteq> i) w)),
      ka_health = (\<lambda>n w. Inr (map (\<lambda>g. \<lparr>ke_id = kr_id g, ke_service = kr_name g, ke_address = kr_address g, ke_port = kr_port g,
         ke_tags = kr_tags g, ke_meta = kr_meta g\<rparr>) (filter (\<lambda>g. kr_name g = n) w))),
      ka_catalog = (\<lambda>w. Inr (remdups (map kr_name w)))\<rparr>"

definition consul_connected :: consul where
  "consul_connected = (newConsulRegistry [])\<lparr>rr_client := True, rr_running := True, co_loops := 1\<rparr>"

lemma consul_connected_simps [simp]:
  "rr_client consul_connected" "rr_running consul_connected" "\<not> co_stopped consul_connected"
  "co_prefix consul_connected = ''DEFAULT_GROUP/public''" "co_registered consul_connected = []"
  "ro_addresses (rr_opts consul_connected) = [''127.0.0.1:8500'']"
  by (simp_all add: consul_connected_def newConsulRegistry_def consul_prefix_def remote_options_def reg_apply_all_def
      reg_DefaultOptions_def Let_def)

theorem consul_register_get_witness:
  "\<exists>w1 r1 svcs r2. consul_Register consul_memory 5 6 (demo_service ''a'' ''1'' 0) ([], consul_connected) = (None, w1, r1) \<and>
     consul_GetService consul_memory (svc_name (demo_service ''a'' ''1'' 0)) (w1, r1) = (Inr svcs, r2) \<and>
     (\<exists>svc\<in>set svcs. svc_name svc = ''DEFAULT_GROUP/public/a'' \<and> svc_address svc = ''10.0.0.1:80'' \<and> svc_healthy svc)"
proof -
  define s where "s = demo_service ''a'' ''1'' 0"
  have "itoa 80 = ''80''" by code_simp
  then have addr: "svc_address s = ''10.0.0.1'' @ '':'' @ itoa 80" by (simp add: s_def demo_service_def)
  define g where "g = consul_registration_of consul_connected s"
  obtain r1 where took: "consul_Register consul_memory 5 6 s ([], consul_connected) = (None, [g], r1)"
    by (simp add: consul_Register_def consul_memory_def Let_def g_def)
  have port: "in_int64 80" by (simp add: in_int64_def)
  have colon: "CHR '':'' \<notin> set ''10.0.0.1''" by simp
  have names: "svc_address s = ''10.0.0.1:80''" "svc_name s = ''a''" "consul_serviceName consul_connected ''a'' = ''DEFAULT_GROUP/public/a''"
    by (simp_all add: s_def demo_service_def consul_serviceName_def)
  have "kr_name g = consul_serviceName consul_connected (svc_name s)"
    by (simp add: g_def consul_registration_of_def split: prod.split)
  then have health: "ka_health consul_memory (consul_serviceName consul_connected (svc_name s)) [g] = Inr [entry_of g]"
    by (simp add: consul_memory_def entry_of_def)
  from consul_register_get [OF addr colon port took, of "[g]"] obtain svcs r2 svc
    where "consul_GetService consul_memory (svc_name s) ([g], r1) = (Inr svcs, r2)" "svc \<in> set svcs"
      "svc_name svc = ''DEFAULT_GROUP/public/a''" "svc_address svc = ''10.0.0.1:80''" "svc_healthy svc"
    unfolding health sum.case g_def [symmetric] by (auto simp: names)
  then show ?thesis using took unfolding s_def by blast
qed

text \<open>
  With a prefix (the defaults give one) \<open>ListServices\<close> finds nothing: the names of the catalogue have the
  prefix already, and each is looked up with the prefix put before it again.  The hypotheses: the agent
  knows no instances of a name outside its catalogue, and no name of the catalogue is another one with the
  prefix before it.
\<close>

theorem consul_ListServices_empty:
  assumes "rr_client r" and "co_prefix r \<noteq> ''''" and "ka_catalog ka w = Inr names"
    and "\<And>n. n \<notin> set names \<Longrightarrow> ka_health ka n w = Inr []"
    and "\<forall>n\<in>set names. co_prefix r @ ''/'' @ n \<notin> set names"
  shows "consul_ListServices ka ks (w, r) = (Inr [], r)"
proof -
  have step: "consul_list_step ka w n ([], r) = ([], r)" if "n \<in> set names" for n
  proof -
    have "ka_health ka (consul_serviceName r n) w = Inr []"
      using that assms(2,4,5) by (simp add: consul_serviceName_def)
    then show ?thesis using assms(1) by (simp add: consul_list_step_def consul_GetService_def)
  qed
  have "set ns \<subseteq> set names \<Longrightarrow> fold (consul_list_step ka w) ns ([], r) = ([], r)" for ns
    by (induction ns) (simp_all add: step)
  from this [of names] assms(1,3) show ?thesis by (simp add: consul_ListServices_def)
qed

theorem consul_ListServices_empty_witness:
  "consul_ListServices consul_memory []
     (snd (consul_Register consul_memory 5 6 (demo_service ''a'' ''1'' 0) ([], consul_connected))) =
   (Inr [], snd (snd (consul_Register consul_memory 5 6 (demo_service ''a'' ''1'' 0) ([], consul_connected))))"
proof -
  define g where "g = consul_registration_of consul_connected (demo_service ''a'' ''1'' 0)"
  have name: "kr_name g = ''DEFAULT_GROUP/public/a''"
    by (simp add: g_def consul_registration_of_def demo_service_def consul_serviceName_def split: prod.splits)
  obtain r' where took: "consul_Register consul_memory 5 6 (demo_service ''a'' ''1'' 0) ([], consul_connected) = (None, [g], r')"
      "rr_client r'" "co_prefix r' = ''DEFAULT_GROUP/public''"
    by (simp add: consul_Register_def consul_memory_def Let_def g_def remote_cache_put_def remote_notify_def)
  have "consul_ListServices consul_memory [] ([g], r') = (Inr [], r')"
    by (rule consul_ListServices_empty) (use took name in \<open>auto simp: consul_memory_def\<close>)
  then show ?thesis by (simp add: took(1))
qed

text \<open>
  A service registered after \<open>Close\<close> is accepted, since the client stays set, but nothing takes it out again
  or keeps its check passing: a second \<open>Close\<close> does nothing, and once the goroutine of the first connection
  has ended a tick does nothing either.
\<close>

theorem consul_register_after_close:
  assumes "rr_running r" and "rr_client r" and "\<not> co_stopped r" and "co_loops r = 1"
    and closed: "consul_Close ka (w, r) = Ret (w1, r1)"
    and took: "ka_register ka (consul_registration_of (consul_health_end r1) s) w1 = (None, w2)"
  shows "\<exists>w3 r3. consul_Register ka t t' s (w1, consul_health_end r1) = (None, w3, r3) \<and>
     consul_Close ka (w3, r3) = Ret (w3, r3) \<and> consul_health_tick ka (w3, r3) = (w3, r3) \<and>
     stamped t s \<in> set (co_registered r3)"
proof -
  have r1: "\<not> rr_running (consul_health_end r1)" "rr_client (consul_health_end r1)" "co_loops (consul_health_end r1) = 0"
    using assms(1-4) closed by (auto simp: consul_Close_def consul_health_end_def split: if_splits)
  then show ?thesis using took
    by (simp add: consul_Register_def consul_Close_def consul_health_tick_def Let_def remote_cache_put_def remote_notify_def)
qed

theorem consul_register_after_close_witness:
  "\<exists>w1 r1 w3 r3. consul_Close consul_memory ([], consul_connected) = Ret (w1, r1) \<and>
     consul_Register consul_memory 5 6 (demo_service ''a'' ''1'' 0) (w1, consul_health_end r1) = (None, w3, r3) \<and>
     consul_Close consul_memory (w3, r3) = Ret (w3, r3)"
proof -
  obtain w1 r1 where closed: "consul_Close consul_memory ([], consul_connected) = Ret (w1, r1)"
    by (simp add: consul_Close_def)
  define g where "g = consul_registration_of (consul_health_end r1) (demo_service ''a'' ''1'' 0)"
  have took: "ka_register consul_memory g w1 = (None, g # filter (\<lambda>g'. kr_id g' \<noteq> kr_id g) w1)" by (simp add: consul_memory_def)
  have loops: "co_loops consul_connected = 1" by (simp add: consul_connected_def)
  from consul_register_after_close [OF _ _ _ loops closed took [unfolded g_def], of 5 6] closed show ?thesis
    by (metis consul_connected_simps(1-3))
qed

text \<open>
  Registering a service twice enters it twice in the list of \<open>co_registered\<close>; deregistering it takes one
  entry out, so its check is still passed on every tick although the agent no longer has it.
\<close>

theorem consul_double_register_survives:
  assumes client: "rr_client r" and "\<And>g w. fst (ka_register ka g w) = None" and "\<And>i w. fst (ka_deregister ka i w) = None"
    and "co_registered r = []" and "cache_ok (rr_services r)"
  shows "\<exists>w' r'. snd (consul_Deregister ka t s (snd (consul_Register ka t t s (snd (consul_Register ka t t s (w, r)))))) = (w', r') \<and>
     co_registered r' = [stamped t s] \<and> cache_lookup (rr_services r') (svc_name s) (svc_id s) = None"
proof -
  have one: "\<exists>w1. snd (consul_Register ka t t s (w, r)) =
      (w1, remote_cache_put t (stamped t s) (r\<lparr>co_registered := co_registered r @ [stamped t s]\<rparr>))"
    if "rr_client r" for w r
    using that assms(2) [of "consul_registration_of r s" w]
    by (cases "ka_register ka (consul_registration_of r s) w") (simp add: consul_Register_def Let_def)
  obtain w1 where w1: "snd (consul_Register ka t t s (w, r)) =
      (w1, remote_cache_put t (stamped t s) (r\<lparr>co_registered := [stamped t s]\<rparr>))"
    using one [OF client, of w] assms(4) by auto
  define r1 where "r1 = remote_cache_put t (stamped t s) (r\<lparr>co_registered := [stamped t s]\<rparr>)"
  have r1: "rr_client r1" "co_registered r1 = [stamped t s]" "rr_services r1 = cache_put (stamped t s) (rr_services r)"
    using client by (simp_all add: r1_def remote_cache_put_def remote_notify_def)
  obtain w2 where w2: "snd (consul_Register ka t t s (w1, r1)) =
      (w2, remote_cache_put t (stamped t s) (r1\<lparr>co_registered := [stamped t s, stamped t s]\<rparr>))"
    using one [OF r1(1), of w1] r1(2) by auto
  define r2 where "r2 = remote_cache_put t (stamped t s) (r1\<lparr>co_registered := [stamped t s, stamped t s]\<rparr>)"
  have r2: "rr_client r2" "co_registered r2 = [stamped t s, stamped t s]"
      "rr_services r2 = cache_put (stamped t s) (rr_services r1)"
    using r1 by (simp_all add: r2_def remote_cache_put_def remote_notify_def)
  obtain w3 where w3: "ka_deregister ka (consul_serviceID r2 (svc_id s)) w2 = (None, w3)"
    using assms(3) [of "consul_serviceID r2 (svc_id s)" w2] by (metis prod.collapse)
  have "cache_ok (rr_services r2)" unfolding r2(3) r1(3) by (intro cache_ok_put assms(5))
  then have "cache_lookup (rr_services (snd (snd (consul_Deregister ka t s (w2, r2))))) (svc_name s) (svc_id s) = None"
    using w3 r2(1) by (simp add: consul_Deregister_def consul_deregisterService_def cache_lookup_remove)
  moreover have "co_registered (snd (snd (consul_Deregister ka t s (w2, r2)))) = [stamped t s]"
    using w3 r2 by (simp add: consul_Deregister_def consul_deregisterService_def remote_cache_remove_def remote_notify_def)
  ultimately show ?thesis unfolding w1 r1_def [symmetric] w2 r2_def [symmetric] by (metis prod.collapse)
qed

theorem consul_double_register_survives_witness:
  "\<exists>w' r'. snd (consul_Deregister consul_memory 5 (demo_service ''a'' ''1'' 0) (snd (consul_Register consul_memory 5 5 (demo_service ''a'' ''1'' 0)
      (snd (consul_Register consul_memory 5 5 (demo_service ''a'' ''1'' 0) ([], consul_connected)))))) = (w', r') \<and>
     co_registered r' = [stamped 5 (demo_service ''a'' ''1'' 0)]"
proof -
  have "cache_ok (rr_services consul_connected)" by (simp add: consul_connected_def newConsulRegistry_def Let_def)
  then have "\<exists>w' r'. snd (consul_Deregister consul_memory 5 (demo_service ''a'' ''1'' 0) (snd (consul_Register consul_memory 5 5 (demo_service ''a'' ''1'' 0)
      (snd (consul_Register consul_memory 5 5 (demo_service ''a'' ''1'' 0) ([], consul_connected)))))) = (w', r') \<and>
     co_registered r' = [stamped 5 (demo_service ''a'' ''1'' 0)] \<and>
     cache_lookup (rr_services r') (svc_name (demo_service ''a'' ''1'' 0)) (svc_id (demo_service ''a'' ''1'' 0)) = None"
    by (intro consul_double_register_survives) (simp_all add: consul_memory_def)
  then show ?thesis by blast
qed

end
