(* ===== verification/MemoryRegistry.thy ===== *)
theory MemoryRegistry
  imports RegistryTypes
begin

text \<open>
  The in-memory registry (\<open>registry/memory.go\<close>).  The watchers a client may still hold are a
  heap \<open>mr_heap\<close> from identifiers to watcher objects (\<open>nextID\<close> never repeats an identifier, so
  it names the object); \<open>mr_registered\<close> is the key set of the map \<open>r.watchers\<close>.  Each mutex
  section is one definition, and the exported operations compose them as the code does; the
  sends of \<open>notify\<close> happen after the mutex is released, which \<open>mem_step\<close> below makes visible.
\<close>

section \<open>State\<close>

record mem_watcher =
  mw_events :: "event chan"
  mw_done :: bool
  mw_service :: string

record mem_registry =
  mr_opts :: reg_options
  mr_services :: cache
  mr_registered :: "nat set"
  mr_heap :: "nat \<Rightarrow> mem_watcher option"
  mr_nextID :: nat
  mr_running :: bool
  mr_cleaners :: nat  \<comment> \<open>cleanup goroutines alive\<close>

definition memoryWatcherBufferSize :: nat where
  "memoryWatcherBufferSize = 1024"

definition newMemoryRegistry :: "reg_option list \<Rightarrow> mem_registry" where
  "newMemoryRegistry os =
     \<lparr>mr_opts = reg_apply_all os reg_DefaultOptions, mr_services = (\<lambda>_. None),
      mr_registered = {}, mr_heap = (\<lambda>_. None), mr_nextID = 0, mr_running = False,
      mr_cleaners = 0\<rparr>"

definition memory_Init :: "reg_option list \<Rightarrow> mem_registry \<Rightarrow> mem_registry" where
  "memory_Init os r = r\<lparr>mr_opts := reg_apply_all os (mr_opts r)\<rparr>"

definition memory_Connect :: "mem_registry \<Rightarrow> mem_registry" where
  "memory_Connect r =
     (if mr_running r then r else r\<lparr>mr_running := True, mr_cleaners := mr_cleaners r + 1\<rparr>)"

text \<open>\<open>once.Do(func() \{ close(done) \})\<close> on a watcher object.\<close>

definition close_done :: "nat \<Rightarrow> (nat \<Rightarrow> mem_watcher option) \<Rightarrow> nat \<Rightarrow> mem_watcher option" where
  "close_done w h = h(w := map_option (\<lambda>mw. mw\<lparr>mw_done := True\<rparr>) (h w))"

text \<open>\<open>ws\<close> is the order in which \<open>range r.watchers\<close> visits the watchers.\<close>

definition memory_Close :: "nat list \<Rightarrow> mem_registry \<Rightarrow> mem_registry" where
  "memory_Close ws r =
     (if \<not> mr_running r then r
      else r\<lparr>mr_running := False, mr_registered := {}, mr_services := (\<lambda>_. None),
             mr_heap := fold close_done ws (mr_heap r)\<rparr>)"

section \<open>Notification\<close>

definition watches :: "mem_registry \<Rightarrow> string \<Rightarrow> nat \<Rightarrow> bool" where
  "watches r name w =
     (case mr_heap r w of
        Some mw \<Rightarrow> mw_service mw = [] \<or> mw_service mw = name
      | None \<Rightarrow> False)"

definition memory_snapshotWatchers :: "nat list \<Rightarrow> string \<Rightarrow> mem_registry \<Rightarrow> nat list" where
  "memory_snapshotWatchers ws name r = filter (watches r name) ws"

text \<open>The \<open>select\<close> with a \<open>default\<close> branch that drops the event when the buffer is full.\<close>

definition offer_event :: "event \<Rightarrow> nat \<Rightarrow> mem_registry \<Rightarrow> mem_registry" where
  "offer_event ev w r =
     (if watches r (svc_name (ev_service ev)) w
      then r\<lparr>mr_heap := (mr_heap r)(w := map_option
                (\<lambda>mw. mw\<lparr>mw_events := chan_offer ev (mw_events mw)\<rparr>) (mr_heap r w))\<rparr>
      else r)"

definition memory_notify :: "nat list \<Rightarrow> event \<Rightarrow> mem_registry \<Rightarrow> mem_registry" where
  "memory_notify ws ev r =
     fold (offer_event ev) (memory_snapshotWatchers ws (svc_name (ev_service ev)) r) r"

section \<open>Registration and lookup\<close>

text \<open>
  \<open>Register\<close>: the mutex section (first \<open>time.Now()\<close> is \<open>t\<close>, the event's is \<open>t'\<close>), then the
  notification.  The caller's service is written through its pointer: the first component.
\<close>

definition memory_register_locked ::
    "time \<Rightarrow> time \<Rightarrow> service \<Rightarrow> mem_registry \<Rightarrow> service \<times> event \<times> mem_registry" where
  "memory_register_locked t t' s0 r =
     (let s = stamped t s0;
          ty = (if cache_has (mr_services r) s then Update else Create)
      in (s, \<lparr>ev_type = ty, ev_service = s, ev_timestamp = t'\<rparr>,
          r\<lparr>mr_services := cache_put s (mr_services r)\<rparr>))"

definition memory_Register ::
    "nat list \<Rightarrow> time \<Rightarrow> time \<Rightarrow> service \<Rightarrow> mem_registry \<Rightarrow> service \<times> mem_registry" where
  "memory_Register ws t t' s0 r =
     (let (s, ev, r') = memory_register_locked t t' s0 r in (s, memory_notify ws ev r'))"

definition memory_deregister_locked ::
    "time \<Rightarrow> service \<Rightarrow> mem_registry \<Rightarrow> event option \<times> mem_registry" where
  "memory_deregister_locked t s r =
     (if cache_has (mr_services r) s
      then (Some \<lparr>ev_type = Delete, ev_service = s, ev_timestamp = t\<rparr>,
            r\<lparr>mr_services := cache_remove s (mr_services r)\<rparr>)
      else (None, r))"

definition memory_Deregister ::
    "nat list \<Rightarrow> time \<Rightarrow> service \<Rightarrow> mem_registry \<Rightarrow> mem_registry" where
  "memory_Deregister ws t s r =
     (case memory_deregister_locked t s r of
        (Some ev, r') \<Rightarrow> memory_notify ws ev r'
      | (None, r') \<Rightarrow> r')"

definition alive :: "time \<Rightarrow> service \<Rightarrow> bool" where
  "alive now s \<longleftrightarrow> svc_ttl s = 0 \<or> now - svc_last_seen s < svc_ttl s"

definition memory_GetService :: "string \<Rightarrow> time \<Rightarrow> mem_registry \<Rightarrow> service list result" where
  "memory_GetService name now r =
     (case mr_services r name of
        None \<Rightarrow> Inl ErrNotFound
      | Some services \<Rightarrow>
          if services = [] then Inl ErrNotFound
          else (let result = filter (\<lambda>s. svc_healthy s \<and> alive now s) services
                in if result = [] then Inl ErrNotFound else Inr result))"

text \<open>\<open>ks\<close> is the order of \<open>range r.services\<close>.\<close>

definition memory_ListServices :: "string list \<Rightarrow> time \<Rightarrow> mem_registry \<Rightarrow> service list result" where
  "memory_ListServices ks now r =
     Inr (concat (map (\<lambda>(name, services). filter (\<lambda>s. svc_healthy s \<and> alive now s) services)
                      (range_over ks (mr_services r))))"

section \<open>Watchers\<close>

definition memory_Watch :: "mem_registry \<Rightarrow> nat \<times> mem_registry" where
  "memory_Watch r =
     (let w = mr_nextID r + 1
      in (w, r\<lparr>mr_nextID := w, mr_registered := insert w (mr_registered r),
               mr_heap := (mr_heap r)(w \<mapsto>
                 \<lparr>mw_events = chan_make memoryWatcherBufferSize, mw_done = False,
                  mw_service = wo_service (ro_watcher_option (mr_opts r))\<rparr>)\<rparr>))"

definition memory_Stop :: "nat \<Rightarrow> mem_registry \<Rightarrow> mem_registry" where
  "memory_Stop w r =
     r\<lparr>mr_registered := mr_registered r - {w}, mr_heap := close_done w (mr_heap r)\<rparr>"

text \<open>
  \<open>Next\<close> selects between the events and the closed \<open>done\<close>: the list of the outcomes that are
  ready, of which Go takes one at random; with none ready the call blocks.
\<close>

definition memory_Next :: "nat \<Rightarrow> mem_registry \<Rightarrow> (event result \<times> mem_registry) list" where
  "memory_Next w r =
     (case mr_heap r w of
        None \<Rightarrow> []
      | Some mw \<Rightarrow>
          (case chan_recv (mw_events mw) of
             Some (ev, c) \<Rightarrow> [(Inr ev, r\<lparr>mr_heap := (mr_heap r)(w \<mapsto> mw\<lparr>mw_events := c\<rparr>)\<rparr>)]
           | None \<Rightarrow> []) @
          (if mw_done mw then [(Inl ErrWatcherStopped, r)] else []))"

section \<open>Cleanup\<close>

text \<open>
  One round of the cleanup goroutine.  The context's \<open>Done\<close> or a tick on a stopped registry
  ends the goroutine.  On a tick of a running one, each name's services are split, in the order
  \<open>ks\<close>, into those still alive and the expired ones, whose events are sent after the mutex is
  released.
\<close>

datatype cleanup_wakeup = ContextDone | Tick time

definition cleanup_name :: "time \<Rightarrow> string \<Rightarrow> cache \<times> event list \<Rightarrow> cache \<times> event list" where
  "cleanup_name now name ce =
     (let (c, evs) = ce;
          active = filter (alive now) (cached c name);
          expired = filter (\<lambda>s. \<not> alive now s) (cached c name)
      in ((if active \<noteq> [] then c(name \<mapsto> active) else c(name := None)),
          evs @ map (\<lambda>s. \<lparr>ev_type = Delete, ev_service = s, ev_timestamp = now\<rparr>) expired))"

definition memory_cleanup ::
    "cleanup_wakeup \<Rightarrow> string list \<Rightarrow> nat list \<Rightarrow> mem_registry \<Rightarrow> mem_registry" where
  "memory_cleanup wake ks ws r =
     (case wake of
        ContextDone \<Rightarrow> r\<lparr>mr_cleaners := mr_cleaners r - 1\<rparr>
      | Tick now \<Rightarrow>
          if \<not> mr_running r then r\<lparr>mr_cleaners := mr_cleaners r - 1\<rparr>
          else (let (c, evs) = fold (cleanup_name now) ks (mr_services r, [])
                in fold (memory_notify ws) evs (r\<lparr>mr_services := c\<rparr>)))"

section \<open>What a notification does\<close>

lemma watches_offer_event [simp]: "watches (offer_event ev w r) name v = watches r name v"
  by (auto simp: watches_def offer_event_def split: option.splits)

lemma offer_event_fields [simp]:
  "mr_services (offer_event ev w r) = mr_services r" "mr_registered (offer_event ev w r) = mr_registered r"
  "mr_nextID (offer_event ev w r) = mr_nextID r" "mr_running (offer_event ev w r) = mr_running r"
  "mr_opts (offer_event ev w r) = mr_opts r" "mr_cleaners (offer_event ev w r) = mr_cleaners r"
  by (simp_all add: offer_event_def)

lemma fold_offer_event:
  assumes "distinct ws"
  shows "fold (offer_event ev) (filter (watches r (svc_name (ev_service ev))) ws) r =
     r\<lparr>mr_heap := (\<lambda>w. if w \<in> set ws \<and> watches r (svc_name (ev_service ev)) w
        then map_option (\<lambda>mw. mw\<lparr>mw_events := chan_offer ev (mw_events mw)\<rparr>) (mr_heap r w)
        else mr_heap r w)\<rparr>"
  using assms
proof (induction ws arbitrary: r)
  case (Cons w ws)
  show ?case
  proof (cases "watches r (svc_name (ev_service ev)) w")
    case True
    let ?r1 = "offer_event ev w r"
    have W: "watches ?r1 = watches r" by (intro ext) simp
    have heap: "mr_heap ?r1 = (mr_heap r)(w := map_option
        (\<lambda>mw. mw\<lparr>mw_events := chan_offer ev (mw_events mw)\<rparr>) (mr_heap r w))"
      using True by (simp add: offer_event_def)
    have "fold (offer_event ev) (filter (watches r (svc_name (ev_service ev))) (w # ws)) r =
        fold (offer_event ev) (filter (watches ?r1 (svc_name (ev_service ev))) ws) ?r1"
      using True W by simp
    also have "\<dots> = ?r1\<lparr>mr_heap := (\<lambda>v. if v \<in> set ws \<and> watches ?r1 (svc_name (ev_service ev)) v
        then map_option (\<lambda>mw. mw\<lparr>mw_events := chan_offer ev (mw_events mw)\<rparr>) (mr_heap ?r1 v)
        else mr_heap ?r1 v)\<rparr>"
      by (rule Cons.IH) (use Cons.prems in simp)
    finally show ?thesis
      using True Cons.prems by (auto simp: W heap intro!: mem_registry.equality ext)
  next
    case False
    then have "filter (watches r (svc_name (ev_service ev))) (w # ws) =
        filter (watches r (svc_name (ev_service ev))) ws" by simp
    with Cons False show ?thesis by (auto intro!: mem_registry.equality ext)
  qed
qed simp

text \<open>
  The order in which the watchers are visited does not matter: each interested one is offered
  the event once.
\<close>

lemma memory_notify_eq:
  "distinct ws \<Longrightarrow> memory_notify ws ev r =
     r\<lparr>mr_heap := (\<lambda>w. if w \<in> set ws \<and> watches r (svc_name (ev_service ev)) w
        then map_option (\<lambda>mw. mw\<lparr>mw_events := chan_offer ev (mw_events mw)\<rparr>) (mr_heap r w)
        else mr_heap r w)\<rparr>"
  unfolding memory_notify_def memory_snapshotWatchers_def by (rule fold_offer_event)

lemma fold_offer_fields:
  "mr_services (fold (offer_event ev) vs r) = mr_services r \<and>
   mr_registered (fold (offer_event ev) vs r) = mr_registered r \<and>
   mr_nextID (fold (offer_event ev) vs r) = mr_nextID r \<and>
   mr_running (fold (offer_event ev) vs r) = mr_running r"
  by (induction vs arbitrary: r) auto

lemma memory_notify_fields [simp]:
  "mr_services (memory_notify ws ev r) = mr_services r"
  "mr_registered (memory_notify ws ev r) = mr_registered r"
  "mr_nextID (memory_notify ws ev r) = mr_nextID r"
  "mr_running (memory_notify ws ev r) = mr_running r"
  by (simp_all add: memory_notify_def fold_offer_fields)

lemma memory_Register_services [simp]:
  "mr_services (snd (memory_Register ws t t' s r)) = cache_put (stamped t s) (mr_services r)"
  by (simp add: memory_Register_def memory_register_locked_def Let_def)

lemma memory_Register_running [simp]: "mr_running (snd (memory_Register ws t t' s r)) = mr_running r"
  by (simp add: memory_Register_def memory_register_locked_def Let_def)

lemma memory_Deregister_services [simp]:
  "mr_services (memory_Deregister ws t s r) = cache_remove s (mr_services r)"
  by (simp add: memory_Deregister_def memory_deregister_locked_def cache_remove_def)

section \<open>The memory registry fulfils the contract\<close>

definition memory_lookup :: "mem_registry \<Rightarrow> string \<Rightarrow> string \<Rightarrow> service option" where
  "memory_lookup r = cache_lookup (mr_services r)"

interpretation mem: registry_contract
  "\<lambda>t s r. snd (memory_Register ws t t s r)" "\<lambda>s r. memory_Deregister ws 0 s r"
  memory_lookup stamped "\<lambda>r. cache_ok (mr_services r)" for ws
  by unfold_locales
    (simp_all add: memory_lookup_def inv_intros cache_lookup_put cache_lookup_remove)

section \<open>The invariant\<close>

definition mem_watcher_ok :: "mem_watcher \<Rightarrow> bool" where
  "mem_watcher_ok mw \<longleftrightarrow>
     chan_ok (mw_events mw) \<and> chan_cap (mw_events mw) = memoryWatcherBufferSize"

definition mem_ok :: "mem_registry \<Rightarrow> bool" where
  "mem_ok r \<longleftrightarrow>
     cache_ok (mr_services r) \<and> finite (mr_registered r) \<and>
     (\<forall>w\<in>mr_registered r. \<exists>mw. mr_heap r w = Some mw \<and> \<not> mw_done mw) \<and>
     (\<forall>w mw. mr_heap r w = Some mw \<longrightarrow> 0 < w \<and> w \<le> mr_nextID r \<and> mem_watcher_ok mw)"

lemma mem_ok_new: "mem_ok (newMemoryRegistry os)"
  by (simp add: mem_ok_def newMemoryRegistry_def)

lemma mem_ok_Init [inv_intros]: "mem_ok r \<Longrightarrow> mem_ok (memory_Init os r)"
  by (simp add: mem_ok_def memory_Init_def)

lemma mem_ok_Connect [inv_intros]: "mem_ok r \<Longrightarrow> mem_ok (memory_Connect r)"
  by (simp add: mem_ok_def memory_Connect_def)

lemma fold_close_done:
  "fold close_done ws h w =
     (if w \<in> set ws then map_option (\<lambda>mw. mw\<lparr>mw_done := True\<rparr>) (h w) else h w)"
proof (induction ws arbitrary: h)
  case (Cons v ws)
  have "fold close_done (v # ws) h w = fold close_done ws (close_done v h) w" by simp
  also have "\<dots> = (if w \<in> set ws then map_option (\<lambda>mw. mw\<lparr>mw_done := True\<rparr>) (close_done v h w)
      else close_done v h w)" by (rule Cons.IH)
  also have "close_done v h w =
      (if w = v then map_option (\<lambda>mw. mw\<lparr>mw_done := True\<rparr>) (h w) else h w)"
    by (simp add: close_done_def)
  finally show ?case by (cases "h w") (auto simp del: fold.simps)
qed simp

lemma mem_ok_Close [inv_intros]: "mem_ok r \<Longrightarrow> mem_ok (memory_Close ws r)"
  by (auto simp: mem_ok_def memory_Close_def fold_close_done mem_watcher_ok_def split: if_splits)

lemma mem_watcher_ok_offer:
  "mem_watcher_ok mw \<Longrightarrow> mem_watcher_ok (mw\<lparr>mw_events := chan_offer ev (mw_events mw)\<rparr>)"
  by (simp add: mem_watcher_ok_def chan_ok_offer)

lemma mem_watcher_ok_recv:
  "mem_watcher_ok mw \<Longrightarrow> chan_recv (mw_events mw) = Some (ev, c) \<Longrightarrow>
     mem_watcher_ok (mw\<lparr>mw_events := c\<rparr>)"
  by (auto simp: mem_watcher_ok_def chan_simps chan_ok_def)

lemma mem_ok_offer [inv_intros]: "mem_ok r \<Longrightarrow> mem_ok (offer_event ev w r)"
  by (auto simp: mem_ok_def offer_event_def intro: mem_watcher_ok_offer)

lemma mem_ok_notify [inv_intros]: "mem_ok r \<Longrightarrow> mem_ok (memory_notify ws ev r)"
proof -
  have "mem_ok r \<Longrightarrow> mem_ok (fold (offer_event ev) vs r)" for vs
    by (induction vs arbitrary: r) (auto intro: mem_ok_offer)
  then show "mem_ok r \<Longrightarrow> ?thesis" by (simp add: memory_notify_def)
qed

lemma mem_ok_services: "mem_ok r \<Longrightarrow> cache_ok c \<Longrightarrow> mem_ok (r\<lparr>mr_services := c\<rparr>)"
  by (simp add: mem_ok_def)

lemma mem_ok_cache: "mem_ok r \<Longrightarrow> cache_ok (mr_services r)"
  by (simp add: mem_ok_def)

lemma mem_ok_Register [inv_intros]: "mem_ok r \<Longrightarrow> mem_ok (snd (memory_Register ws t t' s r))"
  by (simp add: memory_Register_def memory_register_locked_def Let_def mem_ok_notify
      mem_ok_services cache_ok_put mem_ok_cache)

lemma mem_ok_Deregister [inv_intros]: "mem_ok r \<Longrightarrow> mem_ok (memory_Deregister ws t s r)"
  by (simp add: memory_Deregister_def memory_deregister_locked_def mem_ok_notify
      mem_ok_services cache_ok_remove mem_ok_cache)

lemma mem_ok_Watch [inv_intros]: "mem_ok r \<Longrightarrow> mem_ok (snd (memory_Watch r))"
  by (auto simp: mem_ok_def memory_Watch_def Let_def mem_watcher_ok_def split: if_splits)
    (metis le_SucI)+

lemma mem_ok_Stop [inv_intros]: "mem_ok r \<Longrightarrow> mem_ok (memory_Stop w r)"
  by (auto simp: mem_ok_def memory_Stop_def close_done_def mem_watcher_ok_def split: if_splits)

lemma memory_NextE:
  assumes "(res, r') \<in> set (memory_Next w r)"
  obtains (event) mw ev c where "mr_heap r w = Some mw" "chan_recv (mw_events mw) = Some (ev, c)"
      "res = Inr ev" "r' = r\<lparr>mr_heap := (mr_heap r)(w \<mapsto> mw\<lparr>mw_events := c\<rparr>)\<rparr>"
    | (stopped) mw where "mr_heap r w = Some mw" "mw_done mw" "res = Inl ErrWatcherStopped" "r' = r"
proof (cases "mr_heap r w")
  case None
  with assms show ?thesis by (simp add: memory_Next_def)
next
  case (Some mw)
  with assms show ?thesis
    by (cases "chan_recv (mw_events mw)")
      (auto simp: memory_Next_def fun_upd_def split: if_splits intro: event stopped)
qed

lemma mem_ok_Next [inv_intros]: "mem_ok r \<Longrightarrow> (res, r') \<in> set (memory_Next w r) \<Longrightarrow> mem_ok r'"
  by (erule memory_NextE) (auto simp: mem_ok_def intro: mem_watcher_ok_recv)

text \<open>One name of the cleanup: the alive services stay, the others leave an event.\<close>

lemma cached_cleanup_name [simp]:
  "cached (fst (cleanup_name now name (c, evs))) m =
     (if m = name then filter (alive now) (cached c name) else cached c m)"
  by (auto simp: cleanup_name_def Let_def cached_def)

lemma cache_ok_filter: "cache_ok c \<Longrightarrow> (\<And>m. cached c' m = cached c m \<or> cached c' m = filter p (cached c m))
    \<Longrightarrow> cache_ok c'"
proof -
  assume ok: "cache_ok c" and c': "\<And>m. cached c' m = cached c m \<or> cached c' m = filter p (cached c m)"
  have "distinct (map svc_id (cached c' m)) \<and> (\<forall>s\<in>set (cached c' m). svc_name s = m)" for m
    using ok c' [of m] by (auto simp: cache_ok_def distinct_map_filter)
  then show "cache_ok c'" by (simp add: cache_ok_def)
qed

lemma fold_cleanup_name:
  "fold (cleanup_name now) ks (c, evs) = (c', evs') \<Longrightarrow>
     cached c' m = (if m \<in> set ks then filter (alive now) (cached c m) else cached c m)"
proof (induction ks arbitrary: c evs)
  case (Cons k ks)
  obtain c1 evs1 where one: "cleanup_name now k (c, evs) = (c1, evs1)" by (cases "cleanup_name now k (c, evs)")
  then have c1: "cached c1 m = (if m = k then filter (alive now) (cached c k) else cached c m)" for m
    using cached_cleanup_name [of now k c evs m] by simp
  from Cons.prems one have "fold (cleanup_name now) ks (c1, evs1) = (c', evs')" by simp
  from Cons.IH [OF this] c1 show ?case by auto
qed simp

lemma cache_ok_cleanup: "cache_ok c \<Longrightarrow> cache_ok (fst (fold (cleanup_name now) ks (c, evs)))"
proof -
  obtain c' evs' where f: "fold (cleanup_name now) ks (c, evs) = (c', evs')"
    by (cases "fold (cleanup_name now) ks (c, evs)")
  then show "cache_ok c \<Longrightarrow> ?thesis"
    using cache_ok_filter [of c c' "alive now"] fold_cleanup_name [OF f] by simp
qed

lemma mem_ok_notifies: "mem_ok r \<Longrightarrow> mem_ok (fold (memory_notify ws) evs r)"
  by (induction evs arbitrary: r) (auto intro: mem_ok_notify)

lemma mem_ok_cleanup [inv_intros]: "mem_ok r \<Longrightarrow> mem_ok (memory_cleanup wake ks ws r)"
proof (cases wake)
  case ContextDone
  then show "mem_ok r \<Longrightarrow> ?thesis" by (simp add: memory_cleanup_def mem_ok_def)
next
  case (Tick now)
  obtain c evs where f: "fold (cleanup_name now) ks (mr_services r, []) = (c, evs)"
    by (cases "fold (cleanup_name now) ks (mr_services r, [])")
  assume ok: "mem_ok r"
  have "cache_ok c" using cache_ok_cleanup [of "mr_services r" now ks "[]"] f ok by (simp add: mem_ok_cache)
  then have "mem_ok (fold (memory_notify ws) evs (r\<lparr>mr_services := c\<rparr>))"
    by (intro mem_ok_notifies mem_ok_services ok)
  moreover have "mem_ok (r\<lparr>mr_cleaners := n\<rparr>)" for n using ok by (simp add: mem_ok_def)
  ultimately show ?thesis using Tick f by (simp add: memory_cleanup_def)
qed

section \<open>Histories\<close>

text \<open>Any sequence of calls and cleanup rounds, each with its own iteration orders and times.\<close>

datatype mem_op =
    OpInit "reg_option list"
  | OpConnect
  | OpClose "nat list"
  | OpRegister "nat list" time time service
  | OpDeregister "nat list" time service
  | OpWatch
  | OpStop nat
  | OpNext nat
  | OpCleanup cleanup_wakeup "string list" "nat list"

fun mem_exec :: "mem_op \<Rightarrow> mem_registry \<Rightarrow> mem_registry" where
  "mem_exec (OpInit os) r = memory_Init os r"
| "mem_exec OpConnect r = memory_Connect r"
| "mem_exec (OpClose ws) r = memory_Close ws r"
| "mem_exec (OpRegister ws t t' s) r = snd (memory_Register ws t t' s r)"
| "mem_exec (OpDeregister ws t s) r = memory_Deregister ws t s r"
| "mem_exec OpWatch r = snd (memory_Watch r)"
| "mem_exec (OpStop w) r = memory_Stop w r"
| "mem_exec (OpNext w) r = (case memory_Next w r of [] \<Rightarrow> r | (res, r') # _ \<Rightarrow> r')"
| "mem_exec (OpCleanup wake ks ws) r = memory_cleanup wake ks ws r"

lemma mem_ok_exec: "mem_ok r \<Longrightarrow> mem_ok (mem_exec a r)"
proof (cases a)
  case (OpNext w)
  show "mem_ok r \<Longrightarrow> ?thesis"
  proof (cases "memory_Next w r")
    case (Cons out outs)
    then have "(fst out, snd out) \<in> set (memory_Next w r)" by simp
    then show "mem_ok r \<Longrightarrow> ?thesis"
      using OpNext Cons mem_ok_Next [of r "fst out" "snd out" w] by (simp add: split_beta)
  qed (simp add: OpNext)
qed (auto intro: inv_intros)

lemma mem_ok_fold: "mem_ok r \<Longrightarrow> mem_ok (fold mem_exec as r)"
  by (induction as arbitrary: r) (auto intro: mem_ok_exec)

section \<open>Interleavings\<close>

text \<open>
  \<open>Register\<close> and \<open>Deregister\<close> release the mutex before they notify, so a call is two steps and
  other calls run in between.  \<open>ms_pending\<close> holds the events of the calls that have left their
  mutex section and have not sent yet; any of them may be next.
\<close>

record mem_sys =
  ms_reg :: mem_registry
  ms_pending :: "event list"

inductive mem_step :: "mem_sys \<Rightarrow> mem_sys \<Rightarrow> bool" where
  step_register: "memory_register_locked t t' s (ms_reg m) = (s', ev, r') \<Longrightarrow>
     mem_step m (m\<lparr>ms_reg := r', ms_pending := ms_pending m @ [ev]\<rparr>)"
| step_deregister: "memory_deregister_locked t s (ms_reg m) = (Some ev, r') \<Longrightarrow>
     mem_step m (m\<lparr>ms_reg := r', ms_pending := ms_pending m @ [ev]\<rparr>)"
| step_notify: "ms_pending m = as @ ev # bs \<Longrightarrow> distinct ws \<Longrightarrow> set ws = mr_registered (ms_reg m) \<Longrightarrow>
     mem_step m (m\<lparr>ms_reg := memory_notify ws ev (ms_reg m), ms_pending := as @ bs\<rparr>)"
| step_watch: "memory_Watch (ms_reg m) = (w, r') \<Longrightarrow> mem_step m (m\<lparr>ms_reg := r'\<rparr>)"
| step_next: "(res, r') \<in> set (memory_Next w (ms_reg m)) \<Longrightarrow> mem_step m (m\<lparr>ms_reg := r'\<rparr>)"

inductive_cases mem_stepE: "mem_step m m'"

lemma mem_step_ok: "mem_step m m' \<Longrightarrow> mem_ok (ms_reg m) \<Longrightarrow> mem_ok (ms_reg m')"
proof (erule mem_stepE, goal_cases)
  case (1 t t' s s' ev r')
  then have "r' = ms_reg m\<lparr>mr_services := cache_put s' (mr_services (ms_reg m))\<rparr>"
    by (auto simp: memory_register_locked_def Let_def)
  with 1 show ?case by (simp add: mem_ok_services cache_ok_put mem_ok_cache)
next
  case (2 t s ev r')
  then have "r' = ms_reg m\<lparr>mr_services := cache_remove s (mr_services (ms_reg m))\<rparr>"
    by (auto simp: memory_deregister_locked_def split: if_splits)
  with 2 show ?case by (simp add: mem_ok_services cache_ok_remove mem_ok_cache)
next
  case (3 as ev bs ws)
  then show ?case by (simp add: mem_ok_notify)
next
  case (4 w r')
  then show ?case using mem_ok_Watch [of "ms_reg m"] by simp
next
  case (5 res r' w)
  then show ?case by (simp add: mem_ok_Next)
qed

lemma mem_steps_ok: "mem_step\<^sup>*\<^sup>* m m' \<Longrightarrow> mem_ok (ms_reg m) \<Longrightarrow> mem_ok (ms_reg m')"
  by (induction rule: rtranclp_induct) (auto intro: mem_step_ok)

section \<open>Properties\<close>

text \<open>One registration or deregistration as a call, for the sequences below.\<close>

fun memory_apply :: "nat list \<Rightarrow> reg_op \<Rightarrow> mem_registry \<Rightarrow> mem_registry" where
  "memory_apply ws (Reg t s) r = snd (memory_Register ws t t s r)"
| "memory_apply ws (Dereg s) r = memory_Deregister ws 0 s r"

lemma memory_apply_op: "memory_apply ws = mem.op_apply ws"
proof (intro ext)
  show "memory_apply ws a r = mem.op_apply ws a r" for a r by (cases a) auto
qed

text \<open>
  C1: The registry is a map from service name and identifier: after any sequence of
  registrations and deregistrations, what is stored under a key is decided by the last
  operation on that key (the service with its registration time and marked healthy, or
  nothing), whatever the other operations and the watchers were.
\<close>

theorem memory_last_operation_wins:
  assumes "mem_ok r" and "(n, i) = op_key a" and "(n, i) \<notin> op_key ` set bs"
  shows "memory_lookup (fold (memory_apply ws) (as @ a # bs) r) n i =
     (case a of Reg t s \<Rightarrow> Some (stamped t s) | Dereg s \<Rightarrow> None)"
proof -
  have "mem.op_result a = (case a of Reg t s \<Rightarrow> Some (stamped t s) | Dereg s \<Rightarrow> None)"
    by (cases a) auto
  moreover have "memory_lookup (fold (mem.op_apply ws) (as @ a # bs) r) n i = mem.op_result a"
    by (rule mem.lookup_last) (use assms in \<open>simp_all add: mem_ok_cache\<close>)
  ultimately show ?thesis by (simp add: memory_apply_op)
qed

theorem memory_last_operation_wins_witness:
  "memory_lookup (fold (memory_apply []) ([Dereg (demo_service ''a'' ''1'' 0)] @
       Reg 5 (demo_service ''a'' ''1'' 0) # [Reg 6 (demo_service ''a'' ''2'' 0)])
     (newMemoryRegistry [])) ''a'' ''1'' = Some (stamped 5 (demo_service ''a'' ''1'' 0))"
  using memory_last_operation_wins
    [of "newMemoryRegistry []" "''a''" "''1''" "Reg 5 (demo_service ''a'' ''1'' 0)"
        "[Reg 6 (demo_service ''a'' ''2'' 0)]" "[]" "[Dereg (demo_service ''a'' ''1'' 0)]"]
  by (simp add: mem_ok_new demo_service_def del: memory_apply.simps)

lemma memory_cached_in:
  "cache_ok (mr_services r) \<Longrightarrow> s \<in> set (cached (mr_services r) name) \<longleftrightarrow> memory_lookup r name (svc_id s) = Some s"
  by (simp add: memory_lookup_def cache_lookup_in)

lemma memory_GetService_empty:
  assumes "\<And>i. memory_lookup r name i = None"
  shows "memory_GetService name now r = Inl ErrNotFound"
proof -
  have "cached (mr_services r) name = []"
  proof (rule ccontr)
    assume "cached (mr_services r) name \<noteq> []"
    then obtain s where "s \<in> set (cached (mr_services r) name)" by (cases "cached (mr_services r) name") auto
    then show False using assms [of "svc_id s"] by (auto simp: memory_lookup_def cache_lookup_def find_key_None)
  qed
  then show ?thesis by (auto simp: memory_GetService_def cached_def split: option.splits)
qed

lemma memory_GetService_in:
  assumes "cache_ok (mr_services r)"
  shows "(\<exists>l. memory_GetService name now r = Inr l \<and> s \<in> set l) \<longleftrightarrow>
     memory_lookup r name (svc_id s) = Some s \<and> svc_healthy s \<and> alive now s"
proof -
  have "(\<exists>l. memory_GetService name now r = Inr l \<and> s \<in> set l) \<longleftrightarrow>
      s \<in> set (cached (mr_services r) name) \<and> svc_healthy s \<and> alive now s"
    by (auto simp: memory_GetService_def cached_def Let_def filter_empty_conv split: option.splits)
  then show ?thesis by (simp add: memory_cached_in [OF assms])
qed

text \<open>
  A service registered at time \<open>t\<close> is among the results of \<open>GetService\<close> at time \<open>now\<close>
  exactly when it has no TTL or less than its TTL has passed.
\<close>

theorem memory_register_then_get:
  assumes "mem_ok r"
  shows "(\<exists>l. memory_GetService (svc_name s) now (snd (memory_Register ws t t' s r)) = Inr l
              \<and> stamped t s \<in> set l) \<longleftrightarrow>
     svc_ttl s = 0 \<or> now - t < svc_ttl s"
  using memory_GetService_in [OF mem_ok_cache [OF mem_ok_Register [OF assms]], of "svc_name s" now ws t t' s "stamped t s"]
  by (simp add: memory_lookup_def cache_lookup_put alive_def)

theorem memory_register_then_get_witness:
  "\<exists>l. memory_GetService ''a'' 12
        (snd (memory_Register [] 5 6 (demo_service ''a'' ''1'' 10) (newMemoryRegistry []))) = Inr l
      \<and> stamped 5 (demo_service ''a'' ''1'' 10) \<in> set l"
  using memory_register_then_get
    [OF mem_ok_new [of "[]"], of "demo_service ''a'' ''1'' 10" 12 "[]" 5 6]
  by (simp add: demo_service_def)

text \<open>
  \<open>GetService\<close> returns a non-empty list without duplicates of registered services of that
  name, all healthy and unexpired, or \<open>ErrNotFound\<close> exactly when there is none.
\<close>

theorem memory_GetService_sound:
  assumes "mem_ok r"
  shows "case memory_GetService name now r of
     Inr l \<Rightarrow> l \<noteq> [] \<and> distinct (map svc_id l) \<and>
        set l = {s. memory_lookup r name (svc_id s) = Some s \<and> svc_healthy s \<and> alive now s}
   | Inl e \<Rightarrow> e = ErrNotFound \<and>
        (\<nexists>i s. memory_lookup r name i = Some s \<and> svc_healthy s \<and> alive now s)"
proof (cases "memory_GetService name now r")
  case (Inr l)
  then have "l = filter (\<lambda>s. svc_healthy s \<and> alive now s) (cached (mr_services r) name)" "l \<noteq> []"
    by (auto simp: memory_GetService_def Let_def cached_def split: option.splits if_splits)
  moreover have "distinct (map svc_id (cached (mr_services r) name))"
    using assms by (simp add: mem_ok_def cache_ok_def)
  ultimately show ?thesis
    using Inr by (auto simp: memory_cached_in [OF mem_ok_cache [OF assms]] distinct_map_filter)
next
  case (Inl e)
  have "svc_id s = i" if "memory_lookup r name i = Some s" for i s
    using that assms cache_lookup_name [of "mr_services r"] by (simp add: memory_lookup_def mem_ok_cache)
  moreover have "e = ErrNotFound"
    using Inl by (auto simp: memory_GetService_def Let_def split: option.splits if_splits)
  ultimately show ?thesis
    using Inl memory_GetService_in [OF mem_ok_cache [OF assms], of name now] by fastforce
qed

theorem memory_GetService_sound_witness:
  "case memory_GetService ''a'' 7 (newMemoryRegistry []) of
     Inr l \<Rightarrow> l \<noteq> [] \<and> distinct (map svc_id l) \<and>
        set l = {s. memory_lookup (newMemoryRegistry []) ''a'' (svc_id s) = Some s
                  \<and> svc_healthy s \<and> alive 7 s}
   | Inl e \<Rightarrow> e = ErrNotFound \<and>
        (\<nexists>i s. memory_lookup (newMemoryRegistry []) ''a'' i = Some s \<and> svc_healthy s \<and> alive 7 s)"
  by (rule memory_GetService_sound [OF mem_ok_new])

text \<open>
  A registration sends every registered watcher that watches the service (or all services)
  and has room in its buffer exactly one event, \<open>Update\<close> if the key was registered before and
  \<open>Create\<close> otherwise, behind what the buffer held; every other watcher is left as it was.
\<close>

theorem memory_Register_notifies:
  assumes "distinct ws" and "set ws = mr_registered r" and "mr_heap r w = Some mw"
  shows "mr_heap (snd (memory_Register ws t t' s r)) w = Some
     (if w \<in> mr_registered r \<and> (mw_service mw = [] \<or> mw_service mw = svc_name s)
          \<and> length (chan_buf (mw_events mw)) < chan_cap (mw_events mw)
      then mw\<lparr>mw_events := (mw_events mw)\<lparr>chan_buf := chan_buf (mw_events mw) @
             [\<lparr>ev_type = (if memory_lookup r (svc_name s) (svc_id s) = None then Create else Update),
               ev_service = stamped t s, ev_timestamp = t'\<rparr>]\<rparr>\<rparr>
      else mw)"
  using assms
  by (auto simp: memory_Register_def memory_register_locked_def Let_def memory_notify_eq watches_def
      chan_offer_def chan_trysend_def cache_has_lookup memory_lookup_def)

theorem memory_Register_notifies_witness:
  "mr_heap (snd (memory_Register [1] 5 6 (demo_service ''a'' ''1'' 0)
      (snd (memory_Watch (newMemoryRegistry []))))) 1 =
   Some \<lparr>mw_events = \<lparr>chan_cap = 1024, chan_buf = [\<lparr>ev_type = Create,
           ev_service = stamped 5 (demo_service ''a'' ''1'' 0), ev_timestamp = 6\<rparr>]\<rparr>,
         mw_done = False, mw_service = []\<rparr>"
  using memory_Register_notifies [of "[1]" "snd (memory_Watch (newMemoryRegistry []))" 1
      "\<lparr>mw_events = chan_make 1024, mw_done = False, mw_service = []\<rparr>" 5 6
      "demo_service ''a'' ''1'' 0"]
  by (simp add: memory_Watch_def Let_def newMemoryRegistry_def memoryWatcherBufferSize_def
      reg_apply_all_def reg_DefaultOptions_def chan_make_def memory_lookup_def cache_lookup_def
      del: memory_Register_services)

text \<open>
  C31: Whatever sequence of calls and cleanup rounds a fresh registry goes through, its cache
  keeps at most one service per name and identifier, filed under its own name, every registered
  watcher exists and is not stopped, and no watcher's buffer exceeds its 1024 slots.
\<close>

theorem memory_invariant: "mem_ok (fold mem_exec ops (newMemoryRegistry os))"
  by (rule mem_ok_fold [OF mem_ok_new])

text \<open>
  A cleanup tick of a running registry removes exactly the services whose TTL has expired:
  afterwards a key holds what it held, if that is still alive at the tick, and nothing otherwise.
\<close>

theorem memory_cleanup_removes_expired:
  assumes "mem_ok r" and "mr_running r" and "iterates ks (mr_services r)"
  shows "memory_lookup (memory_cleanup (Tick now) ks ws r) n i =
     (case memory_lookup r n i of
        Some s \<Rightarrow> if alive now s then Some s else None
      | None \<Rightarrow> None)"
proof -
  obtain c evs where f: "fold (cleanup_name now) ks (mr_services r, []) = (c, evs)"
    by (cases "fold (cleanup_name now) ks (mr_services r, [])")
  have "mr_services (fold (memory_notify ws) evs r') = mr_services r'" for r'
    by (induction evs arbitrary: r') auto
  then have svcs: "mr_services (memory_cleanup (Tick now) ks ws r) = c"
    using assms(2) f by (simp add: memory_cleanup_def)
  have "cached c n = filter (alive now) (cached (mr_services r) n)"
    using fold_cleanup_name [OF f, of n] assms(3) by (auto simp: iterates_def cached_def split: option.splits)
  moreover have "distinct (map svc_id (cached (mr_services r) n))"
    using assms(1) by (simp add: mem_ok_def cache_ok_def)
  ultimately show ?thesis
    by (simp add: memory_lookup_def cache_lookup_def svcs find_key_filter)
qed

theorem memory_cleanup_removes_expired_witness:
  "memory_lookup (memory_cleanup (Tick 20) [''a''] []
      (snd (memory_Register [] 5 6 (demo_service ''a'' ''1'' 10) (memory_Connect (newMemoryRegistry [])))))
      ''a'' ''1'' = None"
proof -
  let ?r = "snd (memory_Register [] 5 6 (demo_service ''a'' ''1'' 10) (memory_Connect (newMemoryRegistry [])))"
  have "mem_ok ?r" by (intro mem_ok_Register mem_ok_Connect mem_ok_new)
  moreover have "mr_running ?r"
    by (simp add: memory_Register_def memory_register_locked_def Let_def memory_Connect_def newMemoryRegistry_def)
  moreover have "iterates [''a''] (mr_services ?r)"
    by (simp add: iterates_def cache_put_def demo_service_def memory_Connect_def newMemoryRegistry_def)
  ultimately show ?thesis
    using memory_cleanup_removes_expired [of ?r "[''a'']" 20 "[]" "''a''" "''1''"]
    by (simp add: memory_lookup_def cache_lookup_put alive_def demo_service_def)
qed

text \<open>
  Once a running registry is closed, no watcher that was registered can block any more:
  \<open>Next\<close> has an outcome, and \<open>ErrWatcherStopped\<close> is one of them.
\<close>

theorem memory_Close_unblocks_watchers:
  assumes "mem_ok r" and "mr_running r" and "set ws = mr_registered r" and "w \<in> mr_registered r"
  shows "\<exists>r'. (Inl ErrWatcherStopped, r') \<in> set (memory_Next w (memory_Close ws r))"
proof -
  obtain mw where "mr_heap r w = Some mw" using assms(1,4) by (auto simp: mem_ok_def)
  then have "mr_heap (memory_Close ws r) w = Some (mw\<lparr>mw_done := True\<rparr>)"
    using assms by (simp add: memory_Close_def fold_close_done)
  then show ?thesis by (auto simp: memory_Next_def split: option.splits)
qed

theorem memory_Close_unblocks_watchers_witness:
  "\<exists>r'. (Inl ErrWatcherStopped, r') \<in>
     set (memory_Next 1 (memory_Close [1] (snd (memory_Watch (memory_Connect (newMemoryRegistry []))))))"
  by (rule memory_Close_unblocks_watchers)
    (simp_all add: mem_ok_Watch mem_ok_Connect mem_ok_new,
     simp_all add: memory_Watch_def Let_def memory_Connect_def newMemoryRegistry_def)

text \<open>
  The order of events a watcher receives can contradict the registry: because the mutex is
  released before the sends, a registration followed by a deregistration can be announced in the
  opposite order, so that the service is gone, no event is outstanding, and the last event in the
  watcher's buffer is the \<open>Create\<close>.
\<close>

theorem memory_events_can_invert:
  "\<exists>m. mem_step\<^sup>*\<^sup>* \<lparr>ms_reg = snd (memory_Watch (newMemoryRegistry [])), ms_pending = []\<rparr> m \<and>
     ms_pending m = [] \<and> memory_lookup (ms_reg m) ''a'' ''1'' = None \<and>
     (\<exists>mw ev. mr_heap (ms_reg m) 1 = Some mw \<and> last (chan_buf (mw_events mw)) = ev \<and>
        ev_type ev = Create \<and> svc_name (ev_service ev) = ''a'' \<and> svc_id (ev_service ev) = ''1'')"
proof -
  let ?s = "demo_service ''a'' ''1'' 0"
  let ?r0 = "snd (memory_Watch (newMemoryRegistry []))"
  let ?c = "\<lparr>ev_type = Create, ev_service = stamped 5 ?s, ev_timestamp = 5\<rparr>"
  let ?d = "\<lparr>ev_type = Delete, ev_service = ?s, ev_timestamp = 6\<rparr>"
  let ?r1 = "?r0\<lparr>mr_services := cache_put (stamped 5 ?s) (mr_services ?r0)\<rparr>"
  let ?r2 = "?r1\<lparr>mr_services := cache_remove ?s (mr_services ?r1)\<rparr>"
  let ?r4 = "memory_notify [1] ?c (memory_notify [1] ?d ?r2)"
  have r0: "mr_services ?r0 = (\<lambda>_. None)" "mr_registered ?r0 = {1}"
    by (simp_all add: memory_Watch_def Let_def newMemoryRegistry_def)
  have s1: "mem_step \<lparr>ms_reg = ?r0, ms_pending = []\<rparr> \<lparr>ms_reg = ?r1, ms_pending = [?c]\<rparr>"
    using step_register [of 5 5 ?s "\<lparr>ms_reg = ?r0, ms_pending = []\<rparr>" "stamped 5 ?s" ?c ?r1]
    by (simp add: memory_register_locked_def Let_def r0 cache_has_def)
  have has: "cache_has (mr_services ?r1) ?s"
    by (simp add: cache_has_lookup cache_lookup_put)
  then have s2: "mem_step \<lparr>ms_reg = ?r1, ms_pending = [?c]\<rparr> \<lparr>ms_reg = ?r2, ms_pending = [?c, ?d]\<rparr>"
    using step_deregister [of 6 ?s "\<lparr>ms_reg = ?r1, ms_pending = [?c]\<rparr>" ?d ?r2]
    by (simp add: memory_deregister_locked_def)
  have s3: "mem_step \<lparr>ms_reg = ?r2, ms_pending = [?c, ?d]\<rparr>
      \<lparr>ms_reg = memory_notify [1] ?d ?r2, ms_pending = [?c]\<rparr>"
    using step_notify [of "\<lparr>ms_reg = ?r2, ms_pending = [?c, ?d]\<rparr>" "[?c]" ?d "[]" "[1]"]
    by (simp add: r0)
  have s4: "mem_step \<lparr>ms_reg = memory_notify [1] ?d ?r2, ms_pending = [?c]\<rparr>
      \<lparr>ms_reg = ?r4, ms_pending = []\<rparr>"
    using step_notify [of "\<lparr>ms_reg = memory_notify [1] ?d ?r2, ms_pending = [?c]\<rparr>" "[]" ?c "[]" "[1]"]
    by (simp add: r0)
  have gone: "memory_lookup ?r4 ''a'' ''1'' = None"
    by (simp add: memory_lookup_def r0 cache_lookup_remove cache_ok_put)
      (simp add: demo_service_def)
  have heap: "mr_heap ?r4 1 = Some \<lparr>mw_events = \<lparr>chan_cap = 1024, chan_buf = [?d, ?c]\<rparr>,
      mw_done = False, mw_service = []\<rparr>"
    by (simp add: memory_notify_eq watches_def memory_Watch_def Let_def newMemoryRegistry_def
        memoryWatcherBufferSize_def reg_apply_all_def reg_DefaultOptions_def chan_make_def
        chan_offer_def chan_trysend_def)
  have steps: "mem_step\<^sup>*\<^sup>* \<lparr>ms_reg = ?r0, ms_pending = []\<rparr> \<lparr>ms_reg = ?r4, ms_pending = []\<rparr>"
    by (intro step_then [where r = mem_step, OF s1] step_then [where r = mem_step, OF s2]
        step_then [where r = mem_step, OF s3] step_then [where r = mem_step, OF s4] rtranclp.rtrancl_refl)
  show ?thesis
    by (rule exI [of _ "\<lparr>ms_reg = ?r4, ms_pending = []\<rparr>"])
      (use steps gone heap in \<open>simp add: demo_service_def\<close>)
qed

text \<open>
  Closing a registry and connecting it again before the next tick leaves the first cleanup
  goroutine alive beside the second, and a tick does not end either of them.
\<close>

theorem memory_reconnect_leaks_cleaner:
  "mr_cleaners (memory_cleanup (Tick now) [] []
      (memory_Connect (memory_Close [] (memory_Connect (newMemoryRegistry os))))) = 2"
  by (simp add: memory_cleanup_def memory_Connect_def memory_Close_def newMemoryRegistry_def)

end
