(* ===== verification/Deployment.thy ===== *)
theory Deployment
  imports App MemoryRegistry
begin

text \<open>
  An application together with the registry it announces its transports in: \<open>grodyia.go\<close> on top of
  \<open>registry/memory.go\<close>, the gRPC server and the HTTP server.  The locale \<open>announcing\<close> extends the
  contract of transports by that of a registry, and shows that discovery and service agree after a start
  and after a stop; it is interpreted on a cluster of the modelled servers and the in-memory registry.
\<close>

section \<open>Announcing what is served\<close>

text \<open>What a registry holds after the services \<open>ss\<close> were registered in turn, each stored as \<open>stored s\<close>.\<close>

definition announce :: "(service \<Rightarrow> service) \<Rightarrow> service list \<Rightarrow> (string \<times> string \<rightharpoonup> service) \<Rightarrow> (string \<times> string \<rightharpoonup> service)" where
  "announce stored ss m = fold (\<lambda>s m. m((svc_name s, svc_id s) \<mapsto> stored s)) ss m"

lemma announce_simps [simp]:
  "announce stored [] m = m"
  "announce stored (s # ss) m = announce stored ss (m((svc_name s, svc_id s) \<mapsto> stored s))"
  by (simp_all add: announce_def)

lemma announce_other: "(n, i) \<notin> (\<lambda>s. (svc_name s, svc_id s)) ` set ss \<Longrightarrow> announce stored ss m (n, i) = m (n, i)"
  by (induction ss arbitrary: m) auto

lemma announce_in:
  "distinct (map (\<lambda>s. (svc_name s, svc_id s)) ss) \<Longrightarrow> s \<in> set ss \<Longrightarrow>
     announce stored ss m (svc_name s, svc_id s) = Some (stored s)"
  by (induction ss arbitrary: m) (auto simp: announce_other)

text \<open>
  \<open>found w\<close>: the services the registry holds, by their keys; \<open>sound w\<close>: its state is well formed;
  \<open>live w\<close>: it is connected as well.  Connecting succeeds, a registration stores its service, closing a
  connected registry withdraws all services; the registry does not touch the transports, nor they the
  registry.
\<close>

locale announcing = transport_contract up tr
  for up :: "'w \<Rightarrow> 'i \<Rightarrow> bool" and tr :: "'i \<Rightarrow> 'w transport" +
  fixes reg :: "'w registry_ops" and found :: "'w \<Rightarrow> string \<times> string \<rightharpoonup> service"
    and stored :: "service \<Rightarrow> service" and sound live :: "'w \<Rightarrow> bool"
  assumes connect: "sound w \<Longrightarrow> rg_Connect reg w = (err, w') \<Longrightarrow> err = None \<and> live w' \<and> found w' = found w \<and> up w' = up w"
    and register: "live w \<Longrightarrow> rg_Register reg s w = (err, w') \<Longrightarrow> live w' \<and> up w' = up w \<and>
          found w' = (found w)((svc_name s, svc_id s) \<mapsto> stored s)"
    and watch: "rg_Watch reg w = (err, w') \<Longrightarrow> live w' = live w \<and> sound w' = sound w \<and> found w' = found w \<and> up w' = up w"
    and close_up: "rg_Close reg w = (err, w') \<Longrightarrow> up w' = up w"
    and close_found: "live w \<Longrightarrow> rg_Close reg w = (err, w') \<Longrightarrow> found w' = Map.empty"
    and start_quiet: "tr_Start (tr i) w = (err, w') \<Longrightarrow> found w' = found w \<and> live w' = live w"
    and stop_quiet: "tr_Stop (tr i) w = (err, w') \<Longrightarrow> found w' = found w \<and> live w' = live w"
begin

abbreviation announced :: "'i list \<Rightarrow> (string \<times> string \<rightharpoonup> service) \<Rightarrow> (string \<times> string \<rightharpoonup> service)" where
  "announced js \<equiv> announce stored (map (\<lambda>j. service_of (tr j)) js)"

text \<open>\<open>calm a a'\<close>: the same transports are up and the same services announced.\<close>

definition calm :: "'w app \<Rightarrow> 'w app \<Rightarrow> bool" where
  "calm a a' \<longleftrightarrow> up (ap_world a') = up (ap_world a) \<and> found (ap_world a') = found (ap_world a) \<and>
     sound (ap_world a') = sound (ap_world a) \<and> live (ap_world a') = live (ap_world a) \<and>
     ap_transports a' = ap_transports a \<and> ap_registry a' = ap_registry a"

definition calm_hooks :: "'w hooks \<Rightarrow> bool" where
  "calm_hooks hk \<longleftrightarrow>
     list_all (\<lambda>h. \<forall>a. calm a (snd (h a))) (hk_beforeStart hk @ hk_afterStart hk @ hk_beforeStop hk @ hk_afterStop hk)"

definition calm_op :: "('w \<Rightarrow> 'a \<times> 'w) \<Rightarrow> bool" where
  "calm_op f \<longleftrightarrow> (\<forall>w. up (snd (f w)) = up w \<and> found (snd (f w)) = found w \<and>
     sound (snd (f w)) = sound w \<and> live (snd (f w)) = live w)"

lemma calm_refl [simp]: "calm a a" by (simp add: calm_def)

lemma calm_trans: "calm a b \<Longrightarrow> calm b c \<Longrightarrow> calm a c" by (simp add: calm_def)

lemma calm_on_world: "calm_op f \<Longrightarrow> calm a (snd (on_world f a))"
  by (simp add: calm_def on_world_eq calm_op_def)

lemma calm_publish: "calm a (snd (app_Publish now topic d a))"
  by (simp add: app_Publish_def calm_def split: sum.splits prod.splits)

lemma calm_before_start: "list_all (\<lambda>h. \<forall>a. calm a (snd (h a))) fns \<Longrightarrow> calm a (snd (run_before_start fns a))"
proof (induction fns arbitrary: a)
  case (Cons fn fns)
  obtain err a1 where f: "fn a = (err, a1)" by (cases "fn a")
  have "calm a (snd (fn a))" using Cons.prems by simp
  with Cons f show ?case by (auto split: option.splits intro: calm_trans)
qed simp

lemma calm_run_hooks: "list_all (\<lambda>h. \<forall>a. calm a (snd (h a))) fns \<Longrightarrow> calm a (run_hooks fns a)"
  unfolding run_hooks_def by (induction fns arbitrary: a) (auto intro: calm_trans)

lemma calm_close_bus: "calm a (close_bus a)"
  by (simp add: calm_def close_bus_def split: option.splits)

lemma calm_watch: "ap_registry a = Some reg \<Longrightarrow> calm a (watch_registry a)"
  using watch [of "ap_world a"] by (cases "rg_Watch reg (ap_world a)") (simp add: watch_registry_def calm_def on_world_eq)

lemma connect_live:
  assumes "ap_registry a = Some reg" and "sound (ap_world a)" and "connect_registry a = (c, a')"
  shows "c \<and> live (ap_world a') \<and> up (ap_world a') = up (ap_world a) \<and> found (ap_world a') = found (ap_world a) \<and>
     ap_transports a' = ap_transports a \<and> ap_registry a' = ap_registry a"
  using connect [of "ap_world a"] assms
  by (cases "rg_Connect reg (ap_world a)") (auto simp: connect_registry_def on_world_eq)

text \<open>The transports that the loop has started are exactly those it has brought up and announced.\<close>

lemma start_transports_announced:
  assumes "ap_registry a = Some reg" and "live (ap_world a)" and "start_transports (map tr js) started a = (err, started', a')"
  shows "\<exists>ks. started' = started @ map tr ks \<and> set ks \<subseteq> set js \<and> (err = None \<longrightarrow> ks = js) \<and>
     (\<forall>i. up (ap_world a') i = (i \<in> set ks \<or> up (ap_world a) i)) \<and>
     found (ap_world a') = announced ks (found (ap_world a)) \<and>
     live (ap_world a') \<and> ap_transports a' = ap_transports a \<and> ap_registry a' = ap_registry a"
  using assms
proof (induction js arbitrary: started a)
  case Nil
  then show ?case by (intro exI [of _ "[]"]) simp
next
  case (Cons j js)
  obtain e w where t: "tr_Start (tr j) (ap_world a) = (e, w)" by (cases "tr_Start (tr j) (ap_world a)")
  note up = start_up [OF t] and quiet = start_quiet [OF t]
  show ?case
  proof (cases e)
    case (Some x)
    then have "started' = started" "a' = a\<lparr>ap_world := w\<rparr>" "err \<noteq> None"
      using Cons.prems(3) t by (auto simp: on_world_eq)
    then show ?thesis using up Some quiet Cons.prems(2) by (intro exI [of _ "[]"]) simp
  next
    case None
    obtain e2 w2 where r: "rg_Register reg (service_of (tr j)) w = (e2, w2)"
      by (cases "rg_Register reg (service_of (tr j)) w")
    define a2 where "a2 = a\<lparr>ap_world := w2\<rparr>"
    have live: "live w" using quiet Cons.prems(2) by simp
    have "ap_registry a2 = Some reg" using Cons.prems(1) by (simp add: a2_def)
    moreover have "live (ap_world a2)" using register [OF live r] by (simp add: a2_def)
    moreover have "start_transports (map tr js) (started @ [tr j]) a2 = (err, started', a')"
      using Cons.prems t None r by (simp add: on_world_eq a2_def)
    ultimately obtain ks where ks: "started' = (started @ [tr j]) @ map tr ks" "set ks \<subseteq> set js"
      "err = None \<longrightarrow> ks = js" "\<forall>i. up (ap_world a') i = (i \<in> set ks \<or> up (ap_world a2) i)"
      "found (ap_world a') = announced ks (found (ap_world a2))"
      "live (ap_world a')"
      "ap_transports a' = ap_transports a2" "ap_registry a' = ap_registry a2"
      using Cons.IH by blast
    have "up w2 i = (i = j \<or> up (ap_world a) i)" "found w2 = announced [j] (found (ap_world a))"
      for i
      using up None quiet register [OF live r] by simp_all
    then show ?thesis using ks
      by (intro exI [of _ "j # ks"]) (auto simp: a2_def)
  qed
qed

lemma stops_found:
  fixes js :: "'i list"
  defines "stops \<equiv> \<lambda>a. fold (\<lambda>t a. snd (on_world (tr_Stop t) a)) (map tr js) a"
  shows "found (ap_world (stops a)) = found (ap_world a) \<and> live (ap_world (stops a)) = live (ap_world a)"
proof -
  have "found (ap_world (snd (on_world (tr_Stop (tr j)) a))) = found (ap_world a) \<and>
      live (ap_world (snd (on_world (tr_Stop (tr j)) a))) = live (ap_world a)" for j a
    using stop_quiet [of j "ap_world a"] by (cases "tr_Stop (tr j) (ap_world a)") (simp add: on_world_eq)
  then show ?thesis unfolding stops_def by (induction js arbitrary: a) simp_all
qed

text \<open>The rollback of a start that got as far as connecting the registry.\<close>

lemma rollback_withdraws:
  assumes "ap_registry a = Some reg" and "live (ap_world a)"
  shows "up (ap_world (app_rollback (map tr js) True a)) i = (i \<notin> set js \<and> up (ap_world a) i)"
    and "found (ap_world (app_rollback (map tr js) True a)) = Map.empty"
proof -
  define a1 where "a1 = fold (\<lambda>t a. snd (on_world (tr_Stop t) a)) (map tr (rev js)) a"
  have a1: "\<And>i. up (ap_world a1) i = (i \<notin> set js \<and> up (ap_world a) i)" "ap_registry a1 = Some reg" "live (ap_world a1)"
    using stop_all_down [of "rev js" a] stops_found [of "rev js" a] assms by (simp_all add: a1_def)
  obtain e w where c: "rg_Close reg (ap_world a1) = (e, w)" by (cases "rg_Close reg (ap_world a1)")
  have rb: "app_rollback (map tr js) True a = a1\<lparr>ap_world := w\<rparr>"
    using a1(2) c unfolding app_rollback_def rev_map a1_def [symmetric] Let_def by (simp add: on_world_eq)
  show "up (ap_world (app_rollback (map tr js) True a)) i = (i \<notin> set js \<and> up (ap_world a) i)"
    using close_up [OF c] a1(1) rb by simp
  show "found (ap_world (app_rollback (map tr js) True a)) = Map.empty"
    using close_found [OF a1(3) c] rb by simp
qed

text \<open>
  The steps of a start before its return: they ended before the registry was connected and changed nothing,
  or the transports \<open>ks\<close> are up and announced, all of them when there was no error.
\<close>

lemma start_body_announces:
  assumes "calm_hooks hk" and "\<And>p. calm_op (log_New p)" and reg: "ap_registry b = Some reg"
    and tr: "ap_transports b = map tr js" and sound: "sound (ap_world b)"
    and body: "app_start_body hk log_New now b = (e, st, c, b')"
  obtains (early) "e \<noteq> None" "st = []" "\<not> c" "calm b b'"
  | (late) ks where "c" "st = map tr ks" "e = None \<longrightarrow> ks = js"
      "\<And>i. up (ap_world b') i = (i \<in> set ks \<or> up (ap_world b) i)"
      "found (ap_world b') = announced ks (found (ap_world b))" "live (ap_world b')"
      "ap_transports b' = map tr js" "ap_registry b' = Some reg"
proof -
  have hooks: "list_all (\<lambda>h. \<forall>a. calm a (snd (h a))) (hk_beforeStart hk)"
    "list_all (\<lambda>h. \<forall>a. calm a (snd (h a))) (hk_afterStart hk)"
    using assms(1) by (simp_all add: calm_hooks_def)
  have log: "calm b c1" if "on_world (log_New (ao_LogPath (ap_opts b))) b = (x, c1)" for x c1
    using calm_on_world [OF assms(2), of b "ao_LogPath (ap_opts b)"] that by simp
  from body show thesis
  proof (cases rule: app_start_bodyE)
    case (early e1 c1)
    with calm_trans [OF log [OF early(1)] calm_before_start [OF hooks(1)]] log [OF early(1)] have "calm b b'" by auto
    with early show thesis by (intro that(1)) simp_all
  next
    case (late c1 c2 c3 e4 c4 c5 oo e6 c6)
    have "calm c1 c2" using calm_before_start [OF hooks(1), of c1] late(2) by simp
    with log [OF late(1)] have c2: "calm b c2" by (rule calm_trans)
    then have "ap_registry c2 = Some reg" "sound (ap_world c2)" using reg sound by (simp_all add: calm_def)
    from connect_live [OF this late(3)] c2 tr reg have c: "c" and c3: "live (ap_world c3)"
      "up (ap_world c3) = up (ap_world b)" "found (ap_world c3) = found (ap_world b)"
      "ap_transports c3 = map tr js" "ap_registry c3 = Some reg" by (simp_all add: calm_def)
    from start_transports_announced [OF c3(5,1) late(4) [unfolded c3(4)]] c3 obtain ks where
      ks: "st = map tr ks" "e4 = None \<longrightarrow> ks = js" "\<And>i. up (ap_world c4) i = (i \<in> set ks \<or> up (ap_world b) i)"
      "found (ap_world c4) = announced ks (found (ap_world b))"
      "live (ap_world c4)" "ap_transports c4 = map tr js" "ap_registry c4 = Some reg" by auto
    have "calm c4 c5" using calm_watch [OF ks(7)] late(5) by simp
    then have c6: "calm c4 c6" using calm_trans [OF _ calm_publish] late(7) by (metis snd_conv)
    then have "calm c4 b'" using calm_trans [OF c6 calm_run_hooks [OF hooks(2)]] by (simp add: late(9))
    then show thesis using c ks late(8) by (intro that(2) [of ks]) (simp_all add: calm_def)
  qed
qed

text \<open>A start: all transports up and announced, or none of either.\<close>

lemma start_announces:
  assumes "calm_hooks hk" and "\<And>p. calm_op (log_New p)" and reg: "ap_registry a = Some reg"
    and tr: "ap_transports a = map tr js" and idle: "\<not> ap_running a" "\<not> ap_starting a"
    and down: "\<forall>j. \<not> up (ap_world a) j" and fresh: "found (ap_world a) = Map.empty" "sound (ap_world a)"
    and start: "app_Start hk log_New now a = (err, a')"
  shows "(\<forall>j. up (ap_world a') j = (err = None \<and> j \<in> set js)) \<and>
     found (ap_world a') = (if err = None then announced js Map.empty else Map.empty) \<and>
     (err = None \<longrightarrow> live (ap_world a') \<and> ap_transports a' = map tr js \<and> ap_registry a' = Some reg)"
proof -
  define b where "b = a\<lparr>ap_starting := True\<rparr>"
  obtain e st c a1 where body: "app_start_body hk log_New now b = (e, st, c, a1)" by (metis prod.exhaust)
  define fin where "fin = a1\<lparr>ap_starting := False, ap_running := (e = None)\<rparr>"
  have a': "err = e" "a' = (if e = None then fin else app_rollback st c fin)"
    using start idle body by (auto simp: app_Start_def b_def [symmetric] fin_def Let_def)
  have b: "ap_registry b = Some reg" "ap_transports b = map tr js" "sound (ap_world b)" "ap_world b = ap_world a"
    using reg tr fresh by (simp_all add: b_def)
  have world: "ap_world fin = ap_world a1" "ap_registry fin = ap_registry a1" "ap_transports fin = ap_transports a1"
    by (simp_all add: fin_def)
  from assms(1,2) b(1-3) body show ?thesis
  proof (cases rule: start_body_announces)
    case early
    then have "a' = fin" using a' reg b(1) world by (simp add: app_rollback_def calm_def split: option.splits)
    with early down fresh a'(1) b(4) world show ?thesis by (auto simp: calm_def)
  next
    case (late ks)
    show ?thesis
    proof (cases "e = None")
      case True
      then show ?thesis using a' late down fresh b(4) world by simp
    next
      case False
      have "ap_registry fin = Some reg" "live (ap_world fin)" using late world by simp_all
      note rb = rollback_withdraws [OF this, of ks]
      have "a' = app_rollback (map tr ks) True fin" using a' False late by simp
      then show ?thesis using rb False a'(1) late(4) down b(4) world by auto
    qed
  qed
qed

lemma stop_transports_found:
  "stop_transports (map tr js) e a = (err, a') \<Longrightarrow> found (ap_world a') = found (ap_world a)"
proof (induction js arbitrary: e a)
  case (Cons j js)
  obtain x w where s: "tr_Stop (tr j) (ap_world a) = (x, w)" by (cases "tr_Stop (tr j) (ap_world a)")
  have "stop_transports (map tr js) (if x = None then e else x) (a\<lparr>ap_world := w\<rparr>) = (err, a')"
    using Cons.prems s by (auto simp: on_world_eq split: option.splits)
  from Cons.IH [OF this] stop_quiet [OF s] show ?case by simp
qed simp

text \<open>A stop: nothing is announced any more, and the application's transports are down.\<close>

lemma stop_withdraws:
  assumes "calm_hooks hk" and "ap_registry a = Some reg" and "ap_transports a = map tr js"
    and "ap_running a" and "live (ap_world a)" and "app_Stop hk a = (err, a')"
  shows "(\<forall>j. up (ap_world a') j = (j \<notin> set js \<and> up (ap_world a) j)) \<and> found (ap_world a') = Map.empty"
proof -
  define a2 where "a2 = run_hooks (hk_beforeStop hk) (a\<lparr>ap_running := False, ap_cancelled := True\<rparr>)"
  have hooks: "list_all (\<lambda>h. \<forall>a. calm a (snd (h a))) (hk_beforeStop hk)"
    "list_all (\<lambda>h. \<forall>a. calm a (snd (h a))) (hk_afterStop hk)"
    using assms(1) by (simp_all add: calm_hooks_def)
  have "calm a (a\<lparr>ap_running := False, ap_cancelled := True\<rparr>)" by (simp add: calm_def)
  then have a2: "calm a a2" using calm_run_hooks [OF hooks(1)] unfolding a2_def by (blast intro: calm_trans)
  obtain e w where c: "rg_Close reg (ap_world a2) = (e, w)" by (cases "rg_Close reg (ap_world a2)")
  define a3 where "a3 = a2\<lparr>ap_world := w\<rparr>"
  have live2: "live (ap_world a2)" using a2 assms(5) by (simp add: calm_def)
  have up3: "up (ap_world a3) = up (ap_world a)" using a2 close_up [OF c] by (simp add: calm_def a3_def)
  have found3: "found (ap_world a3) = Map.empty" using close_found [OF live2 c] by (simp add: a3_def)
  have tr3: "ap_transports a3 = map tr js" using a2 assms(3) by (simp add: calm_def a3_def)
  obtain e4 a4 where st: "stop_transports (map tr js) None a3 = (e4, a4)" by fastforce
  have "a' = run_hooks (hk_afterStop hk) (close_bus a4)"
    using assms(2,4,6) a2 c st tr3 unfolding app_Stop_def Let_def a2_def [symmetric]
    by (simp add: calm_def on_world_eq a3_def [symmetric])
  then have "calm a4 a'" using calm_trans [OF calm_close_bus calm_run_hooks [OF hooks(2)]] by simp
  then show ?thesis using stop_transports_down [OF st] stop_transports_found [OF st] up3 found3
    by (simp add: calm_def)
qed

end

section \<open>A cluster\<close>

text \<open>gRPC servers, HTTP servers and one in-memory registry.\<close>

record ('o, 'u, 's, 'x, 'v) cluster =
  cl_grpc :: "('o, 'u, 's) grpc_net"
  cl_http :: "('x, 'v) http_net"
  cl_reg :: mem_registry

datatype member = GrpcMember nat | HttpMember nat

text \<open>A transport whose objects are one part of a larger world.\<close>

definition transport_in :: "('w \<Rightarrow> 'n) \<Rightarrow> ('n \<Rightarrow> 'w \<Rightarrow> 'w) \<Rightarrow> 'n transport \<Rightarrow> 'w transport" where
  "transport_in part update t =
     \<lparr>tr_ID = tr_ID t, tr_Name = tr_Name t, tr_Version = tr_Version t, tr_Metadata = tr_Metadata t, tr_Addr = tr_Addr t,
      tr_Start = (\<lambda>w. let (err, n) = tr_Start t (part w) in (err, update n w)),
      tr_Stop = (\<lambda>w. let (err, n) = tr_Stop t (part w) in (err, update n w))\<rparr>"

lemma service_of_transport_in [simp]: "service_of (transport_in part update t) = service_of t"
  by (simp add: transport_in_def service_of_def)

text \<open>
  The goroutine of HTTP server \<open>i\<close> listens on the addresses of the machine, which the gRPC servers use as
  well; \<open>cluster_settle is\<close>: the goroutines of the servers \<open>is\<close> run, in that order.
\<close>

definition cluster_listen ::
    "(string \<Rightarrow> string \<Rightarrow> go_error option) \<Rightarrow> nat \<Rightarrow> ('o, 'u, 's, 'x, 'v) cluster \<Rightarrow> ('o, 'u, 's, 'x, 'v) cluster" where
  "cluster_listen load i w =
     (let (s, bound) = http_ListenAndServe load (hn_server (cl_http w) i) (fst (gn_world (cl_grpc w)))
      in w\<lparr>cl_http := (cl_http w)\<lparr>hn_server := (hn_server (cl_http w))(i := s)\<rparr>,
           cl_grpc := (cl_grpc w)\<lparr>gn_world := (bound, snd (gn_world (cl_grpc w)))\<rparr>\<rparr>)"

definition cluster_settle ::
    "(string \<Rightarrow> string \<Rightarrow> go_error option) \<Rightarrow> nat list \<Rightarrow> ('o, 'u, 's, 'x, 'v) cluster \<Rightarrow> ('o, 'u, 's, 'x, 'v) cluster" where
  "cluster_settle load is w = fold (cluster_listen load) is w"

definition cluster_release :: "nat \<Rightarrow> ('o, 'u, 's, 'x, 'v) cluster \<Rightarrow> ('o, 'u, 's, 'x, 'v) cluster" where
  "cluster_release i w =
     w\<lparr>cl_grpc := (cl_grpc w)\<lparr>gn_world := (http_release (hn_server (cl_http w) i) (fst (gn_world (cl_grpc w))),
        snd (gn_world (cl_grpc w)))\<rparr>\<rparr>"

text \<open>
  A member of the cluster as a transport.  \<open>sched m\<close>: the HTTP servers whose goroutines run just before the
  start, and just before the stop, of member \<open>m\<close>, so that they interleave with the application in any way.
\<close>

definition preceded :: "('w \<Rightarrow> 'w) \<Rightarrow> ('w \<Rightarrow> 'w) \<Rightarrow> 'w transport \<Rightarrow> 'w transport" where
  "preceded f g t = t\<lparr>tr_Start := \<lambda>w. tr_Start t (f w), tr_Stop := \<lambda>w. tr_Stop t (g w)\<rparr>"

lemma service_of_preceded [simp]: "service_of (preceded f g t) = service_of t"
  by (simp add: preceded_def service_of_def)

definition cluster_transport ::
    "(string \<Rightarrow> string \<Rightarrow> go_error option) \<Rightarrow> (member \<Rightarrow> nat list \<times> nat list) \<Rightarrow>
     (nat \<Rightarrow> ('o, 'u, 's) grpc_net transport) \<Rightarrow> (nat \<Rightarrow> ('x, 'v) http_net transport) \<Rightarrow> member \<Rightarrow>
     ('o, 'u, 's, 'x, 'v) cluster transport" where
  "cluster_transport load sched gt ht m =
     (case m of
        GrpcMember i \<Rightarrow> preceded (cluster_settle load (fst (sched m))) (cluster_settle load (snd (sched m)))
          (transport_in cl_grpc (\<lambda>n w. w\<lparr>cl_grpc := n\<rparr>) (gt i))
      | HttpMember i \<Rightarrow> preceded (cluster_settle load (fst (sched m)))
          (\<lambda>w. cluster_release i (cluster_settle load (snd (sched m)) w))
          (transport_in cl_http (\<lambda>n w. w\<lparr>cl_http := n\<rparr>) (ht i)))"

text \<open>
  \<open>cluster_up\<close>: started and not stopped; \<open>cluster_serves\<close>: it accepts calls, which for an HTTP server takes its
  goroutine to have bound the address; \<open>listen_failed\<close>: that goroutine has ended with an error.
\<close>

definition cluster_up :: "('o, 'u, 's, 'x, 'v) cluster \<Rightarrow> member \<Rightarrow> bool" where
  "cluster_up w m = (case m of GrpcMember i \<Rightarrow> grpc_net_up (cl_grpc w) i | HttpMember i \<Rightarrow> http_net_up (cl_http w) i)"

text \<open>
  The registry the application is given: its operations on the in-memory registry, none of which fails.
  \<open>order\<close> is how a range over the watchers runs, \<open>now\<close> the time of the registrations.
\<close>

definition memory_ops :: "(nat set \<Rightarrow> nat list) \<Rightarrow> time \<Rightarrow> ('o, 'u, 's, 'x, 'v) cluster registry_ops" where
  "memory_ops order now =
     \<lparr>rg_Connect = (\<lambda>w. (None, w\<lparr>cl_reg := memory_Connect (cl_reg w)\<rparr>)),
      rg_Close = (\<lambda>w. (None, w\<lparr>cl_reg := memory_Close (order (mr_registered (cl_reg w))) (cl_reg w)\<rparr>)),
      rg_Register = (\<lambda>s w. (None, w\<lparr>cl_reg := snd (memory_Register (order (mr_registered (cl_reg w))) now now s (cl_reg w))\<rparr>)),
      rg_Watch = (\<lambda>w. (None, w\<lparr>cl_reg := snd (memory_Watch (cl_reg w))\<rparr>))\<rparr>"

definition cluster_found :: "('o, 'u, 's, 'x, 'v) cluster \<Rightarrow> string \<times> string \<rightharpoonup> service" where
  "cluster_found w = (\<lambda>(name, i). memory_lookup (cl_reg w) name i)"

definition cluster_sound :: "('o, 'u, 's, 'x, 'v) cluster \<Rightarrow> bool" where
  "cluster_sound w = cache_ok (mr_services (cl_reg w))"

definition cluster_live :: "('o, 'u, 's, 'x, 'v) cluster \<Rightarrow> bool" where
  "cluster_live w \<longleftrightarrow> mr_running (cl_reg w) \<and> cluster_sound w"

definition cluster_serves :: "('o, 'u, 's, 'x, 'v) cluster \<Rightarrow> member \<Rightarrow> bool" where
  "cluster_serves w m =
     (case m of GrpcMember i \<Rightarrow> grpc_net_up (cl_grpc w) i | HttpMember i \<Rightarrow> http_serving (hn_server (cl_http w) i))"

definition listen_failed :: "('o, 'u, 's, 'x, 'v) cluster \<Rightarrow> nat \<Rightarrow> go_error option" where
  "listen_failed w i =
     (case hsv_server (hn_server (cl_http w) i) of
        Some ns \<Rightarrow> (case ns_serve ns of ServeFailed e \<Rightarrow> Some e | _ \<Rightarrow> None)
      | None \<Rightarrow> None)"

lemma cluster_serves_up: "cluster_serves w m \<Longrightarrow> cluster_up w m"
  by (auto simp: cluster_serves_def cluster_up_def http_net_up_def http_serving_up split: member.splits)

lemma cluster_settle_nil [simp]: "cluster_settle load [] w = w"
  by (simp add: cluster_settle_def)

lemma cluster_listen_keeps:
  "cl_reg (cluster_listen load i w) = cl_reg w \<and> cluster_up (cluster_listen load i w) m = cluster_up w m"
proof -
  obtain s bound where l: "http_ListenAndServe load (hn_server (cl_http w) i) (fst (gn_world (cl_grpc w))) = (s, bound)"
    by fastforce
  with http_ListenAndServe_keeps [OF l] show ?thesis
    by (cases m) (simp_all add: cluster_listen_def cluster_up_def grpc_net_up_def http_net_up_def)
qed

lemma cluster_settle_keeps:
  "cl_reg (cluster_settle load is w) = cl_reg w \<and> cluster_up (cluster_settle load is w) m = cluster_up w m"
  unfolding cluster_settle_def by (induction "is" arbitrary: w) (simp_all add: cluster_listen_keeps)

lemma cluster_release_keeps:
  "cl_reg (cluster_release i w) = cl_reg w \<and> cluster_up (cluster_release i w) m = cluster_up w m"
  by (auto simp: cluster_release_def cluster_up_def grpc_net_up_def split: member.splits)

lemma cluster_transport_start:
  assumes "transport_contract grpc_net_up gt" and "transport_contract http_net_up ht"
    and "tr_Start (cluster_transport load sched gt ht m) w = (err, w')"
  shows "cl_reg w' = cl_reg w \<and> cluster_up w' n = (if n = m \<and> err = None then True else cluster_up w n)"
proof -
  define v where "v = cluster_settle load (fst (sched m)) w"
  have v: "cl_reg v = cl_reg w" "\<And>n. cluster_up v n = cluster_up w n" by (simp_all add: v_def cluster_settle_keeps)
  show ?thesis
  proof (cases m)
    case (GrpcMember i)
    obtain e g where s: "tr_Start (gt i) (cl_grpc v) = (e, g)" by fastforce
    with assms(3) GrpcMember have "err = e" "w' = v\<lparr>cl_grpc := g\<rparr>"
      by (simp_all add: cluster_transport_def preceded_def transport_in_def v_def)
    with transport_contract.start_up [OF assms(1) s] GrpcMember v(1) v(2) [of n] show ?thesis
      by (cases n) (auto simp: cluster_up_def)
  next
    case (HttpMember i)
    obtain e g where s: "tr_Start (ht i) (cl_http v) = (e, g)" by fastforce
    with assms(3) HttpMember have "err = e" "w' = v\<lparr>cl_http := g\<rparr>"
      by (simp_all add: cluster_transport_def preceded_def transport_in_def v_def)
    with transport_contract.start_up [OF assms(2) s] HttpMember v(1) v(2) [of n] show ?thesis
      by (cases n) (auto simp: cluster_up_def)
  qed
qed

lemma cluster_transport_stop:
  assumes "transport_contract grpc_net_up gt" and "transport_contract http_net_up ht"
    and "tr_Stop (cluster_transport load sched gt ht m) w = (err, w')"
  shows "cl_reg w' = cl_reg w \<and> cluster_up w' n = (n \<noteq> m \<and> cluster_up w n)"
proof (cases m)
  case (GrpcMember i)
  define v where "v = cluster_settle load (snd (sched m)) w"
  have v: "cl_reg v = cl_reg w" "\<And>n. cluster_up v n = cluster_up w n" by (simp_all add: v_def cluster_settle_keeps)
  obtain e g where s: "tr_Stop (gt i) (cl_grpc v) = (e, g)" by fastforce
  with assms(3) GrpcMember have "err = e" "w' = v\<lparr>cl_grpc := g\<rparr>"
    by (simp_all add: cluster_transport_def preceded_def transport_in_def v_def)
  with transport_contract.stop_down [OF assms(1) s] GrpcMember v(1) v(2) [of n] show ?thesis
    by (cases n) (auto simp: cluster_up_def)
next
  case (HttpMember i)
  define v where "v = cluster_release i (cluster_settle load (snd (sched m)) w)"
  have v: "cl_reg v = cl_reg w" "\<And>n. cluster_up v n = cluster_up w n"
    by (simp_all add: v_def cluster_settle_keeps cluster_release_keeps)
  obtain e g where s: "tr_Stop (ht i) (cl_http v) = (e, g)" by fastforce
  with assms(3) HttpMember have "err = e" "w' = v\<lparr>cl_http := g\<rparr>"
    by (simp_all add: cluster_transport_def preceded_def transport_in_def v_def)
  with transport_contract.stop_down [OF assms(2) s] HttpMember v(1) v(2) [of n] show ?thesis
    by (cases n) (auto simp: cluster_up_def)
qed

text \<open>Once its goroutine has run, a server that is up serves or has failed to listen.\<close>

definition listen_pending :: "('o, 'u, 's, 'x, 'v) cluster \<Rightarrow> nat \<Rightarrow> bool" where
  "listen_pending w i \<longleftrightarrow> (case hsv_server (hn_server (cl_http w) i) of Some ns \<Rightarrow> ns_serve ns = ServePending | None \<Rightarrow> False)"

lemma cluster_listen_pending: "listen_pending (cluster_listen load i w) k = (k \<noteq> i \<and> listen_pending w k)"
proof -
  obtain s' bound' where l: "http_ListenAndServe load (hn_server (cl_http w) i) (fst (gn_world (cl_grpc w))) = (s', bound')"
    by fastforce
  have "hsv_server s' = Some ns \<Longrightarrow> ns_serve ns \<noteq> ServePending" for ns
    using http_ListenAndServe_settles [OF l] l
    by (cases "hsv_server (hn_server (cl_http w) i)") (auto simp: http_ListenAndServe_def)
  then show ?thesis by (auto simp: cluster_listen_def l listen_pending_def split: option.splits)
qed

lemma cluster_settle_pending: "listen_pending (cluster_settle load is w) k = (k \<notin> set is \<and> listen_pending w k)"
  unfolding cluster_settle_def by (induction "is" arbitrary: w) (auto simp: cluster_listen_pending)

lemma up_serves_or_failed:
  "cluster_up w (HttpMember i) \<Longrightarrow> \<not> listen_pending w i \<Longrightarrow> cluster_serves w (HttpMember i) \<or> listen_failed w i \<noteq> None"
  by (auto simp: cluster_up_def http_net_up_def http_up_def cluster_serves_def http_serving_def listen_pending_def
      listen_failed_def split: option.splits serve_state.splits)

lemma up_grpc_serves: "cluster_serves w (GrpcMember i) = cluster_up w (GrpcMember i)"
  by (simp add: cluster_serves_def cluster_up_def)

interpretation cluster_tr: announcing cluster_up
  "cluster_transport load sched (grpc_transport tf us ss gopts gmd) (http_transport hh sd hopts hmd)"
  "memory_ops order now" cluster_found "stamped now" cluster_sound cluster_live
  for load sched tf us ss gopts gmd hh sd hopts hmd order now
proof unfold_locales
  note grpc = grpc_tr.transport_contract_axioms [of tf us ss gopts gmd]
  note http = http_tr.transport_contract_axioms [of hh sd hopts hmd]
  let ?tr = "cluster_transport load sched (grpc_transport tf us ss gopts gmd) (http_transport hh sd hopts hmd)"
  show "cluster_up w' j = (if j = i \<and> err = None then True else cluster_up w j)"
    if "tr_Start (?tr i) w = (err, w')" for i w err w' j
    using cluster_transport_start [OF grpc http that] by simp
  show "cluster_up w' j = (j \<noteq> i \<and> cluster_up w j)" if "tr_Stop (?tr i) w = (err, w')" for i w err w' j
    using cluster_transport_stop [OF grpc http that] by simp
  show "cluster_found w' = cluster_found w \<and> cluster_live w' = cluster_live w"
    if "tr_Start (?tr i) w = (err, w')" for i w err w'
    using cluster_transport_start [OF grpc http that] by (simp add: cluster_found_def cluster_live_def cluster_sound_def)
  show "cluster_found w' = cluster_found w \<and> cluster_live w' = cluster_live w"
    if "tr_Stop (?tr i) w = (err, w')" for i w err w'
    using cluster_transport_stop [OF grpc http that] by (simp add: cluster_found_def cluster_live_def cluster_sound_def)
qed (auto simp: inv_intros memory_ops_def cluster_found_def cluster_sound_def cluster_live_def cluster_up_def memory_lookup_def memory_Connect_def
    memory_Close_def memory_Watch_def cache_lookup_put fun_eq_iff Let_def split: member.splits prod.splits)


lemma alive_no_ttl: "svc_ttl s = 0 \<Longrightarrow> alive now s"
  by (simp add: alive_def)

lemma service_of_simps [simp]:
  "svc_name (service_of t) = tr_Name t" "svc_id (service_of t) = tr_ID t" "svc_ttl (service_of t) = 0"
  "svc_address (service_of t) = tr_Addr t"
  by (simp_all add: service_of_def)

lemma cluster_found_empty: "cluster_found w = Map.empty \<longleftrightarrow> (\<forall>name i. memory_lookup (cl_reg w) name i = None)"
  by (simp add: cluster_found_def fun_eq_iff)

text \<open>Keys that are all different announce each transport once.\<close>

lemma announce_exact:
  assumes "distinct (map (\<lambda>s. (svc_name s, svc_id s)) ss)" and "\<And>s. svc_name (stored s) = svc_name s \<and> svc_id (stored s) = svc_id s"
  shows "announce stored ss Map.empty (name, svc_id s) = Some s \<longleftrightarrow> s \<in> stored ` set ss \<and> svc_name s = name" (is "?l \<longleftrightarrow> ?r")
proof
  assume ?l
  then obtain s' where s': "s' \<in> set ss" "(name, svc_id s) = (svc_name s', svc_id s')"
    using announce_other [of name "svc_id s" ss stored Map.empty] by force
  with announce_in [OF assms(1) s'(1), of stored Map.empty] \<open>?l\<close> have "s = stored s'" by simp
  then show ?r using s' assms(2) by simp
next
  assume ?r
  then obtain s' where "s' \<in> set ss" "s = stored s'" "svc_name s = name" by auto
  then show ?l using announce_in [OF assms(1), of s' stored Map.empty] assms(2) [of s'] by simp
qed

text \<open>What a lookup returns after services without a TTL were announced.\<close>

lemma cluster_GetService:
  assumes "cache_ok (mr_services (cl_reg w))"
    and found: "cluster_found w = announce (stamped now) (map (\<lambda>j. service_of (T j)) js) Map.empty"
    and dist: "distinct (map (\<lambda>s. (svc_name s, svc_id s)) (map (\<lambda>j. service_of (T j)) js))"
  shows "(\<exists>l. memory_GetService name later (cl_reg w) = Inr l \<and> s \<in> set l) \<longleftrightarrow>
     (\<exists>j\<in>set js. tr_Name (T j) = name \<and> s = stamped now (service_of (T j)))" (is "_ \<longleftrightarrow> ?R")
proof -
  have "memory_lookup (cl_reg w) name (svc_id s) = cluster_found w (name, svc_id s)"
    by (simp add: cluster_found_def)
  also have "\<dots> = Some s \<longleftrightarrow> s \<in> stamped now ` set (map (\<lambda>j. service_of (T j)) js) \<and> svc_name s = name"
    unfolding found by (rule announce_exact [OF dist]) simp
  also have "\<dots> \<longleftrightarrow> ?R" by force
  finally have "memory_lookup (cl_reg w) name (svc_id s) = Some s \<longleftrightarrow> ?R" .
  moreover have "?R \<Longrightarrow> svc_healthy s \<and> alive later s" by (elim bexE conjE) (simp add: alive_def)
  ultimately show ?thesis unfolding memory_GetService_in [OF assms(1)] by blast
qed

section \<open>Properties\<close>

text \<open>
  C2: Discovery agrees with what was started.  When \<open>Start\<close> of an application of gRPC and HTTP servers with
  an in-memory registry succeeds, exactly its servers have been started; once the goroutines of its HTTP
  servers have run, in any order and whenever some of them did so before, every gRPC server serves and
  every HTTP server serves or has failed to listen, which \<open>Start\<close> does not report; and \<open>GetService\<close>
  returns under every name exactly the announcements of the servers of that name, with their identifiers
  and addresses.  When \<open>Start\<close> fails, whichever step failed, no server serves, now or after the remaining
  goroutines have run, and \<open>GetService\<close> finds nothing under any name (for hooks and a logger that leave the
  servers and the registry alone, and servers whose names and identifiers differ).
\<close>

theorem app_announces_what_it_serves:
  fixes a :: "('o, 'u, 's, 'x, 'v) cluster app" and load sched tf us ss gopts gmd hh sd hopts hmd
  defines "T \<equiv> cluster_transport load sched (grpc_transport tf us ss gopts gmd) (http_transport hh sd hopts hmd)"
  assumes "announcing.calm_hooks cluster_up cluster_found cluster_sound cluster_live hk"
    and "\<And>p. announcing.calm_op cluster_up cluster_found cluster_sound cluster_live (log_New p)"
    and "ap_registry a = Some (memory_ops order now)" and "ap_transports a = map T js"
    and "distinct (map (\<lambda>j. (tr_Name (T j), tr_ID (T j))) js)" and "\<not> ap_running a" and "\<not> ap_starting a"
    and "\<forall>j. \<not> cluster_up (ap_world a) j" and "mr_services (cl_reg (ap_world a)) = (\<lambda>_. None)"
    and "app_Start hk log_New now' a = (err, a')"
    and "w' = cluster_settle load goroutines (ap_world a')" and "\<forall>i. HttpMember i \<in> set js \<longrightarrow> i \<in> set goroutines"
  shows "case err of
      None \<Rightarrow> (\<forall>j. cluster_up w' j \<longleftrightarrow> j \<in> set js) \<and>
        (\<forall>i. GrpcMember i \<in> set js \<longrightarrow> cluster_serves w' (GrpcMember i)) \<and>
        (\<forall>i. HttpMember i \<in> set js \<longrightarrow> cluster_serves w' (HttpMember i) \<or> listen_failed w' i \<noteq> None) \<and>
        (\<forall>name later s. (\<exists>l. memory_GetService name later (cl_reg w') = Inr l \<and> s \<in> set l) \<longleftrightarrow>
           (\<exists>j\<in>set js. tr_Name (T j) = name \<and> s = stamped now (service_of (T j))))
    | Some e \<Rightarrow> (\<forall>j. \<not> cluster_serves (ap_world a') j \<and> \<not> cluster_serves w' j) \<and>
        (\<forall>name later. memory_GetService name later (cl_reg w') = Inl ErrNotFound)"
proof -
  have empty: "cluster_found (ap_world a) = Map.empty" "cluster_sound (ap_world a)"
    by (simp_all add: cluster_found_empty cluster_sound_def memory_lookup_def assms(10))
  note st = cluster_tr.start_announces [OF assms(2-4) assms(5) [unfolded T_def] assms(7-9) empty assms(11), folded T_def]
  have w': "cl_reg w' = cl_reg (ap_world a')" "\<And>j. cluster_up w' j = cluster_up (ap_world a') j"
    using assms(12) by (simp_all add: cluster_settle_keeps)
  show ?thesis
  proof (cases err)
    case (Some e)
    with st have "cluster_found (ap_world a') = Map.empty" "\<And>j. \<not> cluster_up (ap_world a') j" by simp_all
    moreover have "\<not> cluster_serves (ap_world a') j" "\<not> cluster_serves w' j" for j
      using calculation(2) [of j] w'(2) [of j] cluster_serves_up by blast+
    ultimately show ?thesis using Some w'(1) by (simp add: cluster_found_empty memory_GetService_empty)
  next
    case None
    with st have found: "cluster_found (ap_world a') = announce (stamped now) (map (\<lambda>j. service_of (T j)) js) Map.empty"
      and ok: "cache_ok (mr_services (cl_reg (ap_world a')))"
      and up: "\<And>j. cluster_up w' j \<longleftrightarrow> j \<in> set js" by (simp_all add: cluster_live_def cluster_sound_def w')
    have dist: "distinct (map (\<lambda>s. (svc_name s, svc_id s)) (map (\<lambda>j. service_of (T j)) js))"
      using assms(6) by (simp add: comp_def)
    have "\<not> listen_pending w' i" if "HttpMember i \<in> set js" for i
      using that assms(12,13) by (simp add: cluster_settle_pending)
    then show ?thesis
      using up None cluster_GetService [OF ok found dist] w'(1) up_serves_or_failed [of w'] by (simp add: up_grpc_serves)
  qed
qed

text \<open>A gRPC server and an HTTP server, which share the registry.\<close>

definition demo_cluster :: "(unit, unit, unit, unit, health_heap) cluster" where
  "demo_cluster = \<lparr>cl_grpc = two_servers,
     cl_http = \<lparr>hn_server = (\<lambda>_. fst (http_NewServer [] ''01234567'' constant_codec empty_heap)),
       hn_world = (snd (http_NewServer [] ''01234567'' constant_codec empty_heap :: (unit, health_heap) http_server \<times> health_heap), [])\<rparr>,
     cl_reg = newMemoryRegistry []\<rparr>"

definition no_load :: "string \<Rightarrow> string \<Rightarrow> go_error option" where
  "no_load c k = None"

text \<open>No goroutine runs before the start has returned.\<close>

definition no_sched :: "member \<Rightarrow> nat list \<times> nat list" where
  "no_sched m = ([], [])"

definition demo_transport :: "member \<Rightarrow> (unit, unit, unit, unit, health_heap) cluster transport" where
  "demo_transport = cluster_transport no_load no_sched (grpc_transport bad_files [] [] two_opts (\<lambda>_. []))
     (http_transport (\<lambda>w. w) (\<lambda>_. (None, None)) (\<lambda>_. http_DefaultOptions ''01234567'') (\<lambda>_. []))"

definition demo_app :: "nat \<Rightarrow> (unit, unit, unit, unit, health_heap) cluster app" where
  "demo_app i = app_Bind (map demo_transport [HttpMember 0, GrpcMember i])
     (app_SetRegistry (memory_ops (\<lambda>_. []) 7) (app_New 4 ''89abcdef'' [] demo_cluster))"

lemma demo_calm:
  "announcing.calm_hooks cluster_up cluster_found cluster_sound cluster_live plain_hooks"
  "announcing.calm_op cluster_up cluster_found cluster_sound cluster_live (no_log p)"
  by (simp_all add: cluster_tr.calm_hooks_def cluster_tr.calm_op_def plain_hooks_def no_log_def)

lemma demo_fields:
  "ap_registry (demo_app i) = Some (memory_ops (\<lambda>_. []) 7)"
  "ap_transports (demo_app i) = map demo_transport [HttpMember 0, GrpcMember i]"
  "\<not> ap_running (demo_app i)" "\<not> ap_starting (demo_app i)" "ap_world (demo_app i) = demo_cluster"
  by (simp_all add: demo_app_def app_Bind_def app_SetRegistry_def app_New_def Let_def)

lemma demo_down: "\<not> cluster_up demo_cluster j" "mr_services (cl_reg demo_cluster) = (\<lambda>_. None)"
  by (simp_all add: demo_cluster_def cluster_up_def grpc_net_up_def grpc_up_def http_net_up_def http_up_def two_servers_def
      http_NewServer_def newMemoryRegistry_def NewHealthState_def Let_def split: member.split)

lemma demo_fresh: "\<forall>j. \<not> cluster_up (ap_world (demo_app i)) j" "mr_services (cl_reg (ap_world (demo_app i))) = (\<lambda>_. None)"
  by (simp_all add: demo_fields(5) demo_down)

lemma demo_keys: "distinct (map (\<lambda>j. (tr_Name (demo_transport j), tr_ID (demo_transport j))) [HttpMember 0, GrpcMember 0])"
  by (simp add: demo_transport_def cluster_transport_def preceded_def transport_in_def http_transport_def grpc_transport_def
      http_DefaultOptions_def two_opts_def grpc_DefaultOptions_def)

lemma demo_starts: "fst (app_Start plain_hooks no_log 0 (demo_app 0)) = None"
  by (simp add: app_Start_def demo_app_def app_Bind_def app_New_def app_SetRegistry_def app_DefaultOptions_def
      app_start_body_def plain_hooks_def on_world_eq no_log_def connect_registry_def demo_transport_def
      cluster_transport_def preceded_def no_sched_def transport_in_def memory_ops_def grpc_transport_def http_transport_def http_Start_def
      watch_registry_def app_Publish_def bus_snapshot_def NewBus_def run_hooks_def demo_cluster_def two_servers_def
      two_opts_def grpc_Start_def net_Listen_def grpc_DefaultOptions_def Let_def split: prod.splits)


theorem app_announces_what_it_serves_witness:
  "\<exists>a w l. app_Start plain_hooks no_log 0 (demo_app 0) = (None, a) \<and> w = cluster_settle no_load [0] (ap_world a) \<and>
     cluster_serves w (GrpcMember 0) \<and> memory_GetService ''first'' 100 (cl_reg w) = Inr l \<and>
     stamped 7 (service_of (demo_transport (GrpcMember 0))) \<in> set l"
proof -
  obtain a where start: "app_Start plain_hooks no_log 0 (demo_app 0) = (None, a)"
    using demo_starts by (metis prod.collapse)
  have name: "tr_Name (demo_transport (GrpcMember 0)) = ''first''"
    by (simp add: demo_transport_def cluster_transport_def preceded_def transport_in_def grpc_transport_def two_opts_def)
  have "\<forall>i. HttpMember i \<in> set [HttpMember 0, GrpcMember 0] \<longrightarrow> i \<in> set [0]" by simp
  note C = app_announces_what_it_serves [OF demo_calm(1) demo_calm(2) demo_fields(1)
      demo_fields(2) [unfolded demo_transport_def] demo_keys [unfolded demo_transport_def] demo_fields(3,4) demo_fresh start
      refl this, folded demo_transport_def, unfolded option.case]
  have "GrpcMember 0 \<in> set [HttpMember 0, GrpcMember 0]" by simp
  then show ?thesis using C name start by metis
qed

text \<open>
  C18: Stopping withdraws everything: after a start of such an application that succeeded, the stop leaves
  none of its servers serving and nothing to be found under any name, whatever the stops of the servers
  return.
\<close>

theorem app_stop_withdraws_services:
  fixes a :: "('o, 'u, 's, 'x, 'v) cluster app" and load sched tf us ss gopts gmd hh sd hopts hmd
  defines "T \<equiv> cluster_transport load sched (grpc_transport tf us ss gopts gmd) (http_transport hh sd hopts hmd)"
  assumes "announcing.calm_hooks cluster_up cluster_found cluster_sound cluster_live hk"
    and "\<And>p. announcing.calm_op cluster_up cluster_found cluster_sound cluster_live (log_New p)"
    and "ap_registry a = Some (memory_ops order now)" and "ap_transports a = map T js"
    and "\<not> ap_running a" and "\<not> ap_starting a"
    and "\<forall>j. \<not> cluster_up (ap_world a) j" and "mr_services (cl_reg (ap_world a)) = (\<lambda>_. None)"
    and "app_Start hk log_New now' a = (None, a1)" and "app_Stop hk a1 = (err, a2)"
  shows "(\<forall>j. \<not> cluster_up (ap_world a2) j) \<and>
     (\<forall>name later. memory_GetService name later (cl_reg (ap_world a2)) = Inl ErrNotFound)"
proof -
  have empty: "cluster_found (ap_world a) = Map.empty" "cluster_sound (ap_world a)"
    by (simp_all add: cluster_found_empty cluster_sound_def memory_lookup_def assms(9))
  note st = cluster_tr.start_announces [OF assms(2-4) assms(5) [unfolded T_def] assms(6-8) empty assms(10), folded T_def]
  have run: "ap_running a1" using app_Start_flags [OF assms(6,7,10)] by simp
  have a1: "ap_registry a1 = Some (memory_ops order now)" "ap_transports a1 = map T js" "cluster_live (ap_world a1)"
    "\<forall>j. cluster_up (ap_world a1) j \<longleftrightarrow> j \<in> set js" using st by simp_all
  from cluster_tr.stop_withdraws [OF assms(2) a1(1) a1(2) [unfolded T_def] run a1(3) assms(11)] a1(4)
  show ?thesis by (simp add: cluster_found_empty memory_GetService_empty)
qed

theorem app_stop_withdraws_services_witness:
  "(let (e1, a1) = app_Start plain_hooks no_log 0 (demo_app 0); (e2, a2) = app_Stop plain_hooks a1
    in e1 = None \<and> \<not> cluster_up (ap_world a2) (GrpcMember 0) \<and>
       memory_GetService ''first'' 100 (cl_reg (ap_world a2)) = Inl ErrNotFound)"
proof -
  obtain a1 e2 a2 where run: "app_Start plain_hooks no_log 0 (demo_app 0) = (None, a1)" "app_Stop plain_hooks a1 = (e2, a2)"
    using demo_starts by (metis prod.collapse)
  from app_stop_withdraws_services [OF demo_calm(1) demo_calm(2) demo_fields(1)
      demo_fields(2) [unfolded demo_transport_def] demo_fields(3,4) demo_fresh run]
  show ?thesis using run by simp
qed


text \<open>
  An HTTP server whose address is taken is announced all the same: of two HTTP servers with one address,
  \<open>Start\<close> reports success, discovery returns both, and only one of them ever serves.
\<close>

definition pair_opts :: "nat \<Rightarrow> http_options" where
  "pair_opts i = (http_DefaultOptions ''01234567'')\<lparr>ho_ID := (if i = 0 then ''a'' else ''b'')\<rparr>"

definition pair_transport :: "member \<Rightarrow> (unit, unit, unit, unit, health_heap) cluster transport" where
  "pair_transport = cluster_transport no_load no_sched (grpc_transport bad_files [] [] two_opts (\<lambda>_. []))
     (http_transport (\<lambda>w. w) (\<lambda>_. (None, None)) pair_opts (\<lambda>_. []))"

definition pair_app :: "(unit, unit, unit, unit, health_heap) cluster app" where
  "pair_app = app_Bind (map pair_transport [HttpMember 0, HttpMember 1])
     (app_SetRegistry (memory_ops (\<lambda>_. []) 7) (app_New 4 ''89abcdef'' [] demo_cluster))"

lemma pair_fields:
  "ap_registry pair_app = Some (memory_ops (\<lambda>_. []) 7)"
  "ap_transports pair_app = map pair_transport [HttpMember 0, HttpMember 1]"
  "\<not> ap_running pair_app" "\<not> ap_starting pair_app" "ap_world pair_app = demo_cluster"
  by (simp_all add: pair_app_def app_Bind_def app_SetRegistry_def app_New_def Let_def)

lemma pair_starts:
  "\<exists>a. app_Start plain_hooks no_log 0 pair_app = (None, a) \<and> fst (gn_world (cl_grpc (ap_world a))) = {} \<and>
     (\<forall>i\<in>{0, 1}. \<exists>ns. hsv_server (hn_server (cl_http (ap_world a)) i) = Some ns \<and> ns_Addr ns = '':8080'' \<and>
        ns_serve ns = ServePending \<and> \<not> ns_closed ns \<and> ho_TLSCert (hsv_opts (hn_server (cl_http (ap_world a)) i)) = [])"
  by (simp add: app_Start_def pair_app_def app_Bind_def app_New_def app_SetRegistry_def app_DefaultOptions_def
      app_start_body_def plain_hooks_def on_world_eq no_log_def connect_registry_def pair_transport_def
      cluster_transport_def preceded_def no_sched_def transport_in_def memory_ops_def grpc_transport_def http_transport_def http_Start_def
      watch_registry_def app_Publish_def bus_snapshot_def NewBus_def run_hooks_def demo_cluster_def two_servers_def
      http_NewServer_def http_DefaultOptions_def NewHealthState_def Let_def split: prod.splits)

theorem taken_address_is_announced:
  "\<exists>a w l. app_Start plain_hooks no_log 0 pair_app = (None, a) \<and> w = cluster_settle no_load [0, 1] (ap_world a) \<and>
     cluster_serves w (HttpMember 0) \<and> \<not> cluster_serves w (HttpMember 1) \<and> listen_failed w 1 = Some ErrAddrInUse \<and>
     memory_GetService ''http-service'' 100 (cl_reg w) = Inr l \<and>
     {stamped 7 (service_of (pair_transport (HttpMember i))) | i. i < 2} \<subseteq> set l"
proof -
  obtain a ns0 ns1 where start: "app_Start plain_hooks no_log 0 pair_app = (None, a)" and free: "fst (gn_world (cl_grpc (ap_world a))) = {}"
    and ns0: "hsv_server (hn_server (cl_http (ap_world a)) 0) = Some ns0" "ns_Addr ns0 = '':8080''" "ns_serve ns0 = ServePending"
      "\<not> ns_closed ns0" "ho_TLSCert (hsv_opts (hn_server (cl_http (ap_world a)) 0)) = []"
    and ns1: "hsv_server (hn_server (cl_http (ap_world a)) 1) = Some ns1" "ns_Addr ns1 = '':8080''" "ns_serve ns1 = ServePending"
      "\<not> ns_closed ns1" "ho_TLSCert (hsv_opts (hn_server (cl_http (ap_world a)) 1)) = []"
    using pair_starts by auto
  define w where "w = cluster_settle no_load [0, 1] (ap_world a)"
  note listen = cluster_settle_def cluster_listen_def http_ListenAndServe_def net_ListenAndServe_def net_Listen_def ns_listen_addr_def
  have serves: "cluster_serves w (HttpMember 0)" "\<not> cluster_serves w (HttpMember 1)" "listen_failed w 1 = Some ErrAddrInUse"
    using ns0 ns1 free by (simp_all add: w_def listen cluster_serves_def http_serving_def listen_failed_def del: One_nat_def)
  have keys: "distinct (map (\<lambda>s. (svc_name s, svc_id s)) (map (\<lambda>j. service_of (pair_transport j)) [HttpMember 0, HttpMember 1]))"
    and names: "tr_Name (pair_transport (HttpMember i)) = ''http-service''" for i
    by (simp_all add: pair_transport_def cluster_transport_def preceded_def transport_in_def http_transport_def
        pair_opts_def http_DefaultOptions_def)
  have fresh: "\<forall>j. \<not> cluster_up (ap_world pair_app) j" "cluster_found (ap_world pair_app) = Map.empty" "cluster_sound (ap_world pair_app)"
    by (simp_all add: pair_fields(5) demo_down cluster_found_empty cluster_sound_def memory_lookup_def)
  note st = cluster_tr.start_announces [OF demo_calm(1) demo_calm(2) pair_fields(1) pair_fields(2) [unfolded pair_transport_def]
      pair_fields(3,4) fresh start, folded pair_transport_def]
  have w: "cl_reg w = cl_reg (ap_world a)" by (simp add: w_def cluster_settle_keeps)
  then have ok: "cache_ok (mr_services (cl_reg w))"
    and found: "cluster_found w = announce (stamped 7) (map (\<lambda>j. service_of (pair_transport j)) [HttpMember 0, HttpMember 1]) Map.empty"
    using st by (simp_all add: cluster_live_def cluster_sound_def cluster_found_def fun_eq_iff)
  note get = cluster_GetService [OF ok found keys, of "''http-service''" 100]
  have in0: "\<exists>l. memory_GetService ''http-service'' 100 (cl_reg w) = Inr l \<and> stamped 7 (service_of (pair_transport (HttpMember 0))) \<in> set l"
    and in1: "\<exists>l. memory_GetService ''http-service'' 100 (cl_reg w) = Inr l \<and> stamped 7 (service_of (pair_transport (HttpMember 1))) \<in> set l"
    unfolding get using names by auto
  then obtain l where l: "memory_GetService ''http-service'' 100 (cl_reg w) = Inr l"
    "stamped 7 (service_of (pair_transport (HttpMember 0))) \<in> set l" "stamped 7 (service_of (pair_transport (HttpMember 1))) \<in> set l"
    by auto
  have "i = 0 \<or> i = 1" if "i < 2" for i :: nat using that by auto
  then have "{stamped 7 (service_of (pair_transport (HttpMember i))) | i. i < 2} \<subseteq> set l" using l by blast
  then show ?thesis using start serves l w_def by blast
qed

end
