(* ===== verification/EtcdRegistry.thy ===== *)
theory EtcdRegistry
  imports RemoteRegistry
begin

text \<open>
  The etcd registry (\<open>registry/etcd.go\<close>).  The etcd client and \<open>encoding/json\<close> are arguments: the client is
  a record of functions on a world \<open>'w\<close>.  The operations run under the mutex, except for the revocations
  of \<open>Close\<close>, which is given as its part under the mutex and the revocations that follow, run with no other
  call in between; the goroutines (the readers of the keep-alive answers, and one per watcher) are steps of
  their own.
\<close>

section \<open>The client and the codec\<close>

record etcd_conf =
  ef_endpoints :: "string list"
  ef_timeout :: duration
  ef_auth :: "(string \<times> string) option"

text \<open>\<open>ec_get\<close> is \<open>Get\<close> with \<open>WithPrefix\<close>: keys with their values.  A call can fail in any state of the world, as it does after a timeout.\<close>

record 'w etcd_client =
  ec_new :: "etcd_conf \<Rightarrow> 'w \<Rightarrow> go_error option"
  ec_grant :: "int \<Rightarrow> 'w \<Rightarrow> int result \<times> 'w"
  ec_put :: "string \<Rightarrow> string \<Rightarrow> int \<Rightarrow> 'w \<Rightarrow> go_error option \<times> 'w"
  ec_keepalive :: "int \<Rightarrow> 'w \<Rightarrow> go_error option \<times> 'w"
  ec_revoke :: "int \<Rightarrow> 'w \<Rightarrow> go_error option \<times> 'w"
  ec_delete :: "string \<Rightarrow> 'w \<Rightarrow> go_error option \<times> 'w"
  ec_get :: "string \<Rightarrow> 'w \<Rightarrow> (string \<times> string) list result"
  ec_close :: "'w \<Rightarrow> go_error option \<times> 'w"

text \<open>\<open>Unmarshal\<close> into an empty service: an error, and the service as it leaves it.\<close>

record service_json =
  sj_marshal :: "service \<Rightarrow> string"
  sj_unmarshal :: "string \<Rightarrow> go_error option \<times> service"

section \<open>State\<close>

record etcd = "rwatcher remote" +
  et_prefix :: string
  et_registered :: "string \<Rightarrow> int option"
  et_keepers :: "(string \<times> int) list"  \<comment> \<open>goroutines that read keep-alive answers, by key and lease\<close>
  et_watching :: "nat set"  \<comment> \<open>watchers whose goroutine \<open>watch\<close> runs\<close>
  et_stopped :: bool  \<comment> \<open>\<open>stopCh\<close> is closed\<close>

definition newEtcdRegistry :: "reg_option list \<Rightarrow> etcd" where
  "newEtcdRegistry os =
     (let oo = remote_options ''127.0.0.1:2379'' os
      in \<lparr>rr_opts = oo, rr_services = (\<lambda>_. None), rr_watchers = {}, rr_heap = (\<lambda>_. None), rr_nextID = 0, rr_running = False,
          rr_client = False, et_prefix = ''/grodyia'' @ ''/'' @ ro_group oo @ ''/'' @ ro_namespace oo,
          et_registered = (\<lambda>_. None), et_keepers = [], et_watching = {}, et_stopped = False\<rparr>)"

definition etcd_serviceKey :: "etcd \<Rightarrow> string \<Rightarrow> string \<Rightarrow> string" where
  "etcd_serviceKey r name i = et_prefix r @ ''/'' @ name @ ''/'' @ i"

definition etcd_config :: "reg_options \<Rightarrow> etcd_conf" where
  "etcd_config oo = \<lparr>ef_endpoints = ro_addresses oo, ef_timeout = ro_timeout oo,
     ef_auth = (if ro_username oo \<noteq> '''' then Some (ro_username oo, ro_password oo) else None)\<rparr>"

definition etcd_Connect :: "'w etcd_client \<Rightarrow> 'w \<Rightarrow> etcd \<Rightarrow> go_error option \<times> etcd" where
  "etcd_Connect ec w r =
     (if rr_running r then (None, r)
      else (case ec_new ec (etcd_config (rr_opts r)) w of
              Some err \<Rightarrow> (Some (Wrap ''etcd connect failed'' err), r)
            | None \<Rightarrow> (None, r\<lparr>rr_client := True, rr_running := True\<rparr>)))"

text \<open>
  The part of \<open>Close\<close> under the mutex: the registry forgets its keys and its watchers, and hands over the
  keys it has to withdraw; nothing when it does not run.  The channel \<open>stopCh\<close> is never made again.
\<close>

definition etcd_Close_locked :: "etcd \<Rightarrow> ((string \<Rightarrow> int option) option \<times> etcd) outcome" where
  "etcd_Close_locked r =
     (if \<not> rr_running r then Ret (None, r)
      else if et_stopped r then Panicked ''close of closed channel''
      else Ret (Some (et_registered r),
        r\<lparr>rr_running := False, et_stopped := True, et_registered := (\<lambda>_. None), rr_watchers := {}\<rparr>))"

text \<open>The revocations, after it.  The first component lists the keys a warning is logged for.\<close>

fun revoke_leases :: "'w etcd_client \<Rightarrow> (string \<times> int) list \<Rightarrow> 'w \<Rightarrow> string list \<times> 'w" where
  "revoke_leases ec [] w = ([], w)"
| "revoke_leases ec ((key, lease) # kls) w =
     (let (err, w1) = ec_revoke ec lease w; (failed, w2) = revoke_leases ec kls w1
      in ((if err = None then [] else [key]) @ failed, w2))"

text \<open>
  \<open>Close\<close>: the error it returns is the client's, and the keys whose revocation failed.  \<open>ks\<close>: the order of the
  range over the registered keys.
\<close>

definition etcd_Close ::
    "'w etcd_client \<Rightarrow> string list \<Rightarrow> 'w \<times> etcd \<Rightarrow> ((go_error option \<times> string list) \<times> 'w \<times> etcd) outcome" where
  "etcd_Close ec ks wr =
     (let (w, r) = wr
      in case etcd_Close_locked r of
           Panicked p \<Rightarrow> Panicked p
         | Ret (None, r') \<Rightarrow> Ret ((None, []), w, r')
         | Ret (Some registered, r') \<Rightarrow>
             (let (failed, w1) = revoke_leases ec (range_over ks registered) w;
                  (err, w2) = (if rr_client r then ec_close ec w1 else (None, w1))
              in Ret ((err, failed), w2, r')))"

lemma etcd_Close_cases:
  "etcd_Close ec ks (w, r) =
     (if \<not> rr_running r then Ret ((None, []), w, r)
      else if et_stopped r then Panicked ''close of closed channel''
      else (let (failed, w1) = revoke_leases ec (range_over ks (et_registered r)) w;
                (err, w2) = (if rr_client r then ec_close ec w1 else (None, w1))
            in Ret ((err, failed), w2,
                 r\<lparr>rr_running := False, et_stopped := True, et_registered := (\<lambda>_. None), rr_watchers := {}\<rparr>)))"
  by (simp add: etcd_Close_def etcd_Close_locked_def)

lemma etcd_Close_returns:
  "rr_running r \<Longrightarrow> \<not> et_stopped r \<Longrightarrow> \<exists>e w' r'. etcd_Close ec ks (w, r) = Ret (e, w', r')"
  by (simp add: etcd_Close_cases Let_def split: prod.split)

section \<open>Registration\<close>

text \<open>The caller's service is part of the result: it is stamped before the first call that can fail late.\<close>

definition etcd_Register ::
    "'w etcd_client \<Rightarrow> service_json \<Rightarrow> time \<Rightarrow> time \<Rightarrow> service \<Rightarrow> 'w \<times> etcd \<Rightarrow> (go_error option \<times> service) \<times> 'w \<times> etcd" where
  "etcd_Register ec js t t' s0 wr =
     (let (w, r) = wr
      in if \<not> rr_client r then ((Some ErrNotConnected, s0), w, r)
         else (case ec_grant ec (float_to_int (Seconds float64 (ro_ttl (rr_opts r)))) w of
             (Inl err, w1) \<Rightarrow> ((Some (Wrap ''etcd create lease failed'' err), s0), w1, r)
           | (Inr lease, w1) \<Rightarrow>
               (let s = stamped t s0; key = etcd_serviceKey r (svc_name s) (svc_id s)
                in case ec_put ec key (sj_marshal js s) lease w1 of
                     (Some err, w2) \<Rightarrow> ((Some (Wrap ''etcd register failed'' err), s), w2, r)
                   | (None, w2) \<Rightarrow>
                       (case ec_keepalive ec lease w2 of
                          (Some err, w3) \<Rightarrow> ((Some (Wrap ''etcd keep alive failed'' err), s), w3, r)
                        | (None, w3) \<Rightarrow>
                            ((None, s), w3, remote_cache_put t' s
                               (r\<lparr>et_registered := (et_registered r)(key \<mapsto> lease),
                                  et_keepers := et_keepers r @ [(key, lease)]\<rparr>))))))"

definition etcd_Deregister ::
    "'w etcd_client \<Rightarrow> time \<Rightarrow> service \<Rightarrow> 'w \<times> etcd \<Rightarrow> go_error option \<times> 'w \<times> etcd" where
  "etcd_Deregister ec t s wr =
     (let (w, r) = wr
      in if \<not> rr_client r then (Some ErrNotConnected, w, r)
         else (let key = etcd_serviceKey r (svc_name s) (svc_id s);
                   (w1, r1) = (case et_registered r key of
                       Some lease \<Rightarrow> (snd (ec_revoke ec lease w), r\<lparr>et_registered := (et_registered r)(key := None)\<rparr>)
                     | None \<Rightarrow> (w, r))
               in case ec_delete ec key w1 of
                    (Some err, w2) \<Rightarrow> (Some (Wrap ''etcd deregister failed'' err), w2, r1)
                  | (None, w2) \<Rightarrow> (None, w2, remote_cache_remove t s r1)))"

text \<open>
  A reader of keep-alive answers ends with \<open>stopCh\<close>, or when its channel is closed or gives \<open>nil\<close>; a
  lease that is lost is not asked for again.
\<close>

datatype keepalive = KaStop | KaClosed | KaNil | KaAnswer

definition etcd_keeper :: "nat \<Rightarrow> keepalive \<Rightarrow> etcd \<Rightarrow> etcd" where
  "etcd_keeper k ka r =
     (case ka of
        KaStop \<Rightarrow> if et_stopped r then r\<lparr>et_keepers := take k (et_keepers r) @ drop (Suc k) (et_keepers r)\<rparr> else r
      | KaAnswer \<Rightarrow> r
      | _ \<Rightarrow> r\<lparr>et_keepers := take k (et_keepers r) @ drop (Suc k) (et_keepers r)\<rparr>)"

section \<open>Lookup\<close>

text \<open>The values that decode; the others are passed over.\<close>

definition decode_services :: "service_json \<Rightarrow> (string \<times> string) list \<Rightarrow> service list" where
  "decode_services js kvs = map (\<lambda>(_, v). snd (sj_unmarshal js v)) (filter (\<lambda>(_, v). fst (sj_unmarshal js v) = None) kvs)"

definition etcd_GetService ::
    "'w etcd_client \<Rightarrow> service_json \<Rightarrow> string \<Rightarrow> 'w \<times> etcd \<Rightarrow> service list result \<times> etcd" where
  "etcd_GetService ec js name wr =
     (let (w, r) = wr
      in if \<not> rr_client r then (Inl ErrNotConnected, r)
         else (case ec_get ec (et_prefix r @ ''/'' @ name) w of
             Inl err \<Rightarrow> (Inl (Wrap ''etcd get service failed'' err), r)
           | Inr kvs \<Rightarrow>
               if kvs = [] then (Inl ErrNotFound, r)
               else (let services = decode_services js kvs
                     in (Inr services, r\<lparr>rr_services := (rr_services r)(name \<mapsto> services)\<rparr>))))"

definition etcd_ListServices :: "'w etcd_client \<Rightarrow> service_json \<Rightarrow> 'w \<times> etcd \<Rightarrow> service list result" where
  "etcd_ListServices ec js wr =
     (let (w, r) = wr
      in if \<not> rr_client r then Inl ErrNotConnected
         else (case ec_get ec (et_prefix r) w of
             Inl err \<Rightarrow> Inl (Wrap ''etcd list services failed'' err)
           | Inr kvs \<Rightarrow> Inr (decode_services js kvs)))"

section \<open>Watchers\<close>

definition etcd_Watch :: "etcd \<Rightarrow> nat result \<times> etcd" where
  "etcd_Watch r =
     (if \<not> rr_client r then (Inl ErrNotConnected, r)
      else (let (i, r1) = remote_allocate (new_rwatcher (rr_opts r)) r
            in (Inr i, r1\<lparr>et_watching := insert i (et_watching r1)\<rparr>)))"

text \<open>
  The goroutine of a watcher.  Its start: the services that are there are appended to the cache, whether
  they are in it or not, and shown to \<open>OnEvent\<close>, but not sent to the watcher; it ends when it cannot read
  them.  The second component is what \<open>OnEvent\<close> is called with.
\<close>

definition cache_append :: "service \<Rightarrow> cache \<Rightarrow> cache" where
  "cache_append s c = c(svc_name s \<mapsto> cached c (svc_name s) @ [s])"

definition etcd_watch_start ::
    "'w etcd_client \<Rightarrow> service_json \<Rightarrow> nat \<Rightarrow> time \<Rightarrow> 'w \<times> etcd \<Rightarrow> etcd \<times> (nat \<times> event) list" where
  "etcd_watch_start ec js i t wr =
     (let (w, r) = wr
      in case ec_get ec (et_prefix r) w of
           Inl _ \<Rightarrow> (r\<lparr>et_watching := et_watching r - {i}\<rparr>, [])
         | Inr kvs \<Rightarrow>
             (let services = decode_services js kvs
              in (r\<lparr>rr_services := fold cache_append services (rr_services r)\<rparr>,
                  on_event (rr_opts r) (map (\<lambda>s. \<lparr>ev_type = Create, ev_service = s, ev_timestamp = t\<rparr>) services))))"

text \<open>
  Its loop: an event of the store, sent to the watcher whatever service the watcher asked for.  The value
  of a deletion does not decode; then the name and the identifier are taken from the key.
\<close>

record etcd_event =
  ee_type :: event_type
  ee_key :: string
  ee_value :: string

definition event_service :: "service_json \<Rightarrow> string \<Rightarrow> etcd_event \<Rightarrow> service" where
  "event_service js prefix ee =
     (case sj_unmarshal js (ee_value ee) of
        (None, s) \<Rightarrow> s
      | (Some _, s) \<Rightarrow>
          (let parts = split_on CHR ''/'' (trim_prefix (prefix @ ''/'') (ee_key ee))
           in if length parts \<ge> 2 then s\<lparr>svc_name := parts ! 0, svc_id := parts ! 1\<rparr> else s))"

definition etcd_watch_event ::
    "service_json \<Rightarrow> nat \<Rightarrow> time \<Rightarrow> etcd_event \<Rightarrow> etcd \<Rightarrow> etcd \<times> (nat \<times> event) list" where
  "etcd_watch_event js i t ee r =
     (if i \<notin> et_watching r then (r, [])
      else (let ev = \<lparr>ev_type = ee_type ee, ev_service = event_service js (et_prefix r) ee, ev_timestamp = t\<rparr>
            in (remote_push i ev r, on_event (rr_opts r) [ev])))"

text \<open>It ends when \<open>done\<close> or \<open>stopCh\<close> is closed, or with the channel of the store.\<close>

definition etcd_watch_end :: "nat \<Rightarrow> etcd \<Rightarrow> etcd" where
  "etcd_watch_end i r = r\<lparr>et_watching := et_watching r - {i}\<rparr>"

section \<open>Properties\<close>

text \<open>
  What the code relies on of the store: a value that was put is found under every prefix of its key, also
  after the lease is kept alive.
\<close>

definition etcd_keeps :: "'w etcd_client \<Rightarrow> bool" where
  "etcd_keeps ec \<longleftrightarrow> (\<forall>k v l w w1 w2. ec_put ec k v l w = (None, w1) \<longrightarrow> ec_keepalive ec l w1 = (None, w2) \<longrightarrow>
     (\<forall>p q. k = p @ q \<longrightarrow> (\<exists>kvs. ec_get ec p w2 = Inr kvs \<and> (k, v) \<in> set kvs)))"

definition json_keeps :: "service_json \<Rightarrow> service \<Rightarrow> bool" where
  "json_keeps js s \<longleftrightarrow> sj_unmarshal js (sj_marshal js s) = (None, s)"

lemma etcd_Register_ok:
  assumes "etcd_Register ec js t t' s0 (w, r) = ((None, s), w', r')"
  shows "rr_client r" and "s = stamped t s0"
    and "\<exists>lease w1 w2. ec_put ec (etcd_serviceKey r (svc_name s0) (svc_id s0)) (sj_marshal js s) lease w1 = (None, w2) \<and>
       ec_keepalive ec lease w2 = (None, w') \<and>
       r' = remote_cache_put t' s (r\<lparr>et_registered := (et_registered r)(etcd_serviceKey r (svc_name s0) (svc_id s0) \<mapsto> lease),
         et_keepers := et_keepers r @ [(etcd_serviceKey r (svc_name s0) (svc_id s0), lease)]\<rparr>)"
proof -
  show client: "rr_client r" using assms by (simp add: etcd_Register_def split: if_splits)
  obtain x w1 where g: "ec_grant ec (float_to_int (Seconds float64 (ro_ttl (rr_opts r)))) w = (x, w1)" by (rule prod.exhaust)
  from assms client g obtain lease where x: "x = Inr lease" by (cases x) (simp_all add: etcd_Register_def)
  define key where "key = etcd_serviceKey r (svc_name s0) (svc_id s0)"
  obtain y w2 where p: "ec_put ec key (sj_marshal js (stamped t s0)) lease w1 = (y, w2)" by (rule prod.exhaust)
  from assms client g x p have y: "y = None" by (cases y) (simp_all add: etcd_Register_def Let_def key_def)
  obtain z w3 where k: "ec_keepalive ec lease w2 = (z, w3)" by (rule prod.exhaust)
  from assms client g x p y k have z: "z = None" by (cases z) (simp_all add: etcd_Register_def Let_def key_def)
  from assms client g x p y k z
  have "s = stamped t s0 \<and> w' = w3 \<and> r' = remote_cache_put t' (stamped t s0)
      (r\<lparr>et_registered := (et_registered r)(key \<mapsto> lease), et_keepers := et_keepers r @ [(key, lease)]\<rparr>)"
    by (auto simp: etcd_Register_def Let_def key_def)
  with p y k z show "s = stamped t s0"
    and "\<exists>lease w1 w2. ec_put ec (etcd_serviceKey r (svc_name s0) (svc_id s0)) (sj_marshal js s) lease w1 = (None, w2) \<and>
       ec_keepalive ec lease w2 = (None, w') \<and>
       r' = remote_cache_put t' s (r\<lparr>et_registered := (et_registered r)(etcd_serviceKey r (svc_name s0) (svc_id s0) \<mapsto> lease),
         et_keepers := et_keepers r @ [(etcd_serviceKey r (svc_name s0) (svc_id s0), lease)]\<rparr>)"
    unfolding key_def by blast+
qed

text \<open>
  C22: A registered service is found by \<open>GetService\<close> exactly as it was stored, with everything that was in it.
  The lookup goes by a prefix of the key: it is found under its name, and also under every beginning of
  its name.
\<close>

theorem etcd_register_get:
  assumes "etcd_keeps ec" and "json_keeps js (stamped t s0)"
    and took: "etcd_Register ec js t t' s0 (w, r) = ((None, s), w', r')"
    and name: "svc_name s0 = n @ rest"
  shows "\<exists>svcs r''. etcd_GetService ec js n (w', r') = (Inr svcs, r'') \<and> stamped t s0 \<in> set svcs"
proof -
  note ok = etcd_Register_ok [OF took]
  define key where "key = etcd_serviceKey r (svc_name s0) (svc_id s0)"
  from ok(3) obtain lease w1 w2 where
    p: "ec_put ec key (sj_marshal js (stamped t s0)) lease w1 = (None, w2)" "ec_keepalive ec lease w2 = (None, w')"
      "rr_client r'" "et_prefix r' = et_prefix r"
    unfolding ok(2) key_def [symmetric] using ok(1)
    by (auto simp: remote_cache_put_def remote_notify_def)
  have "key = (et_prefix r @ ''/'' @ n) @ (rest @ ''/'' @ svc_id s0)" by (simp add: key_def etcd_serviceKey_def name)
  with assms(1) p(1,2) obtain kvs where kvs: "ec_get ec (et_prefix r @ ''/'' @ n) w' = Inr kvs"
      "(key, sj_marshal js (stamped t s0)) \<in> set kvs"
    unfolding etcd_keeps_def by blast
  have "stamped t s0 \<in> set (decode_services js kvs)"
    unfolding decode_services_def set_map
    by (rule rev_image_eqI [of "(key, sj_marshal js (stamped t s0))"]) (use kvs(2) assms(2) in \<open>simp_all add: json_keeps_def\<close>)
  moreover have "kvs \<noteq> []" using kvs(2) by auto
  ultimately show ?thesis using p(3,4) kvs(1) by (auto simp: etcd_GetService_def Let_def)
qed

text \<open>A store in memory: the next lease, the keys in order, and their values and leases.\<close>

type_synonym memory_store = "int \<times> string list \<times> (string \<Rightarrow> (string \<times> int) option)"

definition drop_lease :: "int \<Rightarrow> (string \<Rightarrow> (string \<times> int) option) \<Rightarrow> string \<Rightarrow> (string \<times> int) option" where
  "drop_lease l m k = (case m k of None \<Rightarrow> None | Some (v, l') \<Rightarrow> if l' = l then None else Some (v, l'))"

definition etcd_store :: "memory_store etcd_client" where
  "etcd_store =
     \<lparr>ec_new = (\<lambda>_ _. None), ec_grant = (\<lambda>_ (n, kvs). (Inr n, (n + 1, kvs))),
      ec_put = (\<lambda>k v l (n, ks, m). (None, (n, k # removeAll k ks, m(k \<mapsto> (v, l))))),
      ec_keepalive = (\<lambda>_ w. (None, w)),
      ec_revoke = (\<lambda>l (n, ks, m). (None, n, ks, drop_lease l m)),
      ec_delete = (\<lambda>k (n, ks, m). (None, (n, ks, m(k := None)))),
      ec_get = (\<lambda>p (n, ks, m). Inr (map (\<lambda>(k, v, _). (k, v)) (filter (\<lambda>(k, _). has_prefix p k) (range_over ks m)))),
      ec_close = (\<lambda>w. (None, w))\<rparr>"

definition etcd_connected :: etcd where
  "etcd_connected = (newEtcdRegistry [])\<lparr>rr_client := True, rr_running := True\<rparr>"

definition admin_service :: service where
  "admin_service = stamped 5 (demo_service ''user-admin'' ''1'' 0)"

text \<open>A codec that knows one service.\<close>

definition admin_json :: service_json where
  "admin_json = \<lparr>sj_marshal = (\<lambda>s. if s = admin_service then ''admin'' else ''''),
     sj_unmarshal = (\<lambda>v. if v = ''admin'' then (None, admin_service) else (Some (Err ''unexpected end of JSON input''), demo_service '''' '''' 0))\<rparr>"

lemma etcd_store_keeps: "etcd_keeps etcd_store"
proof -
  have "\<exists>kvs. ec_get etcd_store p w2 = Inr kvs \<and> (p @ q, v) \<in> set kvs"
    if "ec_put etcd_store (p @ q) v l w = (None, w1)" "ec_keepalive etcd_store l w1 = (None, w2)" for p q v l w w1 w2
    using that by (cases w) (force simp: etcd_store_def)
  then show ?thesis by (auto simp: etcd_keeps_def)
qed

theorem etcd_register_get_witness:
  "\<exists>svcs r''. etcd_GetService etcd_store admin_json ''user''
       (snd (etcd_Register etcd_store admin_json 5 6 (demo_service ''user-admin'' ''1'' 0) ((1, [], \<lambda>_. None), etcd_connected))) = (Inr svcs, r'') \<and>
     stamped 5 (demo_service ''user-admin'' ''1'' 0) \<in> set svcs"
proof -
  have json: "json_keeps admin_json (stamped 5 (demo_service ''user-admin'' ''1'' 0))"
    by (simp add: json_keeps_def admin_json_def admin_service_def)
  have client: "rr_client etcd_connected" by (simp add: etcd_connected_def)
  obtain w' r' where took: "etcd_Register etcd_store admin_json 5 6 (demo_service ''user-admin'' ''1'' 0) ((1, [], \<lambda>_. None), etcd_connected) =
      ((None, stamped 5 (demo_service ''user-admin'' ''1'' 0)), w', r')"
    using client by (simp add: etcd_Register_def etcd_store_def Let_def)
  show ?thesis unfolding took snd_conv
    by (rule etcd_register_get [OF etcd_store_keeps json took, of "''user''" "''-admin''"]) (simp add: demo_service_def)
qed







section \<open>Sequences of operations\<close>

datatype etcd_op =
    EtInit "reg_option list" | EtConnect | EtRegister time time service | EtDeregister time service | EtGetService string
  | EtWatch | EtWatchStart nat time | EtWatchEvent nat time etcd_event | EtWatchEnd nat | EtKeeper nat keepalive
  | EtNext nat nat | EtStop nat | EtClose "string list"

text \<open>A call that panics leaves the state as it is.\<close>

fun etcd_exec :: "'w etcd_client \<Rightarrow> service_json \<Rightarrow> etcd_op \<Rightarrow> 'w \<times> etcd \<Rightarrow> 'w \<times> etcd" where
  "etcd_exec ec js (EtInit os) (w, r) = (w, remote_Init os r)"
| "etcd_exec ec js EtConnect (w, r) = (w, snd (etcd_Connect ec w r))"
| "etcd_exec ec js (EtRegister t t' s) wr = snd (etcd_Register ec js t t' s wr)"
| "etcd_exec ec js (EtDeregister t s) wr = snd (etcd_Deregister ec t s wr)"
| "etcd_exec ec js (EtGetService n) (w, r) = (w, snd (etcd_GetService ec js n (w, r)))"
| "etcd_exec ec js EtWatch (w, r) = (w, snd (etcd_Watch r))"
| "etcd_exec ec js (EtWatchStart i t) (w, r) = (w, fst (etcd_watch_start ec js i t (w, r)))"
| "etcd_exec ec js (EtWatchEvent i t ee) (w, r) = (w, fst (etcd_watch_event js i t ee r))"
| "etcd_exec ec js (EtWatchEnd i) (w, r) = (w, etcd_watch_end i r)"
| "etcd_exec ec js (EtKeeper k ka) (w, r) = (w, etcd_keeper k ka r)"
| "etcd_exec ec js (EtNext i k) (w, r) =
     (let rs = remote_Next i r in if k < length rs then (w, snd (rs ! k)) else (w, r))"
| "etcd_exec ec js (EtStop i) (w, r) = (w, remote_Stop i r)"
| "etcd_exec ec js (EtClose ks) wr = (case etcd_Close ec ks wr of Ret (_, wr') \<Rightarrow> wr' | Panicked _ \<Rightarrow> wr)"

text \<open>A watcher whose goroutine has ended and that has left the map, with nothing to receive: nobody but its own \<open>Stop\<close> wakes it.\<close>

definition forgotten :: "nat \<Rightarrow> etcd \<Rightarrow> bool" where
  "forgotten i r \<longleftrightarrow> i \<notin> rr_watchers r \<and> i \<notin> et_watching r \<and> i \<le> rr_nextID r \<and>
     (\<exists>nw. rr_heap r i = Some nw \<and> chan_buf (rw_events nw) = [] \<and> \<not> rw_done nw)"

lemma forgotten_waits: "forgotten i r \<Longrightarrow> remote_Next i r = []"
  by (auto simp: forgotten_def remote_Next_waits)

lemma forgotten_same:
  "forgotten i r \<Longrightarrow> rr_heap r' i = rr_heap r i \<Longrightarrow> rr_watchers r' \<subseteq> rr_watchers r \<Longrightarrow> et_watching r' \<subseteq> et_watching r \<Longrightarrow>
     rr_nextID r' = rr_nextID r \<Longrightarrow> forgotten i r'"
  by (auto simp: forgotten_def)

lemma forgotten_cache:
  "forgotten i r \<Longrightarrow> forgotten i (remote_cache_put t s r)" "forgotten i r \<Longrightarrow> forgotten i (remote_cache_remove t s r)"
proof -
  assume f: "forgotten i r"
  then have out: "i \<notin> rr_watchers r" by (simp add: forgotten_def)
  have same: "et_watching (remote_cache_put t s r) = et_watching r" "et_watching (remote_cache_remove t s r) = et_watching r"
    "rr_nextID (remote_cache_put t s r) = rr_nextID r" "rr_nextID (remote_cache_remove t s r) = rr_nextID r"
    by (simp_all add: remote_cache_put_def remote_cache_remove_def remote_notify_def)
  show "forgotten i (remote_cache_put t s r)" "forgotten i (remote_cache_remove t s r)"
    by (rule forgotten_same [OF f]; simp add: same out)+
qed

lemma forgotten_fields [simp]:
  "forgotten i (r\<lparr>et_registered := x\<rparr>) = forgotten i r" "forgotten i (r\<lparr>et_keepers := y\<rparr>) = forgotten i r"
  "forgotten i (r\<lparr>rr_services := c\<rparr>) = forgotten i r" "forgotten i (r\<lparr>rr_opts := oo\<rparr>) = forgotten i r"
  "forgotten i (r\<lparr>rr_client := b\<rparr>) = forgotten i r" "forgotten i (r\<lparr>rr_running := b\<rparr>) = forgotten i r"
  "forgotten i (r\<lparr>et_stopped := b\<rparr>) = forgotten i r"
  by (simp_all add: forgotten_def)

lemma forgotten_Register: "forgotten i r \<Longrightarrow> forgotten i (snd (snd (etcd_Register ec js t t' s (w, r))))"
  by (auto simp: etcd_Register_def Let_def forgotten_cache split: prod.splits sum.splits option.splits)

lemma forgotten_Deregister: "forgotten i r \<Longrightarrow> forgotten i (snd (snd (etcd_Deregister ec t s (w, r))))"
  by (auto simp: etcd_Deregister_def Let_def forgotten_cache split: prod.splits option.splits)

lemma forgotten_Watch: "forgotten i r \<Longrightarrow> forgotten i (snd (etcd_Watch r))"
  by (auto simp: etcd_Watch_def remote_allocate_def forgotten_def Let_def)

lemma forgotten_push: "forgotten i r \<Longrightarrow> i \<noteq> j \<Longrightarrow> forgotten i (remote_push j ev r)"
  by (erule forgotten_same) (simp_all add: remote_push_def)

lemma forgotten_other: "forgotten i r \<Longrightarrow> i \<noteq> j \<Longrightarrow> forgotten i (remote_Stop j r)"
  by (erule forgotten_same) (auto simp: remote_Stop_def remote_done_def)

lemma forgotten_Next:
  assumes "forgotten i r" and "(a, r') \<in> set (remote_Next j r)"
  shows "forgotten i r'"
proof (cases "i = j")
  case True
  with assms forgotten_waits [OF assms(1)] show ?thesis by simp
next
  case False
  with assms(2) have "rr_heap r' i = rr_heap r i \<and> rr_watchers r' = rr_watchers r \<and> et_watching r' = et_watching r \<and>
      rr_nextID r' = rr_nextID r"
    by (auto simp: remote_Next_def split: option.splits if_splits)
  with assms(1) show ?thesis by (auto simp: forgotten_def)
qed

lemma forgotten_Close: "forgotten i r \<Longrightarrow> etcd_Close ec ks (w, r) = Ret (e, w', r') \<Longrightarrow> forgotten i r'"
  by (auto simp: etcd_Close_cases Let_def forgotten_def split: if_splits prod.splits)

lemma forgotten_exec:
  assumes "forgotten i (snd wr)" and "a \<noteq> EtStop i"
  shows "forgotten i (snd (etcd_exec ec js a wr))"
proof (cases wr)
  fix w r assume wr: "wr = (w, r)"
  with assms(1) have f: "forgotten i r" by simp
  show "forgotten i (snd (etcd_exec ec js a wr))" unfolding wr
  proof (cases a)
    case (EtNext j k)
    show "forgotten i (snd (etcd_exec ec js a (w, r)))"
    proof (cases "k < length (remote_Next j r)")
      case True
      then have "(fst (remote_Next j r ! k), snd (remote_Next j r ! k)) \<in> set (remote_Next j r)" by simp
      from forgotten_Next [OF f this] EtNext True show ?thesis by (simp add: Let_def)
    qed (use f EtNext in \<open>simp add: Let_def\<close>)
  next
    case (EtClose ks)
    then show "forgotten i (snd (etcd_exec ec js a (w, r)))"
      using f forgotten_Close [OF f, of ec ks w] by (cases "etcd_Close ec ks (w, r)") auto
  next
    case (EtWatchEvent j t ee)
    with f show "forgotten i (snd (etcd_exec ec js a (w, r)))"
      using forgotten_push [OF f] by (cases "i = j") (auto simp: etcd_watch_event_def Let_def forgotten_def)
  next
    case (EtWatchStart j t)
    with f show "forgotten i (snd (etcd_exec ec js a (w, r)))"
      by (auto simp: etcd_watch_start_def Let_def forgotten_def split: sum.splits)
  next
    case (EtWatchEnd j)
    with f show "forgotten i (snd (etcd_exec ec js a (w, r)))" by (auto simp: etcd_watch_end_def forgotten_def)
  next
    case (EtKeeper j ka)
    with f show "forgotten i (snd (etcd_exec ec js a (w, r)))" by (auto simp: etcd_keeper_def split: keepalive.splits)
  next
    case (EtStop j)
    with f assms(2) show "forgotten i (snd (etcd_exec ec js a (w, r)))" by (auto simp: forgotten_other)
  next
    case (EtGetService n)
    with f show "forgotten i (snd (etcd_exec ec js a (w, r)))"
      by (auto simp: etcd_GetService_def Let_def split: sum.splits)
  qed (use f in \<open>auto simp: forgotten_Register forgotten_Deregister forgotten_Watch remote_Init_def etcd_Connect_def
      split: option.splits\<close>)
qed

text \<open>
  \<open>Close\<close> removes the watchers from the map and relies on \<open>stopCh\<close> to end them, but \<open>Next\<close> does not look
  at \<open>stopCh\<close>: a watcher that has nothing to receive when its goroutine has ended waits for good, whatever
  is done with the registry afterwards, unless the watcher itself is stopped.
\<close>

theorem etcd_Next_waits_after_close:
  assumes "etcd_Close ec ks (w, r) = Ret (e, w', r')" and "rr_running r" and "remote_ok r" and "i \<in> rr_watchers r"
    and "rr_heap r i = Some nw" and "chan_buf (rw_events nw) = []" and "\<not> rw_done nw" and "EtStop i \<notin> set as"
  shows "remote_Next i (snd (fold (etcd_exec ec js) as (w', etcd_watch_end i r'))) = []"
proof -
  have "i \<le> rr_nextID r" using assms(3,5) by (auto simp: remote_ok_def)
  then have start: "forgotten i (etcd_watch_end i r')"
    using assms(1,2,5-7) by (auto simp: etcd_Close_cases Let_def forgotten_def etcd_watch_end_def split: if_splits prod.splits)
  have "EtStop i \<notin> set as \<Longrightarrow> forgotten i (snd wr) \<Longrightarrow> forgotten i (snd (fold (etcd_exec ec js) as wr))" for as wr
  proof (induction as arbitrary: wr)
    case (Cons a as)
    then have "forgotten i (snd (etcd_exec ec js a wr))" by (intro forgotten_exec) auto
    with Cons show ?case by simp
  qed simp
  from forgotten_waits [OF this [of _ "(w', etcd_watch_end i r')", unfolded snd_conv, OF assms(8) start]] show ?thesis .
qed

theorem etcd_Next_waits_after_close_witness:
  "\<exists>e w' r'. etcd_Close etcd_store [] ((1, [], \<lambda>_. None), snd (etcd_Watch etcd_connected)) = Ret (e, w', r') \<and>
     remote_Next 1 (snd (fold (etcd_exec etcd_store admin_json) [EtRegister 5 6 admin_service, EtWatch, EtConnect] (w', etcd_watch_end 1 r'))) = []"
proof -
  define r where "r = snd (etcd_Watch etcd_connected)"
  have r: "rr_running r" "\<not> et_stopped r" "rr_watchers r = {1}" "rr_nextID r = 1"
      "rr_heap r = [1 \<mapsto> new_rwatcher (rr_opts etcd_connected)]"
    by (simp_all add: r_def etcd_Watch_def etcd_connected_def newEtcdRegistry_def remote_allocate_def Let_def)
  then have "remote_ok r" by (simp add: remote_ok_def)
  obtain e w' r' where c: "etcd_Close etcd_store [] ((1, [], \<lambda>_. None), r) = Ret (e, w', r')"
    using etcd_Close_returns [OF r(1,2), of etcd_store "[]" "(1, [], \<lambda>_. None)"] by blast
  have "remote_Next 1 (snd (fold (etcd_exec etcd_store admin_json) [EtRegister 5 6 admin_service, EtWatch, EtConnect]
      (w', etcd_watch_end 1 r'))) = []"
    by (rule etcd_Next_waits_after_close [OF c r(1) \<open>remote_ok r\<close>, of 1 "new_rwatcher (rr_opts etcd_connected)"])
      (simp_all add: r new_rwatcher_def)
  with c show ?thesis unfolding r_def by blast
qed

text \<open>
  A registry that is connected again after a close cannot be closed: \<open>stopCh\<close> is closed a second time.
\<close>

theorem etcd_close_connect_close_panics:
  assumes "rr_running r" and "\<not> et_stopped r" and "ec_new ec (etcd_config (rr_opts r)) w' = None"
    and "etcd_Close ec ks (w, r) = Ret (e, w', r')"
  shows "fst (etcd_Connect ec w' r') = None \<and>
     etcd_Close ec ks' (w', snd (etcd_Connect ec w' r')) = Panicked ''close of closed channel''"
  using assms by (auto simp: etcd_Close_cases etcd_Connect_def Let_def split: prod.splits)

theorem etcd_close_connect_close_panics_witness:
  "\<exists>e w' r'. etcd_Close etcd_store [] ((1, [], \<lambda>_. None), etcd_connected) = Ret (e, w', r') \<and>
     etcd_Close etcd_store [] (w', snd (etcd_Connect etcd_store w' r')) = Panicked ''close of closed channel''"
proof -
  have up: "rr_running etcd_connected" "\<not> et_stopped etcd_connected"
    by (simp_all add: etcd_connected_def newEtcdRegistry_def Let_def)
  obtain e w' r' where c: "etcd_Close etcd_store [] ((1, [], \<lambda>_. None), etcd_connected) = Ret (e, w', r')"
    using etcd_Close_returns [OF up, of etcd_store "[]" "(1, [], \<lambda>_. None)"] by blast
  have "ec_new etcd_store (etcd_config (rr_opts etcd_connected)) w' = None" by (simp add: etcd_store_def)
  from etcd_close_connect_close_panics [OF up this c] c show ?thesis by blast
qed

end
