(* ===== verification/Retry.thy ===== *)
theory Retry
  imports Prelude
begin

text \<open>
  The retry loop the HTTP and the gRPC client share: attempt \<open>i\<close> is preceded by a pause that depends
  on \<open>i\<close>, its answer either settles the call or asks for another attempt, and a call that has used
  up its attempts gives up with the last error.  The world is any state; the traced one records the
  pauses and the attempts.
\<close>

section \<open>The contract of a retry loop\<close>

locale retry_loop =
  fixes attempt :: "'w \<Rightarrow> 'a \<times> 'w"
    and pause :: "nat \<Rightarrow> 'w \<Rightarrow> 'w"
    and verdict :: "'a \<Rightarrow> 'r + 'e"  \<comment> \<open>settled, or an error to retry on\<close>
    and giveup :: "'e option \<Rightarrow> 'r"
    and loop :: "nat \<Rightarrow> nat \<Rightarrow> 'e option \<Rightarrow> 'w \<Rightarrow> 'r \<times> 'w"
  assumes loop_0: "loop 0 i lastErr w = (giveup lastErr, w)"
    and loop_Suc: "loop (Suc n) i lastErr w =
      (let (a, w') = attempt (if i > 0 then pause i w else w)
       in case verdict a of Inl r \<Rightarrow> (r, w') | Inr e \<Rightarrow> loop n (Suc i) (Some e) w')"
begin

text \<open>The answer to attempt \<open>i\<close> and the world it leaves.\<close>

definition one :: "nat \<Rightarrow> 'w \<Rightarrow> 'a \<times> 'w" where
  "one i w = attempt (if i > 0 then pause i w else w)"

text \<open>The answers to \<open>k\<close> attempts in a row from attempt \<open>i\<close> on.\<close>

fun answers :: "nat \<Rightarrow> nat \<Rightarrow> 'w \<Rightarrow> 'a list \<times> 'w" where
  "answers 0 i w = ([], w)"
| "answers (Suc k) i w =
     (let (a, w') = one i w; (as, w'') = answers k (Suc i) w' in (a # as, w''))"

definition retryable :: "'a \<Rightarrow> bool" where
  "retryable a \<longleftrightarrow> (\<exists>e. verdict a = Inr e)"

lemma length_answers: "length (fst (answers k i w)) = k"
  by (induction k arbitrary: i w) (auto split: prod.splits simp: prod_eq_iff)

text \<open>
  The loop makes some number \<open>k\<close> of attempts, at most \<open>n\<close>: all but the last ask to be retried; the
  last settles the call, or the attempts are used up.
\<close>

lemma loop_outcome:
  "\<exists>k as w' r. k \<le> n \<and> answers k i w = (as, w') \<and> loop n i lastErr w = (r, w') \<and>
     list_all retryable (butlast as) \<and>
     ((as \<noteq> [] \<and> verdict (last as) = Inl r) \<or>
      (k = n \<and> list_all retryable as \<and>
       r = giveup (if as = [] then lastErr else Some (projr (verdict (last as))))))"
proof (induction n arbitrary: i lastErr w)
  case 0
  then show ?case by (simp add: loop_0)
next
  case (Suc n)
  obtain a w1 where a: "one i w = (a, w1)" by fastforce
  show ?case
  proof (cases "verdict a")
    case (Inl r)
    have "answers 1 i w = ([a], w1)" using a by simp
    moreover have "loop (Suc n) i lastErr w = (r, w1)" using a Inl by (simp add: loop_Suc one_def)
    ultimately show ?thesis using Inl by (intro exI [of _ 1] exI [of _ "[a]"] exI [of _ w1] exI [of _ r]) simp
  next
    case (Inr e)
    from Suc.IH [of "Suc i" w1 "Some e"] obtain k as w' r where
      k: "k \<le> n" "answers k (Suc i) w1 = (as, w')" "loop n (Suc i) (Some e) w1 = (r, w')"
        "list_all retryable (butlast as)"
      and r: "(as \<noteq> [] \<and> verdict (last as) = Inl r) \<or>
        (k = n \<and> list_all retryable as \<and> r = giveup (if as = [] then Some e else Some (projr (verdict (last as)))))"
      by blast
    have "answers (Suc k) i w = (a # as, w')" using a k(2) by simp
    moreover have "loop (Suc n) i lastErr w = (r, w')" using a Inr k(3) by (simp add: loop_Suc one_def)
    moreover have "retryable a" using Inr by (simp add: retryable_def)
    ultimately show ?thesis using k(1,4) r Inr
      by (intro exI [of _ "Suc k"] exI [of _ "a # as"] exI [of _ w'] exI [of _ r]) auto
  qed
qed

end

section \<open>A world that records what the loop does\<close>

datatype retry_event = Attempted | Slept duration

type_synonym 's traced = "'s \<times> retry_event list"

definition traced_attempt :: "('s \<Rightarrow> 'a \<times> 's) \<Rightarrow> 's traced \<Rightarrow> 'a \<times> 's traced" where
  "traced_attempt f w = (let (a, s) = f (fst w) in (a, (s, snd w @ [Attempted])))"

definition traced_sleep :: "duration \<Rightarrow> 's traced \<Rightarrow> 's traced" where
  "traced_sleep d w = (fst w, snd w @ [Slept d])"

text \<open>The answers \<open>f\<close> gives to \<open>k\<close> attempts in a row.\<close>

fun asked :: "('s \<Rightarrow> 'a \<times> 's) \<Rightarrow> nat \<Rightarrow> 's \<Rightarrow> 'a list" where
  "asked f 0 s = []"
| "asked f (Suc k) s = (let (a, s') = f s in a # asked f k s')"

text \<open>The record of \<open>k\<close> attempts with linear back-off, from attempt \<open>i\<close> on.\<close>

fun backoff_log :: "duration \<Rightarrow> nat \<Rightarrow> nat \<Rightarrow> retry_event list" where
  "backoff_log d i 0 = []"
| "backoff_log d i (Suc k) = (if i > 0 then [Slept (d * int i)] else []) @ Attempted # backoff_log d (Suc i) k"

fun total_sleep :: "retry_event list \<Rightarrow> duration" where
  "total_sleep [] = 0"
| "total_sleep (Attempted # es) = total_sleep es"
| "total_sleep (Slept d # es) = d + total_sleep es"

lemma total_sleep_append [simp]: "total_sleep (es @ fs) = total_sleep es + total_sleep fs"
  by (induction es rule: total_sleep.induct) simp_all

lemma count_backoff: "length (filter (\<lambda>e. e = Attempted) (backoff_log d i k)) = k"
  by (induction k arbitrary: i) simp_all

lemma sleep_backoff: "2 * total_sleep (backoff_log d i k) = d * int k * (2 * int i + int k - 1)"
proof (induction k arbitrary: i)
  case (Suc k)
  from Suc [of "Suc i"] show ?case by (auto simp: algebra_simps)
qed simp

lemma length_asked [simp]: "length (asked f k s) = k"
  by (induction k arbitrary: s) (simp_all add: case_prod_beta)

text \<open>Linear back-off over a traced world: an instance of the contract whose log is known.\<close>

locale traced_retry =
  retry_loop "traced_attempt f" "\<lambda>i. traced_sleep (d * int i)" verdict giveup loop
  for f :: "'s \<Rightarrow> 'a \<times> 's" and d :: duration and verdict :: "'a \<Rightarrow> 'r + 'e"
    and giveup :: "'e option \<Rightarrow> 'r" and loop :: "nat \<Rightarrow> nat \<Rightarrow> 'e option \<Rightarrow> 's traced \<Rightarrow> 'r \<times> 's traced"
begin

lemma answers_log: "snd (snd (answers k i w)) = snd w @ backoff_log d i k"
  by (induction k arbitrary: i w)
    (auto simp: one_def traced_attempt_def traced_sleep_def Let_def case_prod_beta)

lemma answers_asked: "fst (answers k i w) = asked f k (fst w)"
  by (induction k arbitrary: i w)
    (auto simp: one_def traced_attempt_def traced_sleep_def Let_def case_prod_beta)

lemma traced_outcome:
  "\<exists>k r s'. k \<le> n \<and> loop n 0 None (s, []) = (r, (s', backoff_log d 0 k)) \<and>
     list_all retryable (butlast (asked f k s)) \<and>
     ((k > 0 \<and> verdict (last (asked f k s)) = Inl r) \<or>
      (k = n \<and> list_all retryable (asked f k s) \<and>
       r = giveup (if n = 0 then None else Some (projr (verdict (last (asked f k s)))))))"
proof -
  obtain k as w' r where k: "k \<le> n" "answers k 0 (s, []) = (as, w')" "loop n 0 None (s, []) = (r, w')"
      "list_all retryable (butlast as)"
    and r: "(as \<noteq> [] \<and> verdict (last as) = Inl r) \<or>
      (k = n \<and> list_all retryable as \<and> r = giveup (if as = [] then None else Some (projr (verdict (last as)))))"
    using loop_outcome [of n 0 "(s, [])" None] by metis
  have as: "as = asked f k s" using answers_asked [of k 0 "(s, [])"] k(2) by simp
  have len: "(as = []) = (k = 0)" using length_answers [of k 0 "(s, [])"] k(2) by auto
  have "snd w' = backoff_log d 0 k" using answers_log [of k 0 "(s, [])"] k(2) by simp
  then have w': "w' = (fst w', backoff_log d 0 k)" by (simp add: prod_eq_iff)
  from k r len show ?thesis unfolding as
    by (intro exI [of _ k] exI [of _ r] exI [of _ "fst w'"]) (use w' in auto)
qed

text \<open>With at least one attempt allowed, the last answer decides.\<close>

lemma traced_last:
  "\<exists>k r s' as a. k < Suc m \<and> asked f (Suc k) s = as @ [a] \<and>
     loop (Suc m) 0 None (s, []) = (r, (s', backoff_log d 0 (Suc k))) \<and> list_all retryable as \<and>
     (if retryable a then k = m \<and> r = giveup (Some (projr (verdict a))) else verdict a = Inl r)"
proof -
  from traced_outcome [of "Suc m" s] obtain k r s' where
    k: "k \<le> Suc m" "loop (Suc m) 0 None (s, []) = (r, (s', backoff_log d 0 k))"
      "list_all retryable (butlast (asked f k s))"
    and r: "(k > 0 \<and> verdict (last (asked f k s)) = Inl r) \<or>
      (k = Suc m \<and> list_all retryable (asked f k s) \<and> r = giveup (Some (projr (verdict (last (asked f k s))))))"
    by (simp only: nat.distinct if_False) blast
  from r obtain k' where k': "k = Suc k'" by (cases k) auto
  define a where "a = last (asked f k s)"
  have "asked f k s \<noteq> []" using length_asked [of f k s] k' by (metis list.size(3) nat.distinct(1))
  then have as: "asked f k s = butlast (asked f k s) @ [a]" unfolding a_def by simp
  have "if retryable a then k' = m \<and> r = giveup (Some (projr (verdict a))) else verdict a = Inl r"
  proof (cases "retryable a")
    case True
    then have "verdict a \<noteq> Inl r" by (auto simp: retryable_def)
    then show ?thesis using r [folded a_def] k' True by auto
  next
    case False
    then have "\<not> list_all retryable (asked f k s)" using as by (metis list.pred_inject(2) list_all_append)
    then show ?thesis using r False unfolding a_def by auto
  qed
  with k as show ?thesis unfolding k'
    by (intro exI [of _ k'] exI [of _ r] exI [of _ s'] exI [of _ "butlast (asked f k s)"] exI [of _ a])
      (simp add: k' del: asked.simps backoff_log.simps)
qed

end

end
