(* ===== verification/GrpcClient.thy ===== *)
theory GrpcClient
  imports Retry GrpcTypes GoStrings
begin

text \<open>
  The gRPC client (\<open>client/grpc\<close>): its options, the dial options built from them, \<open>Call\<close>, and the
  life of its connection (\<open>NewClient\<close>, \<open>Close\<close>, \<open>Reconnect\<close> and the connection monitor) under every
  interleaving.  The dialer, the key files and the generated stubs are arguments.
\<close>

section \<open>Options\<close>

text \<open>\<open>'o\<close>: a dial option of the library, \<open>'u\<close>, \<open>'s\<close>: an interceptor.\<close>

record ('o, 'u, 's) gc_options =
  gc_Address :: string
  gc_DialTimeout :: duration
  gc_CallTimeout :: duration
  gc_PoolSize :: int
  gc_MaxRetries :: int
  gc_RetryDelay :: duration
  gc_AutoReconnect :: bool
  gc_ReconnectInterval :: duration
  gc_DialOptions :: "'o list"
  gc_UnaryInterceptors :: "'u list"
  gc_StreamInterceptors :: "'s list"
  gc_Insecure :: bool
  gc_TLSCert :: string
  gc_TLSKey :: string
  gc_TLSCACert :: string

definition gc_DefaultOptions :: "('o, 'u, 's) gc_options" where
  "gc_DefaultOptions =
     \<lparr>gc_Address = ''localhost:9000'', gc_DialTimeout = second * 5, gc_CallTimeout = second * 30, gc_PoolSize = 1,
      gc_MaxRetries = 3, gc_RetryDelay = millisecond * 100, gc_AutoReconnect = True, gc_ReconnectInterval = second * 5,
      gc_DialOptions = [], gc_UnaryInterceptors = [], gc_StreamInterceptors = [], gc_Insecure = True,
      gc_TLSCert = '''', gc_TLSKey = '''', gc_TLSCACert = ''''\<rparr>"

datatype ('o, 'u, 's) gc_option =
    GcAddress string | GcDialTimeout duration | GcCallTimeout duration | GcPoolSize int | GcMaxRetries int
  | GcDialOptions "'o list" | GcUnaryInterceptor 'u | GcStreamInterceptor 's | GcInsecure bool
  | GcTLS string string string | GcAutoReconnect bool | GcReconnectInterval duration

fun apply_gc_option :: "('o, 'u, 's) gc_option \<Rightarrow> ('o, 'u, 's) gc_options \<Rightarrow> ('o, 'u, 's) gc_options" where
  "apply_gc_option (GcAddress addr) oo = oo\<lparr>gc_Address := addr\<rparr>"
| "apply_gc_option (GcDialTimeout d) oo = oo\<lparr>gc_DialTimeout := d\<rparr>"
| "apply_gc_option (GcCallTimeout d) oo = oo\<lparr>gc_CallTimeout := d\<rparr>"
| "apply_gc_option (GcPoolSize n) oo = oo\<lparr>gc_PoolSize := n\<rparr>"
| "apply_gc_option (GcMaxRetries n) oo = oo\<lparr>gc_MaxRetries := n\<rparr>"
| "apply_gc_option (GcDialOptions os) oo = oo\<lparr>gc_DialOptions := gc_DialOptions oo @ os\<rparr>"
| "apply_gc_option (GcUnaryInterceptor i) oo = oo\<lparr>gc_UnaryInterceptors := gc_UnaryInterceptors oo @ [i]\<rparr>"
| "apply_gc_option (GcStreamInterceptor i) oo = oo\<lparr>gc_StreamInterceptors := gc_StreamInterceptors oo @ [i]\<rparr>"
| "apply_gc_option (GcInsecure b) oo = oo\<lparr>gc_Insecure := b\<rparr>"
| "apply_gc_option (GcTLS cert key ca) oo =
     oo\<lparr>gc_TLSCert := cert, gc_TLSKey := key, gc_TLSCACert := ca, gc_Insecure := False\<rparr>"
| "apply_gc_option (GcAutoReconnect b) oo = oo\<lparr>gc_AutoReconnect := b\<rparr>"
| "apply_gc_option (GcReconnectInterval d) oo = oo\<lparr>gc_ReconnectInterval := d\<rparr>"

section \<open>Dial options\<close>

text \<open>
  The files: \<open>kf_read\<close> is \<open>os.ReadFile\<close>, \<open>kf_pem\<close> says whether a certificate pool accepts the
  contents, \<open>kf_pair\<close> is \<open>tls.LoadX509KeyPair\<close>.
\<close>

record key_files =
  kf_read :: "string \<Rightarrow> string result"
  kf_pem :: "string \<Rightarrow> bool"
  kf_pair :: "string \<Rightarrow> string \<Rightarrow> go_error option"

datatype dial_creds = InsecureCreds | TLSCreds string "(string \<times> string) option"
  \<comment> \<open>the CA certificate, the client's certificate and key\<close>

datatype ('o, 'u, 's) dial_option =
  DialCreds dial_creds | DialUnary "'u list" | DialStream "'s list" | DialCustom 'o

definition gc_loadTLSCredentials :: "key_files \<Rightarrow> ('o, 'u, 's) gc_options \<Rightarrow> dial_creds result" where
  "gc_loadTLSCredentials kf oo =
     (case kf_read kf (gc_TLSCACert oo) of
        Inl err \<Rightarrow> Inl (Wrap ''failed to read CA cert'' err)
      | Inr caCert \<Rightarrow>
          if \<not> kf_pem kf caCert then Inl (Err ''failed to append CA cert'')
          else if gc_TLSCert oo \<noteq> '''' \<and> gc_TLSKey oo \<noteq> ''''
          then (case kf_pair kf (gc_TLSCert oo) (gc_TLSKey oo) of
                  Some err \<Rightarrow> Inl (Wrap ''failed to load client cert'' err)
                | None \<Rightarrow> Inr (TLSCreds caCert (Some (gc_TLSCert oo, gc_TLSKey oo))))
          else Inr (TLSCreds caCert None))"

definition gc_buildDialOptions :: "key_files \<Rightarrow> ('o, 'u, 's) gc_options \<Rightarrow> ('o, 'u, 's) dial_option list" where
  "gc_buildDialOptions kf oo =
     (let creds = (if gc_Insecure oo then InsecureCreds
                   else if gc_TLSCACert oo \<noteq> ''''
                   then (case gc_loadTLSCredentials kf oo of Inl err \<Rightarrow> InsecureCreds | Inr cr \<Rightarrow> cr)
                   else InsecureCreds)
      in [DialCreds creds]
         @ (if gc_UnaryInterceptors oo \<noteq> [] then [DialUnary (gc_UnaryInterceptors oo)] else [])
         @ (if gc_StreamInterceptors oo \<noteq> [] then [DialStream (gc_StreamInterceptors oo)] else [])
         @ map DialCustom (gc_DialOptions oo))"

section \<open>Calls\<close>

text \<open>\<open>conn\<close> reads the client's connection, which a reconnect may replace between two attempts.\<close>

fun gc_loop ::
    "('s \<Rightarrow> 'r result \<times> 's) \<Rightarrow> duration \<Rightarrow> (go_error option \<Rightarrow> 'r result) \<Rightarrow> nat \<Rightarrow> nat \<Rightarrow> go_error option \<Rightarrow>
     's traced \<Rightarrow> 'r result \<times> 's traced" where
  "gc_loop f d giveup 0 i lastErr w = (giveup lastErr, w)"
| "gc_loop f d giveup (Suc n) i lastErr w =
     (case traced_attempt f (if i > 0 then traced_sleep (d * int i) w else w) of
        (Inr resp, w') \<Rightarrow> (Inr resp, w')
      | (Inl err, w') \<Rightarrow> gc_loop f d giveup n (Suc i) (Some err) w')"

definition gc_gaveup :: "string \<Rightarrow> int \<Rightarrow> go_error option \<Rightarrow> 'r result" where
  "gc_gaveup method retries lastErr =
     (let msg = ''call '' @ method @ '' failed after '' @ itoa retries @ '' retries''
      in Inl (case lastErr of Some err \<Rightarrow> Wrap msg err | None \<Rightarrow> Err (msg @ '': %!w(<nil>)'')))"

definition gc_Call ::
    "('o, 'u, 'i) gc_options \<Rightarrow> ('s \<Rightarrow> nat option) \<Rightarrow> string \<Rightarrow> 'req \<Rightarrow>
     (duration \<Rightarrow> nat option \<Rightarrow> 'req \<Rightarrow> 's \<Rightarrow> 'r result \<times> 's) \<Rightarrow> 's traced \<Rightarrow> 'r result \<times> 's traced" where
  "gc_Call oo conn method req invoker w =
     gc_loop (\<lambda>s. invoker (gc_CallTimeout oo) (conn s) req s) (gc_RetryDelay oo) (gc_gaveup method (gc_MaxRetries oo))
       (nat (gc_MaxRetries oo + 1)) 0 None w"

fun gc_verdict :: "'r result \<Rightarrow> 'r result + go_error" where
  "gc_verdict (Inr resp) = Inl (Inr resp)"
| "gc_verdict (Inl err) = Inr err"

interpretation gc: traced_retry f d gc_verdict giveup "gc_loop f d giveup" for f d giveup
  by unfold_locales (auto simp: traced_attempt_def Let_def split: prod.splits sum.splits)

lemma gc_retryable: "gc.retryable = isl"
proof
  show "gc.retryable (a :: 'r result) = isl a" for a
    by (cases a) (simp_all add: gc.retryable_def)
qed

section \<open>The connection\<close>

text \<open>Where a call of \<open>Close\<close> or of \<open>Reconnect\<close> is.\<close>

datatype gc_pc =
    CloseFlag | CloseSelect | CloseChan | CloseConn
  | RecLoad | RecSwap | RecDrop | RecDial | RecReset

record gc_sys =
  gy_conn :: "nat option"
  gy_live :: "nat set"  \<comment> \<open>connections dialled and not closed\<close>
  gy_next :: nat
  gy_closed :: bool
  gy_reconnecting :: bool
  gy_stop :: bool  \<comment> \<open>\<open>stopCh\<close> is closed\<close>
  gy_panicked :: bool
  gy_calls :: "gc_pc list"

text \<open>\<open>connect\<close>, under the lock; \<open>up\<close>: the dial succeeds.\<close>

definition gc_connect :: "bool \<Rightarrow> gc_sys \<Rightarrow> gc_sys" where
  "gc_connect up s =
     (if up then s\<lparr>gy_conn := Some (gy_next s), gy_next := gy_next s + 1, gy_live := insert (gy_next s) (gy_live s)\<rparr>
      else s)"

definition gc_empty :: gc_sys where
  "gc_empty = \<lparr>gy_conn = None, gy_live = {}, gy_next = 0, gy_closed = False, gy_reconnecting = False,
     gy_stop = False, gy_panicked = False, gy_calls = []\<rparr>"

text \<open>\<open>NewClient\<close>: no client when the dial fails.\<close>

definition gc_NewClient :: "bool \<Rightarrow> gc_sys option" where
  "gc_NewClient up = (if up then Some (gc_connect True gc_empty) else None)"

fun gc_act :: "bool \<Rightarrow> gc_pc \<Rightarrow> gc_sys \<Rightarrow> gc_pc option \<times> gc_sys" where
  "gc_act up CloseFlag s = (Some CloseSelect, s\<lparr>gy_closed := True\<rparr>)"
| "gc_act up CloseSelect s = (Some (if gy_stop s then CloseConn else CloseChan), s)"
| "gc_act up CloseChan s =
     (if gy_stop s then (None, s\<lparr>gy_panicked := True\<rparr>) else (Some CloseConn, s\<lparr>gy_stop := True\<rparr>))"
| "gc_act up CloseConn s = (None, s\<lparr>gy_live := gy_live s - set_option (gy_conn s)\<rparr>)"
| "gc_act up RecLoad s = (if gy_closed s then (None, s) else (Some RecSwap, s))"
| "gc_act up RecSwap s =
     (if gy_reconnecting s then (None, s) else (Some RecDrop, s\<lparr>gy_reconnecting := True\<rparr>))"
| "gc_act up RecDrop s = (Some RecDial, s\<lparr>gy_live := gy_live s - set_option (gy_conn s), gy_conn := None\<rparr>)"
| "gc_act up RecDial s = (Some RecReset, gc_connect up s)"
| "gc_act up RecReset s = (None, s\<lparr>gy_reconnecting := False\<rparr>)"

inductive gc_step :: "gc_sys \<Rightarrow> gc_sys \<Rightarrow> bool" where
  gc_call_close: "gc_step s (s\<lparr>gy_calls := gy_calls s @ [CloseFlag]\<rparr>)"
| gc_call_reconnect: "gc_step s (s\<lparr>gy_calls := gy_calls s @ [RecLoad]\<rparr>)"
| gc_call_act: "gy_calls s = as @ pc # bs \<Longrightarrow> gc_act up pc s = (pc', s') \<Longrightarrow>
     gc_step s (s'\<lparr>gy_calls := as @ opt_list pc' @ bs\<rparr>)"

text \<open>One tick of the connection monitor: whether it returns, and whether it calls \<open>Reconnect\<close>.\<close>

datatype conn_state = ConnIdle | ConnConnecting | ConnReady | ConnTransientFailure | ConnShutdown

definition gc_monitor :: "(nat \<Rightarrow> conn_state) \<Rightarrow> gc_sys \<Rightarrow> bool \<times> bool" where
  "gc_monitor state s =
     (if gy_stop s \<or> gy_closed s then (True, False)
      else (case gy_conn s of
              None \<Rightarrow> (False, True)
            | Some c \<Rightarrow> (False, state c = ConnTransientFailure \<or> state c = ConnShutdown)))"

definition gc_IsConnected :: "(nat \<Rightarrow> conn_state) \<Rightarrow> gc_sys \<Rightarrow> bool" where
  "gc_IsConnected state s = (case gy_conn s of None \<Rightarrow> False | Some c \<Rightarrow> state c = ConnReady)"

section \<open>The invariant of the connection\<close>

text \<open>Calls of \<open>Reconnect\<close> that have taken the flag.\<close>

definition holds_flag :: "gc_pc \<Rightarrow> bool" where
  "holds_flag pc \<longleftrightarrow> pc \<in> {RecDrop, RecDial, RecReset}"

definition flag_ok :: "gc_sys \<Rightarrow> bool" where
  "flag_ok s \<longleftrightarrow> length (filter holds_flag (gy_calls s)) = (if gy_reconnecting s then 1 else 0)"

definition dial_ok :: "gc_sys \<Rightarrow> bool" where
  "dial_ok s \<longleftrightarrow> (RecDial \<in> set (gy_calls s) \<longrightarrow> gy_conn s = None)"

definition live_ok :: "gc_sys \<Rightarrow> bool" where
  "live_ok s \<longleftrightarrow> gy_live s \<subseteq> set_option (gy_conn s)"

definition gc_ok :: "gc_sys \<Rightarrow> bool" where
  "gc_ok s \<longleftrightarrow> flag_ok s \<and> dial_ok s \<and> live_ok s"

lemma gc_act_calls: "gc_act up pc s = (pc', s') \<Longrightarrow> gy_calls s' = gy_calls s"
  by (cases pc) (auto simp: gc_connect_def split: if_splits)

lemma dial_excludes:
  assumes "flag_ok s" and "gy_calls s = as @ pc # bs" and "holds_flag pc"
  shows "gy_reconnecting s" and "RecDial \<notin> set (as @ bs)"
proof -
  have "length (filter holds_flag (as @ bs)) = 0 \<and> gy_reconnecting s"
    using assms by (auto simp: flag_ok_def split: if_splits)
  then show "gy_reconnecting s" "RecDial \<notin> set (as @ bs)"
    by (auto simp: filter_empty_conv holds_flag_def)
qed

lemma gc_ok_act:
  assumes ok: "gc_ok s" and calls: "gy_calls s = as @ pc # bs" and act: "gc_act up pc s = (pc', s')"
  shows "gc_ok (s'\<lparr>gy_calls := as @ opt_list pc' @ bs\<rparr>)"
proof -
  have flag: "flag_ok s" and dial: "dial_ok s" and live: "live_ok s" using ok by (simp_all add: gc_ok_def)
  note excl = dial_excludes [OF flag calls]
  have "flag_ok (s'\<lparr>gy_calls := as @ opt_list pc' @ bs\<rparr>)"
    using flag calls act by (cases pc) (auto simp: flag_ok_def holds_flag_def gc_connect_def split: if_splits)
  moreover have "dial_ok (s'\<lparr>gy_calls := as @ opt_list pc' @ bs\<rparr>)"
    using dial calls act excl by (cases pc) (auto simp: dial_ok_def holds_flag_def gc_connect_def split: if_splits)
  moreover have "live_ok (s'\<lparr>gy_calls := as @ opt_list pc' @ bs\<rparr>)"
    using live dial calls act by (cases pc) (auto simp: live_ok_def dial_ok_def gc_connect_def split: if_splits)
  ultimately show ?thesis by (simp add: gc_ok_def)
qed

lemma gc_ok_step: "gc_step s s' \<Longrightarrow> gc_ok s \<Longrightarrow> gc_ok s'"
proof (induction rule: gc_step.induct)
  case (gc_call_act s as pc bs up pc' s')
  then show ?case using gc_ok_act by blast
qed (auto simp: gc_ok_def flag_ok_def dial_ok_def live_ok_def holds_flag_def)

lemma gc_ok_reachable: "gc_step\<^sup>*\<^sup>* s s' \<Longrightarrow> gc_ok s \<Longrightarrow> gc_ok s'"
  by (induction rule: rtranclp_induct) (auto intro: gc_ok_step)

lemma gc_ok_new: "gc_NewClient up = Some s \<Longrightarrow> gc_ok s"
  by (auto simp: gc_NewClient_def gc_connect_def gc_empty_def gc_ok_def flag_ok_def dial_ok_def live_ok_def split: if_splits)

section \<open>Schedules\<close>

text \<open>A schedule: the call at a position takes its next action; \<open>True\<close> where a dial succeeds.\<close>

fun gc_run :: "(nat \<times> bool) list \<Rightarrow> gc_sys \<Rightarrow> gc_sys" where
  "gc_run [] s = s"
| "gc_run ((i, up) # sched) s =
     (if i < length (gy_calls s)
      then (let (pc', s') = gc_act up (gy_calls s ! i) s
            in gc_run sched (s'\<lparr>gy_calls := take i (gy_calls s) @ opt_list pc' @ drop (Suc i) (gy_calls s)\<rparr>))
      else gc_run sched s)"

lemma gc_run_steps: "gc_step\<^sup>*\<^sup>* s (gc_run sched s)"
proof (induction sched s rule: gc_run.induct)
  case (2 i up sched s)
  show ?case
  proof (cases "i < length (gy_calls s)")
    case True
    obtain pc' s' where act: "gc_act up (gy_calls s ! i) s = (pc', s')" by fastforce
    have "gy_calls s = take i (gy_calls s) @ gy_calls s ! i # drop (Suc i) (gy_calls s)"
      using True by (simp add: id_take_nth_drop)
    from gc_call_act [OF this act] "2.IH"(1) [OF True act [symmetric] refl] True act show ?thesis
      by (simp add: converse_rtranclp_into_rtranclp)
  qed (use "2.IH"(2) in simp)
qed simp

lemma gc_two_calls:
  assumes "pc \<in> {CloseFlag, RecLoad}" and "pc' \<in> {CloseFlag, RecLoad}"
  shows "gc_step\<^sup>*\<^sup>* s (s\<lparr>gy_calls := gy_calls s @ [pc, pc']\<rparr>)"
proof -
  have one: "gc_step s (s\<lparr>gy_calls := gy_calls s @ [pc]\<rparr>)" if "pc \<in> {CloseFlag, RecLoad}" for s pc
    using that gc_call_close [of s] gc_call_reconnect [of s] by auto
  have "gc_step\<^sup>*\<^sup>* s (s\<lparr>gy_calls := gy_calls s @ [pc]\<rparr>)" using one [OF assms(1)] by blast
  also have "gc_step (s\<lparr>gy_calls := gy_calls s @ [pc]\<rparr>) (s\<lparr>gy_calls := gy_calls s @ [pc, pc']\<rparr>)"
    using one [OF assms(2), of "s\<lparr>gy_calls := gy_calls s @ [pc]\<rparr>"] by simp
  finally show ?thesis .
qed

section \<open>Properties\<close>

text \<open>
  C24: Whatever calls of \<open>Close\<close> and \<open>Reconnect\<close> (the monitor's too) run at once, a client never has more
  than one open connection, and it is the one the client holds: a reconnect closes the old connection
  before it dials, and two reconnects never run at the same time.
\<close>

theorem grpc_client_single_connection:
  assumes "gc_NewClient up = Some s" and "gc_step\<^sup>*\<^sup>* s s'"
  shows "gy_live s' \<subseteq> set_option (gy_conn s') \<and> length (filter holds_flag (gy_calls s')) \<le> 1"
proof -
  have "gc_ok s'" using gc_ok_reachable [OF assms(2)] gc_ok_new [OF assms(1)] by blast
  then show ?thesis by (simp add: gc_ok_def flag_ok_def live_ok_def)
qed

text \<open>One client, with its first connection.\<close>

definition dialled :: gc_sys where
  "dialled = gc_connect True gc_empty"

lemma dialled_new: "gc_NewClient True = Some dialled"
  by (simp add: gc_NewClient_def dialled_def)

theorem grpc_client_single_connection_witness:
  "gy_live (gc_run [(0, True), (0, True), (0, True), (0, True)] (dialled\<lparr>gy_calls := [RecLoad]\<rparr>)) \<subseteq> {1}"
proof -
  have "gc_step dialled (dialled\<lparr>gy_calls := [RecLoad]\<rparr>)"
    using gc_call_reconnect [of dialled] by (simp add: dialled_def gc_connect_def gc_empty_def)
  then have "gc_step\<^sup>*\<^sup>* dialled (gc_run [(0, True), (0, True), (0, True), (0, True)] (dialled\<lparr>gy_calls := [RecLoad]\<rparr>))"
    using gc_run_steps by (metis converse_rtranclp_into_rtranclp)
  from grpc_client_single_connection [OF dialled_new this] show ?thesis
    by (simp add: dialled_def gc_connect_def gc_empty_def)
qed

text \<open>
  A connection can outlive \<open>Close\<close>.  A reconnect that has passed its check of the closed flag dials
  after \<open>Close\<close> has closed the old connection: when both have returned, the client is closed and holds
  an open connection that nothing will close.
\<close>

theorem grpc_client_connection_outlives_close:
  "\<exists>s'. gc_step\<^sup>*\<^sup>* dialled s' \<and> gy_calls s' = [] \<and> gy_closed s' \<and> gy_stop s' \<and> gy_live s' \<noteq> {}"
proof -
  define s0 where "s0 = dialled\<lparr>gy_calls := [RecLoad, CloseFlag]\<rparr>"
  define s' where "s' = gc_run [(0, True), (0, True), (0, True), (1, True), (1, True), (1, True), (1, True), (0, True), (0, True)] s0"
  have "gc_step\<^sup>*\<^sup>* dialled s0" unfolding s0_def
    using gc_two_calls [of RecLoad CloseFlag dialled] by (simp add: dialled_def gc_connect_def gc_empty_def)
  then have "gc_step\<^sup>*\<^sup>* dialled s'" unfolding s'_def using gc_run_steps rtranclp_trans by metis
  moreover have "gy_calls s' = []" "gy_closed s'" "gy_stop s'" "gy_live s' \<noteq> {}"
    by (simp_all add: s'_def s0_def dialled_def gc_connect_def gc_empty_def)
  ultimately show ?thesis by blast
qed

text \<open>
  Two goroutines that close a client at the same time can both find \<open>stopCh\<close> open; the second then
  closes a closed channel, which panics.
\<close>

theorem grpc_client_double_close_panics:
  "\<exists>s'. gc_step\<^sup>*\<^sup>* dialled s' \<and> gy_panicked s'"
proof -
  define s0 where "s0 = dialled\<lparr>gy_calls := [CloseFlag, CloseFlag]\<rparr>"
  define s' where "s' = gc_run [(0, True), (0, True), (1, True), (1, True), (0, True), (1, True)] s0"
  have "gc_step\<^sup>*\<^sup>* dialled s0" unfolding s0_def
    using gc_two_calls [of CloseFlag CloseFlag dialled] by (simp add: dialled_def gc_connect_def gc_empty_def)
  then have "gc_step\<^sup>*\<^sup>* dialled s'" unfolding s'_def using gc_run_steps rtranclp_trans by metis
  moreover have "gy_panicked s'"
    by (simp add: s'_def s0_def dialled_def gc_connect_def gc_empty_def)
  ultimately show ?thesis by blast
qed

text \<open>
  A call makes between one and \<open>MaxRetries + 1\<close> attempts with a linear back-off; it stops at the first
  that succeeds and returns its response.  Every error is retried, also those that a retry cannot
  help, and each attempt is made on the connection the client holds at that time.
\<close>

theorem grpc_Call_outcome:
  assumes "gc_MaxRetries oo = int n"
  shows "\<exists>k r s' as a. k < n + 1 \<and>
     asked (\<lambda>s. invoker (gc_CallTimeout oo) (conn s) req s) (Suc k) s = as @ [a] \<and>
     gc_Call oo conn method req invoker (s, []) = (r, (s', backoff_log (gc_RetryDelay oo) 0 (Suc k))) \<and>
     list_all isl as \<and>
     (if isl a then k = n \<and> r = gc_gaveup method (int n) (Some (projl a)) else r = a)"
proof -
  define f where "f = (\<lambda>s. invoker (gc_CallTimeout oo) (conn s) req s)"
  obtain k r s' as a where
    k: "k < Suc n" "asked f (Suc k) s = as @ [a]" "list_all isl as"
      "gc_loop f (gc_RetryDelay oo) (gc_gaveup method (int n)) (Suc n) 0 None (s, []) =
         (r, (s', backoff_log (gc_RetryDelay oo) 0 (Suc k)))"
    and r: "if isl a then k = n \<and> r = gc_gaveup method (int n) (Some (projr (gc_verdict a))) else gc_verdict a = Inl r"
    using gc.traced_last [of n f s "gc_RetryDelay oo" "gc_gaveup method (int n)"] unfolding gc_retryable by blast
  have "if isl a then k = n \<and> r = gc_gaveup method (int n) (Some (projl a)) else r = a"
    using r by (cases a) auto
  moreover have "gc_Call oo conn method req invoker (s, []) = (r, (s', backoff_log (gc_RetryDelay oo) 0 (Suc k)))"
    using k(4) assms by (simp add: gc_Call_def f_def nat_add_distrib)
  ultimately show ?thesis using k(1-3) unfolding f_def
    by (intro exI [of _ k] exI [of _ r] exI [of _ s'] exI [of _ as] exI [of _ a]) simp
qed

definition refusing :: "duration \<Rightarrow> nat option \<Rightarrow> unit \<Rightarrow> unit \<Rightarrow> unit result \<times> unit" where
  "refusing timeout conn req s = (Inl (Err ''InvalidArgument''), s)"

theorem grpc_Call_outcome_witness:
  "\<exists>r. gc_Call (gc_DefaultOptions :: (unit, unit, unit) gc_options) (\<lambda>_. Some 0) ''/m'' () refusing ((), []) =
     (r, ((), backoff_log (millisecond * 100) 0 4)) \<and> isl r"
proof -
  have n: "gc_MaxRetries (gc_DefaultOptions :: (unit, unit, unit) gc_options) = int 3"
    and d: "gc_RetryDelay (gc_DefaultOptions :: (unit, unit, unit) gc_options) = millisecond * 100"
    by (simp_all add: gc_DefaultOptions_def)
  from grpc_Call_outcome [OF n, of refusing "\<lambda>_. Some 0" "()" "()" "''/m''"] obtain k r as a where
    k: "asked (\<lambda>s. refusing (gc_CallTimeout (gc_DefaultOptions :: (unit, unit, unit) gc_options)) (Some 0) () s) (Suc k) () = as @ [a]"
      "gc_Call (gc_DefaultOptions :: (unit, unit, unit) gc_options) (\<lambda>_. Some 0) ''/m'' () refusing ((), []) =
        (r, ((), backoff_log (millisecond * 100) 0 (Suc k)))"
    and r: "if isl a then k = 3 \<and> r = gc_gaveup ''/m'' (int 3) (Some (projl a)) else r = a"
    unfolding d by auto
  have "\<forall>x \<in> set (asked (\<lambda>s. refusing t (Some 0) () s) m ()). isl x" for t m
    by (induction m) (simp_all add: refusing_def)
  then have "isl a" using k(1) by (metis in_set_conv_decomp)
  with k(2) r show ?thesis by (auto simp: gc_gaveup_def Let_def)
qed

text \<open>
  Which connections are encrypted: exactly those of a client that is not set insecure, that names a CA
  certificate, and whose credentials load.  \<open>WithTLS\<close> without a CA certificate, and key files that do not
  load, give an unencrypted connection without an error.
\<close>

theorem grpc_client_encrypted_iff:
  "DialCreds InsecureCreds \<notin> set (gc_buildDialOptions kf oo) \<longleftrightarrow>
     \<not> gc_Insecure oo \<and> gc_TLSCACert oo \<noteq> '''' \<and> (\<exists>cr. gc_loadTLSCredentials kf oo = Inr cr)"
  by (auto simp: gc_buildDialOptions_def gc_loadTLSCredentials_def Let_def split: sum.splits if_splits option.splits)

end
