(* ===== verification/HttpClient.thy ===== *)
theory HttpClient
  imports Retry HttpRouter
begin

text \<open>
  The HTTP client (\<open>client/http\<close>).  \<open>http.NewRequest\<close>, the library's \<open>Do\<close> and the codec are
  arguments; the world of \<open>Do\<close> is the peer's state with the record of attempts and pauses.
\<close>

section \<open>Options\<close>

record 'u hc_options =
  hc_BaseURL :: string
  hc_Codec :: "'u codec"
  hc_ContentType :: string  \<comment> \<open>\<open>Codec.ContentType()\<close>\<close>
  hc_Timeout :: duration
  hc_MaxRetries :: int
  hc_RetryDelay :: duration
  hc_Headers :: "string \<Rightarrow> string option"

definition hc_DefaultOptions :: "'u codec \<Rightarrow> 'u hc_options" where
  "hc_DefaultOptions json =
     \<lparr>hc_BaseURL = ''http://localhost:8080'', hc_Codec = json, hc_ContentType = ''application/json'',
      hc_Timeout = second * 30, hc_MaxRetries = 3, hc_RetryDelay = millisecond * 100, hc_Headers = (\<lambda>_. None)\<rparr>"

datatype 'u hc_option =
    HcBaseURL string | HcCodec "'u codec" string | HcTimeout duration | HcMaxRetries int
  | HcRetryDelay duration | HcHeaders "string \<Rightarrow> string option"

fun apply_hc_option :: "'u hc_option \<Rightarrow> 'u hc_options \<Rightarrow> 'u hc_options" where
  "apply_hc_option (HcBaseURL url) oo = oo\<lparr>hc_BaseURL := url\<rparr>"
| "apply_hc_option (HcCodec c ct) oo = oo\<lparr>hc_Codec := c, hc_ContentType := ct\<rparr>"
| "apply_hc_option (HcTimeout d) oo = oo\<lparr>hc_Timeout := d\<rparr>"
| "apply_hc_option (HcMaxRetries n) oo = oo\<lparr>hc_MaxRetries := n\<rparr>"
| "apply_hc_option (HcRetryDelay d) oo = oo\<lparr>hc_RetryDelay := d\<rparr>"
| "apply_hc_option (HcHeaders h) oo = oo\<lparr>hc_Headers := hc_Headers oo ++ h\<rparr>"

definition hc_NewClient :: "'u codec \<Rightarrow> 'u hc_option list \<Rightarrow> 'u hc_options" where
  "hc_NewClient json os = fold apply_hc_option os (hc_DefaultOptions json)"

section \<open>One request\<close>

record client_request =
  cq_method :: string
  cq_url :: string
  cq_body :: "string option"
  cq_header :: "string \<Rightarrow> string option"  \<comment> \<open>by canonical key\<close>

record client_reply =
  cr_status :: int
  cr_body :: "string result"  \<comment> \<open>what reading all of the body gives\<close>

text \<open>
  The library: \<open>cl_new\<close> is the error of \<open>NewRequestWithContext\<close>, \<open>cl_send\<close> the client's \<open>Do\<close>.
\<close>

record 's client_lib =
  cl_new :: "string \<Rightarrow> string \<Rightarrow> go_error option"
  cl_send :: "client_request \<Rightarrow> 's \<Rightarrow> client_reply result \<times> 's"

type_synonym http_answer = "string \<times> int \<times> go_error option"

definition set_header :: "string \<times> string \<Rightarrow> (string \<Rightarrow> string option) \<Rightarrow> string \<Rightarrow> string option" where
  "set_header kv h = h(canonical_key (fst kv) \<mapsto> snd kv)"

definition status_failed :: "int \<Rightarrow> string \<Rightarrow> go_error" where
  "status_failed code data = Err (''request failed with status '' @ itoa code @ '': '' @ data)"

text \<open>\<open>ks\<close> is the order in which the range over the default headers meets the keys.\<close>

definition hc_doRequest ::
    "'s client_lib \<Rightarrow> string list \<Rightarrow> 'u hc_options \<Rightarrow> string \<Rightarrow> string \<Rightarrow> string option \<Rightarrow> 's \<Rightarrow> http_answer \<times> 's" where
  "hc_doRequest cl ks oo method url body s =
     (case cl_new cl method url of
        Some err \<Rightarrow> ((''''::string, 0, Some err), s)
      | None \<Rightarrow>
          (let h1 = set_header (''Content-Type'', hc_ContentType oo) (\<lambda>_. None);
               h2 = fold set_header (range_over ks (hc_Headers oo)) h1
           in case cl_send cl \<lparr>cq_method = method, cq_url = url, cq_body = body, cq_header = h2\<rparr> s of
                (Inl err, s') \<Rightarrow> (('''', 0, Some err), s')
              | (Inr resp, s') \<Rightarrow>
                  (case cr_body resp of
                     Inl err \<Rightarrow> (('''', cr_status resp, Some err), s')
                   | Inr data \<Rightarrow>
                       if cr_status resp \<ge> 400
                       then ((data, cr_status resp, Some (status_failed (cr_status resp) data)), s')
                       else ((data, cr_status resp, None), s'))))"

section \<open>The retry loop\<close>

fun hc_loop ::
    "('s \<Rightarrow> http_answer \<times> 's) \<Rightarrow> duration \<Rightarrow> (go_error option \<Rightarrow> http_answer) \<Rightarrow> nat \<Rightarrow> nat \<Rightarrow> go_error option \<Rightarrow>
     's traced \<Rightarrow> http_answer \<times> 's traced" where
  "hc_loop f d giveup 0 i lastErr w = (giveup lastErr, w)"
| "hc_loop f d giveup (Suc n) i lastErr w =
     (case traced_attempt f (if i > 0 then traced_sleep (d * int i) w else w) of
        ((data, code, None), w') \<Rightarrow> ((data, code, None), w')
      | ((data, code, Some err), w') \<Rightarrow>
          if 400 \<le> code \<and> code < 500 then (('''', code, Some err), w')
          else hc_loop f d giveup n (Suc i) (Some err) w')"

definition hc_gaveup :: "string \<Rightarrow> string \<Rightarrow> int \<Rightarrow> go_error option \<Rightarrow> http_answer" where
  "hc_gaveup method url retries lastErr =
     (let msg = ''request '' @ method @ '' '' @ url @ '' failed after '' @ itoa retries @ '' retries''
      in ('''', 0, Some (case lastErr of Some err \<Rightarrow> Wrap msg err | None \<Rightarrow> Err (msg @ '': %!w(<nil>)''))))"

text \<open>\<open>for i := 0; i <= MaxRetries; i++\<close>: no attempt at all for a negative number of retries.\<close>

definition hc_Do ::
    "'s client_lib \<Rightarrow> string list \<Rightarrow> 'u hc_options \<Rightarrow> string \<Rightarrow> string \<Rightarrow> string option \<Rightarrow> 's traced \<Rightarrow>
     http_answer \<times> 's traced" where
  "hc_Do cl ks oo method path body w =
     (let url = hc_BaseURL oo @ path
      in hc_loop (hc_doRequest cl ks oo method url body) (hc_RetryDelay oo)
           (hc_gaveup method url (hc_MaxRetries oo)) (nat (hc_MaxRetries oo + 1)) 0 None w)"

section \<open>The methods\<close>

text \<open>\<open>want\<close>: the caller gave a result to decode into.\<close>

definition hc_decode :: "'u hc_options \<Rightarrow> bool \<Rightarrow> http_answer \<times> 's traced \<Rightarrow> 'u any option result \<times> 's traced" where
  "hc_decode oo want aw =
     (case aw of
        ((data, code, Some err), w) \<Rightarrow> (Inl err, w)
      | ((data, code, None), w) \<Rightarrow>
          (if want then map_sum id Some (cd_Unmarshal (hc_Codec oo) data) else Inr None, w))"

definition hc_bodyless :: "string \<Rightarrow> 's client_lib \<Rightarrow> string list \<Rightarrow> 'u hc_options \<Rightarrow> string \<Rightarrow> bool \<Rightarrow> 's traced \<Rightarrow>
    'u any option result \<times> 's traced" where
  "hc_bodyless method cl ks oo path want w = hc_decode oo want (hc_Do cl ks oo method path None w)"

definition hc_with_body :: "string \<Rightarrow> 's client_lib \<Rightarrow> string list \<Rightarrow> 'u hc_options \<Rightarrow> string \<Rightarrow> 'u any \<Rightarrow> bool \<Rightarrow>
    's traced \<Rightarrow> 'u any option result \<times> 's traced" where
  "hc_with_body method cl ks oo path body want w =
     (case cd_Marshal (hc_Codec oo) body of
        Inl err \<Rightarrow> (Inl err, w)
      | Inr data \<Rightarrow> hc_decode oo want (hc_Do cl ks oo method path (Some data) w))"

definition hc_Get :: "'s client_lib \<Rightarrow> string list \<Rightarrow> 'u hc_options \<Rightarrow> string \<Rightarrow> bool \<Rightarrow> 's traced \<Rightarrow>
    'u any option result \<times> 's traced" where
  "hc_Get = hc_bodyless ''GET''"

definition hc_Delete :: "'s client_lib \<Rightarrow> string list \<Rightarrow> 'u hc_options \<Rightarrow> string \<Rightarrow> bool \<Rightarrow> 's traced \<Rightarrow>
    'u any option result \<times> 's traced" where
  "hc_Delete = hc_bodyless ''DELETE''"

definition hc_Post :: "'s client_lib \<Rightarrow> string list \<Rightarrow> 'u hc_options \<Rightarrow> string \<Rightarrow> 'u any \<Rightarrow> bool \<Rightarrow> 's traced \<Rightarrow>
    'u any option result \<times> 's traced" where
  "hc_Post = hc_with_body ''POST''"

definition hc_Put :: "'s client_lib \<Rightarrow> string list \<Rightarrow> 'u hc_options \<Rightarrow> string \<Rightarrow> 'u any \<Rightarrow> bool \<Rightarrow> 's traced \<Rightarrow>
    'u any option result \<times> 's traced" where
  "hc_Put = hc_with_body ''PUT''"

section \<open>The loop meets the contract\<close>

text \<open>What the loop returns at once: a success, or a client error.\<close>

fun hc_verdict :: "http_answer \<Rightarrow> http_answer + go_error" where
  "hc_verdict (data, code, None) = Inl (data, code, None)"
| "hc_verdict (data, code, Some err) =
     (if 400 \<le> code \<and> code < 500 then Inl ('''', code, Some err) else Inr err)"

interpretation hc: traced_retry f d hc_verdict giveup "hc_loop f d giveup" for f d giveup
  by unfold_locales (auto simp: traced_attempt_def Let_def split: prod.splits option.splits if_splits)

text \<open>An answer to be retried: an error that is not a client error.\<close>

definition transient :: "http_answer \<Rightarrow> bool" where
  "transient a = (case a of (_, code, err) \<Rightarrow> err \<noteq> None \<and> \<not> (400 \<le> code \<and> code < 500))"

lemma retryable_transient: "hc.retryable = transient"
proof
  show "hc.retryable a = transient a" for a
    by (cases a rule: hc_verdict.cases) (simp_all add: hc.retryable_def transient_def)
qed

lemma hc_verdict_settled: "\<not> transient a \<Longrightarrow> hc_verdict a = Inl r \<longleftrightarrow>
     r = (case a of (data, code, err) \<Rightarrow> if err = None then a else ('''', code, err))"
  by (cases a rule: hc_verdict.cases) (auto simp: transient_def)

lemma hc_verdict_transient: "transient a \<Longrightarrow> \<exists>err. snd (snd a) = Some err \<and> hc_verdict a = Inr err"
  by (cases a rule: hc_verdict.cases) (auto simp: transient_def)

section \<open>Properties\<close>

text \<open>
  C25: A call makes between one and \<open>MaxRetries + 1\<close> attempts, with a pause of \<open>i\<close> times the retry delay
  before attempt \<open>i\<close>.  Every attempt but the last failed with something else than a client error.  When
  the last one did too, all the attempts are used up and the error wraps the last one's; otherwise its
  answer is returned, without the body if it is a client error.
\<close>

theorem http_client_Do_outcome:
  assumes "hc_MaxRetries oo = int n"
  shows "\<exists>k r s' as a. k < n + 1 \<and> asked (hc_doRequest cl ks oo method (hc_BaseURL oo @ path) body) (Suc k) s = as @ [a] \<and>
     hc_Do cl ks oo method path body (s, []) = (r, (s', backoff_log (hc_RetryDelay oo) 0 (Suc k))) \<and>
     list_all transient as \<and>
     (if transient a then k = n \<and> r = hc_gaveup method (hc_BaseURL oo @ path) (int n) (snd (snd a))
      else r = (case a of (data, code, err) \<Rightarrow> if err = None then a else ('''', code, err)))"
proof -
  define url where "url = hc_BaseURL oo @ path"
  define f where "f = hc_doRequest cl ks oo method url body"
  define give where "give = hc_gaveup method url (int n)"
  obtain k r s' as a where
    k: "k < Suc n" "asked f (Suc k) s = as @ [a]" "list_all transient as"
      "hc_loop f (hc_RetryDelay oo) give (Suc n) 0 None (s, []) = (r, (s', backoff_log (hc_RetryDelay oo) 0 (Suc k)))"
    and r: "if transient a then k = n \<and> r = give (Some (projr (hc_verdict a))) else hc_verdict a = Inl r"
    using hc.traced_last [of n f s "hc_RetryDelay oo" give] unfolding retryable_transient by blast
  have "if transient a then k = n \<and> r = give (snd (snd a))
      else r = (case a of (data, code, err) \<Rightarrow> if err = None then a else ('''', code, err))"
    using r hc_verdict_transient [of a] hc_verdict_settled [of a r] by (auto split: if_splits)
  moreover have "hc_Do cl ks oo method path body (s, []) = (r, (s', backoff_log (hc_RetryDelay oo) 0 (Suc k)))"
    using k(4) assms by (simp add: hc_Do_def url_def f_def give_def nat_add_distrib)
  ultimately show ?thesis using k(1-3) unfolding f_def give_def url_def
    by (intro exI [of _ k] exI [of _ r] exI [of _ s'] exI [of _ as] exI [of _ a]) simp
qed

text \<open>A peer that answers with the statuses of a list, then 200.\<close>

definition statuses :: "int list client_lib" where
  "statuses = \<lparr>cl_new = (\<lambda>_ _. None), cl_send = (\<lambda>rq s. case s of
     [] \<Rightarrow> (Inr \<lparr>cr_status = 200, cr_body = Inr ''ok''\<rparr>, []) | c # cs \<Rightarrow> (Inr \<lparr>cr_status = c, cr_body = Inr ''''\<rparr>, cs))\<rparr>"

definition plain_client :: "unit hc_options" where
  "plain_client = hc_NewClient \<lparr>cd_Marshal = (\<lambda>_. Inr ''{}''), cd_Unmarshal = (\<lambda>_. Inr (AStr ''''))\<rparr> [HcMaxRetries 2]"

theorem http_client_Do_outcome_witness:
  "hc_MaxRetries plain_client = int 2 \<and>
   (\<exists>k r s'. k < 3 \<and> hc_Do statuses [] plain_client ''GET'' ''/'' None ([503], []) =
     (r, (s', backoff_log (hc_RetryDelay plain_client) 0 (Suc k))))"
proof -
  have n: "hc_MaxRetries plain_client = int 2" by (simp add: plain_client_def hc_NewClient_def)
  from http_client_Do_outcome [OF n, of statuses "[]" "''GET''" "''/''" None "[503]"] n show ?thesis by auto
qed

text \<open>
  The pauses do not look at the context.  Once it is done every attempt fails at once, but the call
  still makes all of them and sleeps through all the pauses: \<open>delay * n * (n + 1) / 2\<close> in total.
\<close>

theorem http_client_sleeps_when_cancelled:
  assumes "hc_MaxRetries oo = int n"
    and "cl_new cl method (hc_BaseURL oo @ path) = None" and "\<And>rq s. cl_send cl rq s = (Inl ctx_err, s)"
  shows "\<exists>log. hc_Do cl ks oo method path body (s, []) =
       (hc_gaveup method (hc_BaseURL oo @ path) (int n) (Some ctx_err), (s, log)) \<and>
     length (filter (\<lambda>e. e = Attempted) log) = n + 1 \<and>
     2 * total_sleep log = hc_RetryDelay oo * int n * (int n + 1)"
proof -
  define f where "f = hc_doRequest cl ks oo method (hc_BaseURL oo @ path) body"
  have f: "f t = (('''', 0, Some ctx_err), t)" for t
    using assms(2,3) by (simp add: f_def hc_doRequest_def Let_def)
  have "hc_loop f d give m i (if m = 0 then Some ctx_err else last) w = (give (Some ctx_err), (fst w, snd w @ backoff_log d i m))"
    for d give m i last w
  proof (induction m arbitrary: i last w)
    case (Suc m)
    from Suc [of "Suc i" "Some ctx_err"] show ?case
      by (simp add: traced_attempt_def traced_sleep_def f Let_def)
  qed simp
  from this [of "hc_RetryDelay oo" "hc_gaveup method (hc_BaseURL oo @ path) (int n)" "n + 1" 0 None "(s, [])"]
  have "hc_Do cl ks oo method path body (s, []) =
      (hc_gaveup method (hc_BaseURL oo @ path) (int n) (Some ctx_err), (s, backoff_log (hc_RetryDelay oo) 0 (n + 1)))"
    using assms(1) by (simp add: hc_Do_def f_def nat_add_distrib)
  then show ?thesis using count_backoff [of "hc_RetryDelay oo" 0 "n + 1"] sleep_backoff [of "hc_RetryDelay oo" 0 "n + 1"]
    by (auto simp: algebra_simps)
qed

definition cancelled_lib :: "unit client_lib" where
  "cancelled_lib = \<lparr>cl_new = (\<lambda>_ _. None), cl_send = (\<lambda>rq s. (Inl (Err ''context canceled''), s))\<rparr>"

theorem http_client_sleeps_when_cancelled_witness:
  "\<exists>log. snd (hc_Do cancelled_lib [] plain_client ''GET'' ''/'' None ((), [])) = ((), log) \<and> total_sleep log = millisecond * 300"
proof -
  have n: "hc_MaxRetries plain_client = int 2" and d: "hc_RetryDelay plain_client = millisecond * 100"
    by (simp_all add: plain_client_def hc_NewClient_def hc_DefaultOptions_def)
  have "cl_new cancelled_lib ''GET'' (hc_BaseURL plain_client @ ''/'') = None"
    and "cl_send cancelled_lib rq s = (Inl (Err ''context canceled''), s)" for rq s
    by (simp_all add: cancelled_lib_def)
  from http_client_sleeps_when_cancelled [OF n this, of "[]" None "()"] d show ?thesis by auto
qed

end
