(* ===== verification/HttpEndToEnd.thy ===== *)
theory HttpEndToEnd
  imports HttpClient HttpServer
begin

text \<open>
  The HTTP client talking to the HTTP server: \<open>client/http\<close> and \<open>transport/http\<close> put together over one
  codec.  What lies between them is \<open>net/http\<close>: a request reaches \<open>ServeHTTP\<close> of the server's router on a
  fresh response, a handler that sends no status answers 200, and one that panics closes the connection.
\<close>

section \<open>The wire\<close>

definition server_reply :: "unit outcome \<times> 'w http_state \<Rightarrow> client_reply result" where
  "server_reply out =
     (case out of
        (Ret _, s) \<Rightarrow> Inr \<lparr>cr_status = (case sent s of Some c \<Rightarrow> c | None \<Rightarrow> 200), cr_body = Inr (rs_body (ht_resp s))\<rparr>
      | (Panicked _, s) \<Rightarrow> Inl (Err ''EOF''))"

text \<open>The request as the server reads it; \<open>path\<close> and \<open>query\<close> are what it takes from the URL.\<close>

definition server_request :: "string \<Rightarrow> (string \<Rightarrow> string) \<Rightarrow> client_request \<Rightarrow> http_request" where
  "server_request path query cq =
     \<lparr>rq_method = cq_method cq, rq_path = path, rq_query = query,
      rq_header = (\<lambda>k. case cq_header cq k of Some v \<Rightarrow> v | None \<Rightarrow> [])\<rparr>"

definition arriving :: "client_request \<Rightarrow> 'w \<Rightarrow> 'w http_state" where
  "arriving cq w = (fresh_state w)\<lparr>ht_body := Inr (case cq_body cq of Some b \<Rightarrow> b | None \<Rightarrow> [])\<rparr>"

definition wire ::
    "(string \<Rightarrow> (string \<times> (string \<Rightarrow> string)) result) \<Rightarrow> ((string \<times> 'w http_handler) list \<Rightarrow> 'w http_handler) \<Rightarrow>
     ('u, 'w) router \<Rightarrow> 'w client_lib" where
  "wire parse mux r =
     \<lparr>cl_new = (\<lambda>_ url. case parse url of Inl err \<Rightarrow> Some err | Inr _ \<Rightarrow> None),
      cl_send = (\<lambda>cq w. case parse (cq_url cq) of
          Inl err \<Rightarrow> (Inl err, w)
        | Inr (path, query) \<Rightarrow>
            (let out = ServeHTTP mux r (server_request path query cq) (arriving cq w)
             in (server_reply out, ht_world (snd out))))\<rparr>"

section \<open>One request\<close>

lemma server_reply_release [simp]: "server_reply (o', releaseContext p s) = server_reply (o', s)"
  by (simp add: server_reply_def releaseContext_def sent_def split: outcome.splits)

lemma serve_route:
  assumes "matchRoute (rq_method rq) (rq_path rq) r = Some (rt, params)" and "ro_middlewares r = []" and "ht_pool s = []"
  shows "ServeHTTP mux r rq s =
     (let out = run_handler (ro_codec r) (rt_handler rt) rq (s\<lparr>ht_params := params\<rparr>)
      in (fst out, releaseContext (ht_params s) (snd out)))"
  using assms by (simp add: ServeHTTP_def with_context_def eff_defer_def NewContext_def case_prod_unfold Let_def)

lemma releaseContext_world [simp]: "ht_world (releaseContext p s) = ht_world s"
  by (simp add: releaseContext_def)

text \<open>A request to a route, from the client's \<open>doRequest\<close> to the end of the handler and back.\<close>

lemma doRequest_route:
  assumes "parse url = Inr (path, query)" and "matchRoute m path r = Some (rt, params)" and "ro_middlewares r = []"
    and "\<And>rq s. ht_params s = params \<Longrightarrow> ht_world s = w \<Longrightarrow> sent s = None \<Longrightarrow> rs_body (ht_resp s) = [] \<Longrightarrow> ht_codes s = [] \<Longrightarrow>
          ht_body s = Inr (case body of Some b \<Rightarrow> b | None \<Rightarrow> []) \<Longrightarrow>
          \<exists>s'. run_handler (ro_codec r) (rt_handler rt) rq s = (Ret (), s') \<and> sent s' = Some code \<and>
            rs_body (ht_resp s') = data \<and> ht_world s' = w'"
  shows "hc_doRequest (wire parse mux r) ks oo m url body w =
     ((data, code, if code \<ge> 400 then Some (status_failed code data) else None), w')"
proof -
  define cq where "cq = \<lparr>cq_method = m, cq_url = url, cq_body = body,
      cq_header = fold set_header (range_over ks (hc_Headers oo)) (set_header (''Content-Type'', hc_ContentType oo) (\<lambda>_. None))\<rparr>"
  define rq where "rq = server_request path query cq"
  have s0: "ht_params ((arriving cq w)\<lparr>ht_params := params\<rparr>) = params" "ht_world ((arriving cq w)\<lparr>ht_params := params\<rparr>) = w"
    "sent ((arriving cq w)\<lparr>ht_params := params\<rparr>) = None" "rs_body (ht_resp ((arriving cq w)\<lparr>ht_params := params\<rparr>)) = []"
    "ht_codes ((arriving cq w)\<lparr>ht_params := params\<rparr>) = []"
    "ht_body ((arriving cq w)\<lparr>ht_params := params\<rparr>) = Inr (case body of Some b \<Rightarrow> b | None \<Rightarrow> [])"
    "ht_pool (arriving cq w) = []"
    by (simp_all add: arriving_def fresh_state_def sent_def new_response_def cq_def)
  obtain s' where run: "run_handler (ro_codec r) (rt_handler rt) rq ((arriving cq w)\<lparr>ht_params := params\<rparr>) = (Ret (), s')"
    and s': "sent s' = Some code" "rs_body (ht_resp s') = data" "ht_world s' = w'"
    using assms(4) [OF s0(1-6), of rq] by blast
  have "matchRoute (rq_method rq) (rq_path rq) r = Some (rt, params)"
    using assms(2) by (simp add: rq_def server_request_def cq_def)
  note serve = serve_route [OF this assms(3) s0(7), of mux, unfolded run Let_def fst_conv snd_conv]
  have "cl_send (wire parse mux r) cq w = (Inr \<lparr>cr_status = code, cr_body = Inr data\<rparr>, w')"
    using assms(1) serve s' by (simp add: wire_def cq_def rq_def [symmetric, unfolded cq_def])
      (simp add: server_reply_def)
  moreover have "cl_new (wire parse mux r) m url = None" using assms(1) by (simp add: wire_def)
  ultimately show ?thesis by (simp add: hc_doRequest_def Let_def cq_def)
qed


section \<open>Calls\<close>

text \<open>A handler as one writes it: bind the body, compute with the parameters of the path, answer in JSON.\<close>

definition rpc_handler :: "'u codec \<Rightarrow> ((string \<Rightarrow> string) \<Rightarrow> 'u any \<Rightarrow> 'w \<Rightarrow> 'u any \<times> 'w) \<Rightarrow> 'w HandlerFunc" where
  "rpc_handler c f rq =
     eff_bind (ctx_Bind c) (\<lambda>res. case res of
        Inl err \<Rightarrow> eff_ret (Some err)
      | Inr v \<Rightarrow> (\<lambda>s. let (u, w) = f (\<lambda>x. ctx_Param x s) v (ht_world s) in ctx_JSON c 200 u (s\<lparr>ht_world := w\<rparr>)))"

text \<open>A handler that answers with an error, after doing \<open>g\<close> to the rest of the program.\<close>

definition error_handler :: "'u codec \<Rightarrow> ('w \<Rightarrow> 'w) \<Rightarrow> int \<Rightarrow> string \<Rightarrow> 'w HandlerFunc" where
  "error_handler c g code msg rq s = ctx_Error c code msg (s\<lparr>ht_world := g (ht_world s)\<rparr>)"

lemma ctx_JSON_answers:
  assumes "cd_Marshal c v = Inr d" and "sent s = None" and "final_code code" and "body_allowed code"
    and "rs_body (ht_resp s) = []"
  shows "\<exists>s'. ctx_JSON c code v s = (Ret None, s') \<and> sent s' = Some code \<and> rs_body (ht_resp s') = d \<and> ht_world s' = ht_world s"
proof -
  define s1 where "s1 = header_Set ''Content-Type'' ''application/json'' s"
  have s1: "sent s1 = None" "rs_body (ht_resp s1) = []" "ht_world s1 = ht_world s" using assms(2,5) by (simp_all add: s1_def)
  define s2 where "s2 = s1\<lparr>ht_codes := map (\<lambda>_. code) (ht_codes s1),
      ht_resp := (ht_resp s1)\<lparr>rs_status := Some code, rs_sent := rs_header (ht_resp s1)\<rparr>\<rparr>"
  have wh: "WriteHeader code s1 = (Ret (), s2)" unfolding s2_def by (rule WriteHeader_first [OF s1(1) assms(3)])
  have s2: "sent s2 = Some code" "rs_body (ht_resp s2) = []" "ht_world s2 = ht_world s"
    using s1 by (simp_all add: s2_def sent_def)
  have "ctx_JSON c code v s = rw_Write d s2"
    unfolding ctx_JSON_def eff_bind_def s1_def [symmetric] wh by (simp add: assms(1))
  also have "\<dots> = (Ret None, s2\<lparr>ht_resp := (ht_resp s2)\<lparr>rs_body := rs_body (ht_resp s2) @ d\<rparr>\<rparr>)"
    by (rule rw_Write_sent [OF s2(1) assms(4)])
  finally show ?thesis using s2 by (simp add: sent_def)
qed

lemma rpc_handler_runs:
  assumes "cd_Unmarshal c d = Inr v" and "cd_Marshal c u = Inr d'" and "f (\<lambda>x. ctx_Param x s) v (ht_world s) = (u, w')"
    and "sent s = None" and "rs_body (ht_resp s) = []" and "ht_body s = Inr d"
  shows "\<exists>s'. run_handler c (rpc_handler c f) rq s = (Ret (), s') \<and> sent s' = Some 200 \<and>
     rs_body (ht_resp s') = d' \<and> ht_world s' = w'"
proof -
  define s1 where "s1 = s\<lparr>ht_body := Inr [], ht_world := w'\<rparr>"
  have "final_code 200" "body_allowed 200"
    by (simp_all add: final_code_def valid_code_def informational_def body_allowed_def)
  moreover have "sent s1 = None" "rs_body (ht_resp s1) = []" "ht_world s1 = w'"
    using assms(4,5) by (simp_all add: s1_def sent_def)
  ultimately obtain s' where s': "ctx_JSON c 200 u s1 = (Ret None, s')" "sent s' = Some 200"
    "rs_body (ht_resp s') = d'" "ht_world s' = w'"
    using ctx_JSON_answers [OF assms(2), of s1 200] by auto
  have "f (\<lambda>x. ctx_Param x (s\<lparr>ht_body := Inr []\<rparr>)) v (ht_world s) = (u, w')"
    using assms(3) by (simp add: ctx_Param_def)
  then have "rpc_handler c f rq s = (Ret None, s')"
    using assms(1,6) s'(1) by (simp add: rpc_handler_def eff_bind_def ctx_Bind_def ctx_Body_def eff_ret_def s1_def)
  then show ?thesis using s'(2-4) by (simp add: run_handler_def eff_bind_def eff_ret_def)
qed

text \<open>
  C12: A call over HTTP returns what the handler computes.  The server has a route for a pattern, whose
  handler binds the body, computes a result from it and the parameters of the path, and answers in JSON;
  the client sends a value to a path of the pattern.  If the codec decodes what it encoded, for the value
  sent and for the result, then the call returns the result of the handler's function on the value and
  on the segments of the path, after one attempt, with the effect of one run of the handler.
\<close>

theorem http_call_returns_result:
  fixes v :: "'u any" and w :: 'w and segs env
  defines "params \<equiv> (\<lambda>x. if x \<in> set (params_of segs) then env x else [])"
  assumes "segs \<noteq> []" and "\<forall>s\<in>set segs. seg_ok env s"
    and "parse (hc_BaseURL oo @ path_of env segs) = Inr (path_of env segs, query)"
    and "cd_Marshal c v = Inr d" and "cd_Unmarshal c d = Inr v"
    and "f params v w = (u, w')" and "cd_Marshal c u = Inr d'" and "cd_Unmarshal c d' = Inr u"
    and "hc_Codec oo = c" and "0 \<le> hc_MaxRetries oo"
  shows "hc_with_body (verb_name vb) (wire parse mux (router_verb vb (pattern_of segs) (rpc_handler c f) (NewRouter c)))
       ks oo (path_of env segs) v True (w, []) = (Inr (Some u), (w', [Attempted]))"
proof -
  let ?r = "router_verb vb (pattern_of segs) (rpc_handler c f) (NewRouter c)"
  have r: "ro_middlewares ?r = []" "ro_codec ?r = c" by (simp_all add: router_verb_def registerRoute_def NewRouter_def)
  obtain rt ps where rt: "matchRoute (verb_name vb) (path_of env segs) ?r = Some (rt, ps)" "rt_handler rt = rpc_handler c f"
    and ps: "\<forall>x. ps x = (if x \<in> set (params_of segs) then Some (env x) else None)"
    using route_path [OF assms(2,3)] by blast
  have once: "hc_doRequest (wire parse mux ?r) ks oo (verb_name vb) (hc_BaseURL oo @ path_of env segs) (Some d) w =
      ((d', 200, None), w')"
  proof (rule doRequest_route [where parse = parse and url = "hc_BaseURL oo @ path_of env segs", OF assms(4) rt(1) r(1),
        where code = 200 and data = d' and w' = w' and body = "Some d", simplified])
    fix rq and s :: "'w http_state"
    assume s: "ht_params s = ps" "ht_world s = w" "sent s = None" "rs_body (ht_resp s) = []" "ht_body s = Inr d"
    have "(\<lambda>x. ctx_Param x s) = params" using ps s(1) by (auto simp: ctx_Param_def params_def fun_eq_iff)
    then have "f (\<lambda>x. ctx_Param x s) v (ht_world s) = (u, w')" using assms(7) s(2) by simp
    from rpc_handler_runs [where rq = rq and f = f, OF assms(6) assms(8) this s(3-5)]
    show "\<exists>s'. run_handler (ro_codec ?r) (rt_handler rt) rq s = (Ret (), s') \<and> sent s' = Some 200 \<and>
        rs_body (ht_resp s') = d' \<and> ht_world s' = w'" by (simp add: r(2) rt(2))
  qed
  obtain n where n: "nat (hc_MaxRetries oo + 1) = Suc n" using assms(11) by (cases "nat (hc_MaxRetries oo + 1)") auto
  have "hc_Do (wire parse mux ?r) ks oo (verb_name vb) (path_of env segs) (Some d) (w, []) = ((d', 200, None), (w', [Attempted]))"
    unfolding hc_Do_def Let_def n by (simp add: traced_attempt_def once Let_def)
  then show ?thesis using assms(5,9,10) by (simp add: hc_with_body_def hc_decode_def)
qed


text \<open>A codec for strings, a greeting service that counts its calls, and a client of it.\<close>

definition string_codec :: "unit codec" where
  "string_codec = \<lparr>cd_Marshal = (\<lambda>v. case v of AStr s \<Rightarrow> Inr s | _ \<Rightarrow> Inl (Err ''not a string'')), cd_Unmarshal = (\<lambda>d. Inr (AStr d))\<rparr>"

definition greet :: "(string \<Rightarrow> string) \<Rightarrow> unit any \<Rightarrow> nat \<Rightarrow> unit any \<times> nat" where
  "greet ps v n = (case v of AStr s \<Rightarrow> AStr (s @ '', '' @ ps ''name'') | _ \<Rightarrow> AStr [], n + 1)"

definition greet_client :: "unit hc_options" where
  "greet_client = hc_NewClient string_codec [HcMaxRetries 2]"

text \<open>What the server takes from a URL below the default base: the rest of it, and no query.\<close>

definition below_base :: "string \<Rightarrow> (string \<times> (string \<Rightarrow> string)) result" where
  "below_base url = Inr (drop (length ''http://localhost:8080'') url, \<lambda>_. [])"

theorem http_call_returns_result_witness:
  "hc_Post (wire below_base (\<lambda>_ _. eff_ret ()) (router_verb POST ''/greet/:name'' (rpc_handler string_codec greet) (NewRouter string_codec)))
     [] greet_client ''/greet/ada'' (AStr ''hello'') True (7, []) = (Inr (Some (AStr ''hello, ada'')), (8, [Attempted]))"
proof -
  have path: "pattern_of [Static ''greet'', Param ''name''] = ''/greet/:name''"
    "path_of (\<lambda>_. ''ada'') [Static ''greet'', Param ''name''] = ''/greet/ada''"
    by (simp_all add: path_of_def pattern_of_def)
  have params: "set (params_of [Static ''greet'', Param ''name'']) = {''name''}"
    by (simp add: params_of_def List.map_filter_simps)
  show ?thesis
    using http_call_returns_result [of "[Static ''greet'', Param ''name'']" "\<lambda>_. ''ada''" below_base greet_client "\<lambda>_. []"
        string_codec "AStr ''hello''" "''hello''" greet 7 "AStr ''hello, ada''" 8 "''hello, ada''" POST "\<lambda>_ _. eff_ret ()" "[]"]
    by (simp add: path params hc_Post_def below_base_def greet_client_def hc_NewClient_def hc_DefaultOptions_def
        string_codec_def greet_def)
qed

text \<open>An attempt that always fails in the same way: once below 500, as often as allowed from there on.\<close>

lemma loop_of_errors:
  assumes once: "\<And>w. f w = ((d, code, Some e), g w)" and "400 \<le> code"
  shows "\<exists>e. hc_loop f dl giveup m i lastErr w =
      (if m = 0 then giveup lastErr else if code < 500 then ('''', code, Some e) else giveup (Some e),
       ((g ^^ (if code < 500 then min 1 m else m)) (fst w), snd w @ backoff_log dl i (if code < 500 then min 1 m else m)))"
proof (induction m arbitrary: i lastErr w)
  case (Suc m)
  let ?w1 = "(g (fst w), snd w @ (if i > 0 then [Slept (dl * int i)] else []) @ [Attempted])"
  from Suc [of "Suc i" "Some e" ?w1] show ?case
    using assms(2) by (auto simp: traced_attempt_def traced_sleep_def once Let_def funpow_swap1)
qed simp

text \<open>A handler that answers with an error.\<close>

lemma error_handler_answers:
  assumes "cd_Marshal c (AMap [(''error'', AStr msg), (''code'', AInt code)]) = Inr d"
    and "400 \<le> code" and "code \<le> 999" and "sent s = None" and "rs_body (ht_resp s) = []"
  shows "\<exists>s'. error_handler c g code msg rq s = (Ret None, s') \<and> sent s' = Some code \<and> rs_body (ht_resp s') = d \<and>
     ht_world s' = g (ht_world s)"
proof -
  have code: "final_code code" "body_allowed code"
    using assms(2,3) by (simp_all add: final_code_def valid_code_def informational_def body_allowed_def)
  define s1 where "s1 = s\<lparr>ht_world := g (ht_world s)\<rparr>"
  have "sent s1 = None" "rs_body (ht_resp s1) = []" "ht_world s1 = g (ht_world s)"
    using assms(4,5) by (simp_all add: s1_def sent_def)
  with ctx_JSON_answers [OF assms(1) _ code, of s1] show ?thesis
    by (auto simp: error_handler_def ctx_Error_def s1_def)
qed

text \<open>
  C19: What an error of the handler costs.  When the handler of a route answers with an error status, the
  client returns an error; for a status from 400 to 499 the handler has run once, for one of 500 or more it
  has run \<open>MaxRetries + 1\<close> times, with the back-off pauses in between, whatever the method is.
\<close>

theorem http_error_retried:
  fixes g :: "'w \<Rightarrow> 'w"
  assumes "segs \<noteq> []" and "\<forall>s\<in>set segs. seg_ok env s"
    and "parse (hc_BaseURL oo @ path_of env segs) = Inr (path_of env segs, query)"
    and "cd_Marshal c (AMap [(''error'', AStr msg), (''code'', AInt code)]) = Inr d"
    and "400 \<le> code" and "code \<le> 999" and "hc_MaxRetries oo = int n"
  defines "k \<equiv> (if code < 500 then 1 else n + 1)"
  shows "\<exists>err. hc_Do (wire parse mux (router_verb vb (pattern_of segs) (error_handler c g code msg) (NewRouter c)))
       ks oo (verb_name vb) (path_of env segs) body (w, []) =
     (('''', if code < 500 then code else 0, Some err), ((g ^^ k) w, backoff_log (hc_RetryDelay oo) 0 k))"
proof -
  let ?r = "router_verb vb (pattern_of segs) (error_handler c g code msg) (NewRouter c)"
  let ?url = "hc_BaseURL oo @ path_of env segs"
  have r: "ro_middlewares ?r = []" "ro_codec ?r = c" by (simp_all add: router_verb_def registerRoute_def NewRouter_def)
  obtain rt ps where rt: "matchRoute (verb_name vb) (path_of env segs) ?r = Some (rt, ps)" "rt_handler rt = error_handler c g code msg"
    using route_path [OF assms(1,2)] by blast
  have once: "hc_doRequest (wire parse mux ?r) ks oo (verb_name vb) ?url body w = ((d, code, Some (status_failed code d)), g w)" for w
  proof (rule doRequest_route [where parse = parse and url = ?url, OF assms(3) rt(1) r(1),
        where code = code and data = d and w' = "g w" and body = body, THEN trans])
    fix rq and s :: "'w http_state"
    assume s: "ht_world s = w" "sent s = None" "rs_body (ht_resp s) = []"
    from error_handler_answers [OF assms(4-6) s(2,3), of g rq]
    show "\<exists>s'. run_handler (ro_codec ?r) (rt_handler rt) rq s = (Ret (), s') \<and> sent s' = Some code \<and>
        rs_body (ht_resp s') = d \<and> ht_world s' = g w"
      by (auto simp: s r(2) rt(2) run_handler_def eff_bind_def eff_ret_def)
  qed (use assms(5) in simp)
  note loop = loop_of_errors [of "hc_doRequest (wire parse mux ?r) ks oo (verb_name vb) ?url body", OF once assms(5)]
  have "nat (hc_MaxRetries oo + 1) = Suc n" using assms(7) by simp
  with loop [of "hc_RetryDelay oo" "hc_gaveup (verb_name vb) ?url (hc_MaxRetries oo)" "Suc n" 0 None "(w, [])"] show ?thesis
    unfolding hc_Do_def Let_def by (auto simp: k_def hc_gaveup_def Let_def)
qed


definition braces_codec :: "unit codec" where
  "braces_codec = \<lparr>cd_Marshal = (\<lambda>_. Inr ''{}''), cd_Unmarshal = (\<lambda>_. Inr (AMap []))\<rparr>"

theorem http_error_retried_witness:
  "\<exists>err log. hc_Do (wire below_base (\<lambda>_ _. eff_ret ()) (router_verb POST ''/greet'' (error_handler braces_codec Suc 503 ''busy'') (NewRouter braces_codec)))
     [] greet_client ''POST'' ''/greet'' None (0, []) = (('''', 0, Some err), (3, log)) \<and> total_sleep log = millisecond * 300"
proof -
  have path: "pattern_of [Static ''greet''] = ''/greet''" "path_of (\<lambda>_. []) [Static ''greet''] = ''/greet''"
    by (simp_all add: path_of_def pattern_of_def)
  have client: "hc_BaseURL greet_client = ''http://localhost:8080''" "hc_MaxRetries greet_client = int 2"
    "hc_RetryDelay greet_client = millisecond * 100"
    by (simp_all add: greet_client_def hc_NewClient_def hc_DefaultOptions_def)
  have "total_sleep (backoff_log (millisecond * 100) 0 3) = millisecond * 300"
    using sleep_backoff [of "millisecond * 100" 0 3] by simp
  moreover have "(Suc ^^ 3) 0 = 3" by simp
  ultimately show ?thesis
    using http_error_retried [of "[Static ''greet'']" "\<lambda>_. []" below_base greet_client "\<lambda>_. []" braces_codec "''busy''" 503
        "''{}''" 2 "\<lambda>_ _. eff_ret ()" POST Suc "[]" None 0]
    by (simp add: path client below_base_def braces_codec_def) blast
qed

end
