(* ===== verification/RateLimiter.thy ===== *)
theory RateLimiter
  imports GoFloat GrpcTypes
begin

text \<open>
  The token bucket (\<open>middleware/ratelimit.go\<close>) over \<open>float64\<close> arithmetic: the rounding \<open>rnd\<close> is an
  argument of every definition, \<open>float64\<close> for the program and the identity for exact arithmetic.
  \<open>Allow\<close> runs under the mutex, so concurrent callers are sequences of calls; the clock reading it
  makes is its argument.
\<close>

section \<open>The limiter\<close>

record limiter =
  rl_rate :: real
  rl_burst :: int
  rl_tokens :: real
  rl_lastUpdate :: time

definition NewRateLimiter :: "(real \<Rightarrow> real) \<Rightarrow> time \<Rightarrow> real \<Rightarrow> int \<Rightarrow> limiter" where
  "NewRateLimiter rnd now rate burst =
     \<lparr>rl_rate = rate, rl_burst = burst, rl_tokens = rnd (of_int burst), rl_lastUpdate = now\<rparr>"

definition rl_Allow :: "(real \<Rightarrow> real) \<Rightarrow> time \<Rightarrow> limiter \<Rightarrow> bool \<times> limiter" where
  "rl_Allow rnd now r =
     (let elapsed = Seconds rnd (now - rl_lastUpdate r);
          r1 = r\<lparr>rl_lastUpdate := now\<rparr>;
          r2 = r1\<lparr>rl_tokens := rnd (rl_tokens r1 + rnd (elapsed * rl_rate r1))\<rparr>;
          r3 = (if rl_tokens r2 > rnd (of_int (rl_burst r2))
                then r2\<lparr>rl_tokens := rnd (of_int (rl_burst r2))\<rparr> else r2)
      in if rl_tokens r3 \<ge> 1 then (True, r3\<lparr>rl_tokens := rnd (rl_tokens r3 - 1)\<rparr>)
         else (False, r3))"

text \<open>The answers of \<open>Allow\<close> over a sequence of clock readings, and the limiter they leave.\<close>

fun rl_run :: "(real \<Rightarrow> real) \<Rightarrow> time list \<Rightarrow> limiter \<Rightarrow> bool list \<times> limiter" where
  "rl_run rnd [] r = ([], r)"
| "rl_run rnd (t # ts) r =
     (let (ok, r') = rl_Allow rnd t r; (oks, r'') = rl_run rnd ts r' in (ok # oks, r''))"

definition rl_grants :: "bool list \<Rightarrow> nat" where
  "rl_grants oks = length (filter id oks)"

text \<open>
  \<open>Wait\<close>.  The limiter is shared: other callers get in between two polls.  A poll is their clock readings
  since the poll before, the clock reading of its own \<open>Allow\<close> and, when that is refused, the error of the
  context if it is done before the next poll.  \<open>None\<close> is a \<open>Wait\<close> that has not returned yet.
\<close>

type_synonym 'x poll = "time list \<times> time \<times> 'x option"

fun rl_Wait :: "(real \<Rightarrow> real) \<Rightarrow> 'x poll list \<Rightarrow> limiter \<Rightarrow> 'x option option \<times> limiter" where
  "rl_Wait rnd [] r = (None, r)"
| "rl_Wait rnd ((others, now, ctx_done) # polls) r =
     (let (ok, r') = rl_Allow rnd now (snd (rl_run rnd others r))
      in if ok then (Some None, r')
         else (case ctx_done of Some err \<Rightarrow> (Some (Some err), r') | None \<Rightarrow> rl_Wait rnd polls r'))"


section \<open>The gRPC interceptors\<close>

definition UnaryServerRateLimiter ::
    "(real \<Rightarrow> real) \<Rightarrow> 'e status_error \<Rightarrow> time \<Rightarrow> ('req, 'resp, 'e, 'w) unary_handler \<Rightarrow> 'req \<Rightarrow>
     limiter \<Rightarrow> 'w \<Rightarrow> ('resp option \<times> 'e option) \<times> limiter \<times> 'w" where
  "UnaryServerRateLimiter rnd StatusError now handler req r w =
     (let (ok, r') = rl_Allow rnd now r
      in if \<not> ok then ((None, Some (StatusError ResourceExhausted ''rate limit exceeded'')), r', w)
         else (let (res, w') = handler req w in (res, r', w')))"

definition StreamServerRateLimiter ::
    "(real \<Rightarrow> real) \<Rightarrow> 'e status_error \<Rightarrow> time \<Rightarrow> ('e, 'w) invoker \<Rightarrow> limiter \<Rightarrow> 'w \<Rightarrow>
     'e option \<times> limiter \<times> 'w" where
  "StreamServerRateLimiter rnd StatusError now handler r w =
     (let (ok, r') = rl_Allow rnd now r
      in if \<not> ok then (Some (StatusError ResourceExhausted ''rate limit exceeded''), r', w)
         else (let (err, w') = handler w in (err, r', w')))"

text \<open>\<open>None\<close>: the call is still waiting for a token.\<close>

definition UnaryClientRateLimiter ::
    "(real \<Rightarrow> real) \<Rightarrow> 'e status_error \<Rightarrow> 'x poll list \<Rightarrow> ('e, 'w) invoker \<Rightarrow> limiter \<Rightarrow> 'w \<Rightarrow>
     'e option option \<times> limiter \<times> 'w" where
  "UnaryClientRateLimiter rnd StatusError polls invoker r w =
     (case rl_Wait rnd polls r of
        (None, r') \<Rightarrow> (None, r', w)
      | (Some (Some err), r') \<Rightarrow> (Some (Some (StatusError ResourceExhausted ''rate limit exceeded'')), r', w)
      | (Some None, r') \<Rightarrow> (let (err, w') = invoker w in (Some err, r', w')))"

section \<open>Limiters per method\<close>

record limiter_pool =
  pl_limiters :: "string \<Rightarrow> limiter option"
  pl_rate :: real
  pl_burst :: int

definition NewPerMethodRateLimiter :: "real \<Rightarrow> int \<Rightarrow> limiter_pool" where
  "NewPerMethodRateLimiter rate burst = \<lparr>pl_limiters = (\<lambda>_. None), pl_rate = rate, pl_burst = burst\<rparr>"

definition pl_create :: "(real \<Rightarrow> real) \<Rightarrow> time \<Rightarrow> string \<Rightarrow> limiter_pool \<Rightarrow> limiter \<times> limiter_pool" where
  "pl_create rnd now key p =
     (case pl_limiters p key of
        Some l \<Rightarrow> (l, p)
      | None \<Rightarrow>
          (let l = NewRateLimiter rnd now (pl_rate p) (pl_burst p)
           in (l, p\<lparr>pl_limiters := (pl_limiters p)(key \<mapsto> l)\<rparr>)))"

definition pl_GetLimiter :: "(real \<Rightarrow> real) \<Rightarrow> time \<Rightarrow> string \<Rightarrow> limiter_pool \<Rightarrow> limiter \<times> limiter_pool" where
  "pl_GetLimiter rnd now key p =
     (case pl_limiters p key of Some l \<Rightarrow> (l, p) | None \<Rightarrow> pl_create rnd now key p)"

interpretation limiters: double_checked pl_limiters "pl_create rnd" for rnd
  by unfold_locales (auto simp: pl_create_def Let_def split: option.splits)

text \<open>The limiter is shared through its pointer: writing it back under its method is the update.\<close>

definition pl_UnaryServerInterceptor ::
    "(real \<Rightarrow> real) \<Rightarrow> 'e status_error \<Rightarrow> time \<Rightarrow> time \<Rightarrow> string \<Rightarrow> ('req, 'resp, 'e, 'w) unary_handler \<Rightarrow>
     'req \<Rightarrow> limiter_pool \<Rightarrow> 'w \<Rightarrow> ('resp option \<times> 'e option) \<times> limiter_pool \<times> 'w" where
  "pl_UnaryServerInterceptor rnd StatusError t0 now FullMethod handler req p w =
     (let (l, p1) = pl_GetLimiter rnd t0 FullMethod p;
          (ok, l') = rl_Allow rnd now l;
          p2 = p1\<lparr>pl_limiters := (pl_limiters p1)(FullMethod \<mapsto> l')\<rparr>
      in if \<not> ok
         then ((None, Some (StatusError ResourceExhausted (''rate limit exceeded for '' @ FullMethod))), p2, w)
         else (let (res, w') = handler req w in (res, p2, w')))"

section \<open>The invariant\<close>

definition rl_ok :: "(real \<Rightarrow> real) \<Rightarrow> limiter \<Rightarrow> bool" where
  "rl_ok rnd r \<longleftrightarrow> 0 \<le> rl_rate r \<and> 0 \<le> rl_burst r \<and> 0 \<le> rl_tokens r \<and>
     rl_tokens r \<le> rnd (of_int (rl_burst r)) \<and> rnd (rl_tokens r) = rl_tokens r"

lemma rl_Allow_config [simp]:
  "rl_rate (snd (rl_Allow rnd t r)) = rl_rate r"
  "rl_burst (snd (rl_Allow rnd t r)) = rl_burst r"
  "rl_lastUpdate (snd (rl_Allow rnd t r)) = t"
  by (simp_all add: rl_Allow_def Let_def)

context rounding
begin

lemma rl_ok_New: "0 \<le> rate \<Longrightarrow> 0 \<le> burst \<Longrightarrow> rl_ok rnd (NewRateLimiter rnd now rate burst)"
  by (simp add: rl_ok_def NewRateLimiter_def rnd_nonneg rnd_idem)

lemma rl_ok_Allow:
  assumes ok: "rl_ok rnd r" and t: "rl_lastUpdate r \<le> t"
  shows "rl_ok rnd (snd (rl_Allow rnd t r))"
proof -
  define u where "u = rnd (rl_tokens r + rnd (Seconds rnd (t - rl_lastUpdate r) * rl_rate r))"
  define v where "v = (if u > rnd (of_int (rl_burst r)) then rnd (of_int (rl_burst r)) else u)"
  have "0 \<le> u" unfolding u_def using ok t
    by (intro rnd_nonneg add_nonneg_nonneg mult_nonneg_nonneg Seconds_nonneg) (auto simp: rl_ok_def)
  then have v: "0 \<le> v" "v \<le> rnd (of_int (rl_burst r))" "rnd v = v"
    using ok rnd_nonneg [of "of_int (rl_burst r)"] by (auto simp: v_def u_def rl_ok_def rnd_idem)
  have eq: "rl_tokens (snd (rl_Allow rnd t r)) = (if 1 \<le> v then rnd (v - 1) else v)"
    by (simp add: rl_Allow_def Let_def v_def u_def)
  have "rnd (v - 1) \<le> v" by (rule rnd_minus_le) (simp_all add: v(3))
  moreover have "1 \<le> v \<Longrightarrow> 0 \<le> rnd (v - 1)" by (rule rnd_nonneg) simp
  ultimately show ?thesis using ok v by (auto simp: rl_ok_def eq rnd_idem)
qed

lemma rl_ok_run:
  "rl_ok rnd r \<Longrightarrow> sorted (rl_lastUpdate r # ts) \<Longrightarrow> rl_ok rnd (snd (rl_run rnd ts r))"
proof (induction ts arbitrary: r)
  case (Cons t ts)
  have "rl_ok rnd (snd (rl_Allow rnd t r))" using Cons.prems by (intro rl_ok_Allow) auto
  moreover have "sorted (rl_lastUpdate (snd (rl_Allow rnd t r)) # ts)" using Cons.prems by auto
  ultimately have "rl_ok rnd (snd (rl_run rnd ts (snd (rl_Allow rnd t r))))" by (rule Cons.IH)
  then show ?case by (simp add: case_prod_unfold Let_def)
qed simp

end

section \<open>Exact arithmetic\<close>

text \<open>The tokens an exact \<open>Allow\<close> decides on: refilled at the rate, up to the burst.\<close>

definition rl_level :: "time \<Rightarrow> limiter \<Rightarrow> real" where
  "rl_level t r = min (rl_tokens r + rl_rate r * of_int (t - rl_lastUpdate r) / 1000000000) (of_int (rl_burst r))"

lemma rl_Allow_exact:
  "rl_Allow (\<lambda>x. x) t r =
     (1 \<le> rl_level t r,
      r\<lparr>rl_tokens := rl_level t r - (if 1 \<le> rl_level t r then 1 else 0), rl_lastUpdate := t\<rparr>)"
  by (simp add: rl_Allow_def Let_def Seconds_exact rl_level_def min_def mult.commute)

lemma rl_run_exact_Cons:
  "rl_run (\<lambda>x. x) (t # ts) r =
     (let (oks, r') = rl_run (\<lambda>x. x) ts
            (r\<lparr>rl_tokens := rl_level t r - (if 1 \<le> rl_level t r then 1 else 0), rl_lastUpdate := t\<rparr>)
      in ((1 \<le> rl_level t r) # oks, r'))"
  by (simp add: rl_Allow_exact)

lemma rl_grants_Cons: "rl_grants (ok # oks) = (if ok then 1 else 0) + rl_grants oks"
  by (simp add: rl_grants_def)

text \<open>Every grant is paid by a token the bucket held or gained: tokens are never created.\<close>

lemma rl_run_exact_potential:
  "real (rl_grants (fst (rl_run (\<lambda>x. x) ts r))) + rl_tokens (snd (rl_run (\<lambda>x. x) ts r))
     \<le> rl_tokens r + rl_rate r * of_int (last (rl_lastUpdate r # ts) - rl_lastUpdate r) / 1000000000"
proof (induction ts arbitrary: r)
  case Nil
  then show ?case by (simp add: rl_grants_def)
next
  case (Cons t ts)
  define r' where "r' = r\<lparr>rl_tokens := rl_level t r - (if 1 \<le> rl_level t r then 1 else 0), rl_lastUpdate := t\<rparr>"
  have "rl_level t r \<le> rl_tokens r + rl_rate r * of_int (t - rl_lastUpdate r) / 1000000000"
    by (simp add: rl_level_def)
  moreover have "real (rl_grants (fst (rl_run (\<lambda>x. x) ts r'))) + rl_tokens (snd (rl_run (\<lambda>x. x) ts r'))
     \<le> rl_tokens r' + rl_rate r * of_int (last (t # ts) - t) / 1000000000"
    using Cons.IH [of r'] by (simp add: r'_def)
  moreover have "rl_tokens r' = rl_level t r - (if 1 \<le> rl_level t r then 1 else 0)" by (simp add: r'_def)
  moreover have "rl_rate r * of_int (last (t # ts) - rl_lastUpdate r) / 1000000000 =
      rl_rate r * of_int (t - rl_lastUpdate r) / 1000000000 + rl_rate r * of_int (last (t # ts) - t) / 1000000000"
    by (simp add: field_simps)
  ultimately show ?case
    unfolding rl_run_exact_Cons r'_def [symmetric]
    by (auto simp: case_prod_unfold Let_def rl_grants_Cons add_divide_distrib)
qed

lemma rl_level_le_burst: "rl_level t r \<le> of_int (rl_burst r)"
  by (simp add: rl_level_def)

lemmas rl_ok_exact = exact_arith.rl_ok_run exact_arith.rl_ok_New exact_arith.rl_ok_Allow

section \<open>Properties\<close>

text \<open>
  C8: In exact arithmetic, in every window of calls that starts at \<open>t\<close>, from every state a
  limiter can be in, at most \<open>burst + rate * (length of the window)\<close> calls are granted.
\<close>

theorem rl_window_bound:
  assumes "rl_ok (\<lambda>x. x) r" and "sorted (rl_lastUpdate r # t # ts)"
  shows "real (rl_grants (fst (rl_run (\<lambda>x. x) (t # ts) r)))
     \<le> of_int (rl_burst r) + rl_rate r * (of_int (last (t # ts) - t) / 1000000000)"
proof -
  define r' where "r' = snd (rl_Allow (\<lambda>x. x) t r)"
  have "rl_ok (\<lambda>x. x) r'" unfolding r'_def using assms by (intro rl_ok_exact) auto
  moreover have "sorted (rl_lastUpdate r' # ts)" using assms by (simp add: r'_def)
  ultimately have "0 \<le> rl_tokens (snd (rl_run (\<lambda>x. x) ts r'))"
    using rl_ok_exact(1) [of r' ts] by (simp add: rl_ok_def)
  moreover have r': "r' = r\<lparr>rl_tokens := rl_level t r - (if 1 \<le> rl_level t r then 1 else 0), rl_lastUpdate := t\<rparr>"
    by (simp add: r'_def rl_Allow_exact)
  moreover have "rl_tokens r' = rl_level t r - (if 1 \<le> rl_level t r then 1 else 0)" "rl_rate r' = rl_rate r"
    "rl_lastUpdate r' = t" by (simp_all add: r')
  ultimately show ?thesis
    using rl_run_exact_potential [of ts r'] rl_level_le_burst [of t r]
    unfolding rl_run_exact_Cons r' [symmetric]
    by (auto simp: case_prod_unfold Let_def rl_grants_Cons)
qed

theorem rl_window_bound_witness:
  "real (rl_grants (fst (rl_run (\<lambda>x. x) [0, 0, 0, 500000000, 1000000000] (NewRateLimiter (\<lambda>x. x) 0 2 2)))) \<le> 4"
  using rl_window_bound [of "NewRateLimiter (\<lambda>x. x) 0 2 2" 0 "[0, 0, 500000000, 1000000000]"]
    exact_arith.rl_ok_New [of 2 2 0]
  by (simp add: NewRateLimiter_def del: rl_run.simps)

text \<open>
  In \<open>float64\<close> arithmetic, rounding included, and for a clock that does not go back, the
  bucket of a new limiter never holds less than no token nor more than its burst, whatever calls
  are made.
\<close>

theorem rl_tokens_bounded:
  assumes "0 \<le> rate" and "0 \<le> burst" and "sorted (now # ts)"
  shows "0 \<le> rl_tokens (snd (rl_run float64 ts (NewRateLimiter float64 now rate burst))) \<and>
     rl_tokens (snd (rl_run float64 ts (NewRateLimiter float64 now rate burst))) \<le> float64 (of_int burst)"
proof -
  have burst: "rl_burst (snd (rl_run rnd ts r)) = rl_burst r" for rnd r
    by (induction ts arbitrary: r) (simp_all add: case_prod_unfold Let_def)
  have "rl_ok float64 (snd (rl_run float64 ts (NewRateLimiter float64 now rate burst)))"
    using assms by (intro ieee.rl_ok_run ieee.rl_ok_New) (simp_all add: NewRateLimiter_def)
  then show ?thesis by (simp add: rl_ok_def burst) (simp add: NewRateLimiter_def)
qed

theorem rl_tokens_bounded_witness:
  "rl_tokens (snd (rl_run float64 [1, 2, 1000000000] (NewRateLimiter float64 0 100 5))) \<le> float64 5"
  using rl_tokens_bounded [of 100 5 0 "[1, 2, 1000000000]"] by simp

lemma float64_nat: "0 \<le> n \<Longrightarrow> n \<le> 2 ^ 53 \<Longrightarrow> float64 (of_int n) = of_int n"
  by (rule float64_of_int) simp

lemma rl_run_instant:
  assumes "rl_burst r = b" and "rl_tokens r = of_int k" and "0 \<le> k" and "k \<le> b" and "b \<le> 2 ^ 53"
    and "rl_lastUpdate r = t"
  shows "fst (rl_run float64 (replicate n t) r) = replicate (min n (nat k)) True @ replicate (n - nat k) False"
  using assms
proof (induction n arbitrary: r k)
  case (Suc n)
  have f: "float64 (of_int b) = of_int b" "float64 (of_int k) = of_int k"
    using Suc.prems by (intro float64_nat; simp)+
  have g: "1 \<le> k \<Longrightarrow> float64 (of_int k - 1) = of_int (k - 1)"
    using float64_nat [of "k - 1"] Suc.prems by simp
  have step: "rl_Allow float64 t r =
      (1 \<le> k, r\<lparr>rl_tokens := of_int (if 1 \<le> k then k - 1 else k), rl_lastUpdate := t\<rparr>)"
    using Suc.prems f g by (auto simp: rl_Allow_def Let_def ieee.Seconds_0)
  have IH: "fst (rl_run float64 (replicate n t)
        (r\<lparr>rl_tokens := of_int (if 1 \<le> k then k - 1 else k), rl_lastUpdate := t\<rparr>)) =
      replicate (min n (nat (if 1 \<le> k then k - 1 else k))) True @
      replicate (n - nat (if 1 \<le> k then k - 1 else k)) False"
    by (rule Suc.IH) (use Suc.prems in auto)
  show ?case
  proof (cases "1 \<le> k")
    case True
    then have "nat k = Suc (nat (k - 1))" by simp
    then show ?thesis using True IH step by (simp add: case_prod_unfold Let_def)
  next
    case False
    then have "k = 0" using Suc.prems by simp
    then show ?thesis using False IH step by (simp add: case_prod_unfold Let_def)
  qed
qed simp

text \<open>
  In \<open>float64\<close> arithmetic, a new limiter of burst \<open>b\<close> (at most \<open>2^53\<close>) grants, of \<open>n\<close> calls
  made at one instant, exactly the first \<open>b\<close>; a burst below one grants none.
\<close>

theorem rl_burst_exact:
  assumes "burst \<le> 2 ^ 53" and "0 \<le> burst"
  shows "fst (rl_run float64 (replicate n now) (NewRateLimiter float64 now rate burst)) =
     replicate (min n (nat burst)) True @ replicate (n - nat burst) False"
  by (rule rl_run_instant) (use assms in \<open>simp_all add: NewRateLimiter_def float64_nat\<close>)

theorem rl_burst_exact_witness:
  "fst (rl_run float64 (replicate 4 7) (NewRateLimiter float64 7 10 3)) = [True, True, True, False]"
  using rl_burst_exact [of 3 4 7 10] by (simp add: numeral_eq_Suc)


definition poll_times :: "'x poll list \<Rightarrow> time list" where
  "poll_times polls = concat (map (\<lambda>(others, now, _). others @ [now]) polls)"

lemma poll_times_simps [simp]:
  "poll_times [] = []" "poll_times ((others, now, c) # polls) = others @ now # poll_times polls"
  by (simp_all add: poll_times_def)

lemma rl_run_config [simp]:
  "rl_rate (snd (rl_run rnd ts r)) = rl_rate r" "rl_burst (snd (rl_run rnd ts r)) = rl_burst r"
  "rl_lastUpdate (snd (rl_run rnd ts r)) = last (rl_lastUpdate r # ts)"
  by (induction ts arbitrary: r) (simp_all add: case_prod_unfold Let_def)




text \<open>Others that take every token as it comes starve a waiting caller, however often it polls.\<close>

definition late_polls :: "nat \<Rightarrow> nat \<Rightarrow> unit poll list" where
  "late_polls k n = map (\<lambda>i. ([int i * 1000000000], int i * 1000000000, None)) [k..<k + n]"

theorem rl_Wait_can_starve:
  "fst (rl_Wait (\<lambda>x. x) (late_polls 1 n) \<lparr>rl_rate = 1, rl_burst = 1, rl_tokens = 0, rl_lastUpdate = 0\<rparr>) = None"
proof -
  have "fst (rl_Wait (\<lambda>x. x) (late_polls (Suc k) n)
      \<lparr>rl_rate = 1, rl_burst = 1, rl_tokens = 0, rl_lastUpdate = int k * 1000000000\<rparr>) = None" for k
  proof (induction n arbitrary: k)
    case (Suc n)
    have "late_polls (Suc k) (Suc n) = ([int (Suc k) * 1000000000], int (Suc k) * 1000000000, None) # late_polls (Suc (Suc k)) n"
      unfolding late_polls_def by (simp add: upt_conv_Cons del: upt_Suc)
    then show ?case using Suc [of "Suc k"] by (simp add: rl_Allow_exact rl_level_def field_simps)
  qed (simp add: late_polls_def)
  from this [of 0] show ?thesis by simp
qed

end
