(* ===== verification/Metrics.thy ===== *)
theory Metrics
  imports GoFloat GoStrings GrpcTypes "HOL-Library.Word"
begin

text \<open>
  The metrics collector (\<open>middleware/metrics.go\<close>): 64-bit counters and latency histograms created
  on first use, their exposition in Prometheus' text format, and the gRPC interceptors.
\<close>

section \<open>Latency histograms\<close>

text \<open>The bounds of the buckets, in milliseconds: the last bucket, without a bound, is \<open>+Inf\<close>.\<close>

definition DefaultBuckets :: "int list" where
  "DefaultBuckets = [1, 5, 10, 25, 50, 100, 250, 500, 1000, 2500, 5000, 10000]"

record histogram =
  h_count :: "64 word"
  h_sum :: "64 word"
  h_buckets :: "64 word list"

definition newLatencyHistogram :: histogram where
  "newLatencyHistogram =
     \<lparr>h_count = 0, h_sum = 0, h_buckets = replicate (length DefaultBuckets + 1) 0\<rparr>"

text \<open>The conversion of a \<open>float64\<close> to \<open>uint64\<close> drops the fraction.\<close>

definition go_uint64 :: "real \<Rightarrow> 64 word" where
  "go_uint64 x = word_of_int (if 0 \<le> x then \<lfloor>x\<rfloor> else \<lceil>x\<rceil>)"

text \<open>The loop over the bounds: the index of the first one that is not below the value.\<close>

fun bucket_index :: "int list \<Rightarrow> real \<Rightarrow> nat" where
  "bucket_index [] d = 0"
| "bucket_index (b # bs) d = (if d \<le> of_int b then 0 else Suc (bucket_index bs d))"

definition Observe :: "real \<Rightarrow> histogram \<Rightarrow> histogram" where
  "Observe durationMs h =
     (let h1 = h\<lparr>h_count := h_count h + 1\<rparr>;
          h2 = h1\<lparr>h_sum := h_sum h1 + go_uint64 (float64 (durationMs * 1000))\<rparr>;
          i = bucket_index DefaultBuckets durationMs
      in h2\<lparr>h_buckets := (h_buckets h2)[i := h_buckets h2 ! i + 1]\<rparr>)"

section \<open>The collector\<close>

record metrics =
  m_requestsTotal :: "string \<Rightarrow> 64 word option"
  m_requestsLatency :: "string \<Rightarrow> histogram option"
  m_errorsTotal :: "string \<Rightarrow> 64 word option"
  m_activeConnections :: "64 word"

definition NewMetrics :: metrics where
  "NewMetrics = \<lparr>m_requestsTotal = (\<lambda>_. None), m_requestsLatency = (\<lambda>_. None),
     m_errorsTotal = (\<lambda>_. None), m_activeConnections = 0\<rparr>"

text \<open>Counters and histograms are reached through pointers: an update is written under the key.\<close>

definition counter_create :: "unit \<Rightarrow> string \<Rightarrow> (string \<Rightarrow> 64 word option) \<Rightarrow> 64 word \<times> (string \<Rightarrow> 64 word option)" where
  "counter_create t key counters =
     (case counters key of Some c \<Rightarrow> (c, counters) | None \<Rightarrow> (0, counters(key \<mapsto> 0)))"

definition getCounter :: "string \<Rightarrow> (string \<Rightarrow> 64 word option) \<Rightarrow> 64 word \<times> (string \<Rightarrow> 64 word option)" where
  "getCounter key counters =
     (case counters key of Some c \<Rightarrow> (c, counters) | None \<Rightarrow> counter_create () key counters)"

definition histogram_create :: "unit \<Rightarrow> string \<Rightarrow> metrics \<Rightarrow> histogram \<times> metrics" where
  "histogram_create t key m =
     (case m_requestsLatency m key of
        Some h \<Rightarrow> (h, m)
      | None \<Rightarrow>
          (newLatencyHistogram,
           m\<lparr>m_requestsLatency := (m_requestsLatency m)(key \<mapsto> newLatencyHistogram)\<rparr>))"

definition getHistogram :: "string \<Rightarrow> metrics \<Rightarrow> histogram \<times> metrics" where
  "getHistogram key m =
     (case m_requestsLatency m key of Some h \<Rightarrow> (h, m) | None \<Rightarrow> histogram_create () key m)"

interpretation counters: double_checked "\<lambda>m. m" counter_create
  by unfold_locales (auto simp: counter_create_def split: option.splits)

interpretation histograms: double_checked m_requestsLatency histogram_create
  by unfold_locales (auto simp: histogram_create_def split: option.splits)

definition Milliseconds :: "duration \<Rightarrow> int" where
  "Milliseconds d = go_quot d millisecond"

definition RecordRequest :: "string \<Rightarrow> duration \<Rightarrow> bool \<Rightarrow> metrics \<Rightarrow> metrics" where
  "RecordRequest key d failed m =
     (let (c, reqs) = getCounter key (m_requestsTotal m);
          m1 = m\<lparr>m_requestsTotal := reqs(key \<mapsto> c + 1)\<rparr>;
          (h, m2) = getHistogram key m1;
          m3 = m2\<lparr>m_requestsLatency :=
                 (m_requestsLatency m2)(key \<mapsto> Observe (float64 (of_int (Milliseconds d))) h)\<rparr>
      in if failed
         then (let (e, errs) = getCounter key (m_errorsTotal m3) in m3\<lparr>m_errorsTotal := errs(key \<mapsto> e + 1)\<rparr>)
         else m3)"

definition ConnectionOpened :: "metrics \<Rightarrow> metrics" where
  "ConnectionOpened m = m\<lparr>m_activeConnections := m_activeConnections m + 1\<rparr>"

definition ConnectionClosed :: "metrics \<Rightarrow> metrics" where
  "ConnectionClosed m = m\<lparr>m_activeConnections := m_activeConnections m + (- 1)\<rparr>"

record metrics_stats =
  st_requests_total :: "string \<Rightarrow> 64 word option"
  st_errors_total :: "string \<Rightarrow> 64 word option"
  st_latency :: "string \<Rightarrow> (64 word \<times> real) option"  \<comment> \<open>\<open>count\<close> and \<open>avg_ms\<close>\<close>
  st_active_connections :: int

definition avg_ms :: "histogram \<Rightarrow> real" where
  "avg_ms h =
     (if h_count h > 0
      then float64 (float64 (float64 (of_int (uint (h_sum h))) / float64 (of_int (uint (h_count h)))) / 1000)
      else 0)"

definition GetStats :: "metrics \<Rightarrow> metrics_stats" where
  "GetStats m =
     \<lparr>st_requests_total = (\<lambda>k. map_option (\<lambda>c. c) (m_requestsTotal m k)),
      st_errors_total = (\<lambda>k. map_option (\<lambda>c. c) (m_errorsTotal m k)),
      st_latency = (\<lambda>k. map_option (\<lambda>h. (h_count h, avg_ms h)) (m_requestsLatency m k)),
      st_active_connections = sint (m_activeConnections m)\<rparr>"

section \<open>Prometheus' text format\<close>

definition nl :: string where "nl = [CHR 0x0A]"
definition dq :: string where "dq = [CHR 0x22]"

text \<open>\<open>strconv.FormatFloat(x, 'f', 3, 64)\<close> of a non-negative value: three decimals, rounded.\<close>

definition FormatFloat3 :: "real \<Rightarrow> string" where
  "FormatFloat3 x =
     (let n = round_even (x * 1000); f = itoa (n mod 1000)
      in itoa (n div 1000) @ ''.'' @ replicate (3 - length f) CHR ''0'' @ f)"

definition FormatUint :: "64 word \<Rightarrow> string" where
  "FormatUint c = itoa (uint c)"

text \<open>A range over a map visits its entries in an order \<open>ks\<close> of its keys the program does not choose.\<close>

definition prom_counters :: "string \<Rightarrow> (string \<times> 64 word) list \<Rightarrow> string" where
  "prom_counters name entries =
     concat (map (\<lambda>(key, c). name @ ''{method='' @ dq @ key @ dq @ ''} '' @ FormatUint c @ nl) entries)"

text \<open>The running totals of the buckets, in their order.\<close>

fun cumulative :: "64 word \<Rightarrow> 64 word list \<Rightarrow> 64 word list" where
  "cumulative acc [] = []"
| "cumulative acc (b # bs) = (acc + b) # cumulative (acc + b) bs"

definition prom_bucket :: "string \<Rightarrow> string \<Rightarrow> 64 word \<Rightarrow> string" where
  "prom_bucket key le c =
     ''grpc_request_duration_ms_bucket{method='' @ dq @ key @ dq @ '',le='' @ dq @ le @ dq @ ''} ''
     @ FormatUint c @ nl"

definition prom_histogram :: "string \<Rightarrow> histogram \<Rightarrow> string" where
  "prom_histogram key h =
     concat (map2 (prom_bucket key) (map itoa DefaultBuckets @ [''+Inf'']) (cumulative 0 (h_buckets h)))
     @ ''grpc_request_duration_ms_sum{method='' @ dq @ key @ dq @ ''} ''
     @ FormatFloat3 (float64 (float64 (of_int (uint (h_sum h))) / 1000)) @ nl
     @ ''grpc_request_duration_ms_count{method='' @ dq @ key @ dq @ ''} '' @ FormatUint (h_count h) @ nl"

definition ToPrometheusFormat :: "string list \<Rightarrow> string list \<Rightarrow> string list \<Rightarrow> metrics \<Rightarrow> string" where
  "ToPrometheusFormat ks1 ks2 ks3 m =
     ''# HELP grpc_requests_total Total number of gRPC requests'' @ nl
     @ ''# TYPE grpc_requests_total counter'' @ nl
     @ prom_counters ''grpc_requests_total'' (range_over ks1 (m_requestsTotal m))
     @ nl @ ''# HELP grpc_errors_total Total number of gRPC errors'' @ nl
     @ ''# TYPE grpc_errors_total counter'' @ nl
     @ prom_counters ''grpc_errors_total'' (range_over ks2 (m_errorsTotal m))
     @ nl @ ''# HELP grpc_request_duration_ms Request duration in milliseconds'' @ nl
     @ ''# TYPE grpc_request_duration_ms histogram'' @ nl
     @ concat (map (\<lambda>(k, h). prom_histogram k h) (range_over ks3 (m_requestsLatency m)))
     @ nl @ ''# HELP grpc_active_connections Number of active connections'' @ nl
     @ ''# TYPE grpc_active_connections gauge'' @ nl
     @ ''grpc_active_connections '' @ itoa (sint (m_activeConnections m)) @ nl"

section \<open>The gRPC interceptors\<close>

definition UnaryServerMetrics ::
    "time \<times> time \<Rightarrow> string \<Rightarrow> ('req, 'resp, 'e, 'w) unary_handler \<Rightarrow> 'req \<Rightarrow> metrics \<Rightarrow> 'w \<Rightarrow>
     ('resp option \<times> 'e option) \<times> metrics \<times> 'w" where
  "UnaryServerMetrics ts FullMethod handler req m w =
     (let (start, stop) = ts; ((resp, err), w') = handler req w
      in ((resp, err), RecordRequest FullMethod (stop - start) (err \<noteq> None) m, w'))"

definition StreamServerMetrics ::
    "time \<times> time \<Rightarrow> string \<Rightarrow> ('e, 'w) invoker \<Rightarrow> metrics \<Rightarrow> 'w \<Rightarrow> 'e option \<times> metrics \<times> 'w" where
  "StreamServerMetrics ts FullMethod handler m w =
     (let (start, stop) = ts; (err, w') = handler w
      in (err, RecordRequest FullMethod (stop - start) (err \<noteq> None) m, w'))"

definition UnaryClientMetrics ::
    "time \<times> time \<Rightarrow> string \<Rightarrow> ('e, 'w) invoker \<Rightarrow> metrics \<Rightarrow> 'w \<Rightarrow> 'e option \<times> metrics \<times> 'w" where
  "UnaryClientMetrics ts key invoker m w =
     (let (start, stop) = ts; (err, w') = invoker w
      in (err, RecordRequest key (stop - start) (err \<noteq> None) m, w'))"

definition GRPCCodeFromError :: "'e from_error \<Rightarrow> (grpc_code \<Rightarrow> string) \<Rightarrow> 'e option \<Rightarrow> string" where
  "GRPCCodeFromError FromError CodeString err =
     (case err of
        None \<Rightarrow> ''OK''
      | Some e \<Rightarrow> (case FromError e of None \<Rightarrow> ''Unknown'' | Some code \<Rightarrow> CodeString code))"

section \<open>Histograms\<close>

lemma bucket_index_le:
  "sorted bs \<Longrightarrow> i < length bs \<Longrightarrow> bucket_index bs d \<le> i \<longleftrightarrow> d \<le> of_int (bs ! i)"
proof (induction bs arbitrary: i)
  case (Cons b bs)
  show ?case
  proof (cases i)
    case (Suc j)
    have "b \<le> bs ! j" using Cons.prems Suc by simp
    then have "d \<le> of_int b \<Longrightarrow> d \<le> of_int (bs ! j)" by (meson of_int_le_iff order_trans)
    then show ?thesis using Cons Suc by auto
  qed simp
qed simp

lemma bucket_index_length: "bucket_index bs d \<le> length bs"
  by (induction bs) auto

lemma cumulative_upt:
  "cumulative acc (map f [a..<a + n]) = map (\<lambda>i. acc + sum f {a..i}) [a..<a + n]"
proof (induction n arbitrary: acc a)
  case (Suc n)
  have "[a..<a + Suc n] = a # [Suc a..<Suc a + n]" by (simp add: upt_conv_Cons)
  moreover have split: "sum f {a..i} = f a + sum f {Suc a..i}" if "Suc a \<le> i" for i
    using that by (simp add: sum.atLeast_Suc_atMost)
  have "map (\<lambda>i. acc + f a + sum f {Suc a..i}) [Suc a..<Suc a + n] =
      map (\<lambda>i. acc + sum f {a..i}) [Suc a..<Suc a + n]"
    by (rule map_cong) (auto simp: split add.assoc simp del: upt_Suc)
  ultimately show ?case using Suc.IH [of "acc + f a" "Suc a"] by (simp del: upt_Suc)
qed simp

text \<open>The number of observed values in one bucket.\<close>

abbreviation in_bucket :: "real list \<Rightarrow> nat \<Rightarrow> nat" where
  "in_bucket ds i \<equiv> length (filter (\<lambda>d. bucket_index DefaultBuckets d = i) ds)"

lemma length_DefaultBuckets [simp]: "length DefaultBuckets = 12"
  by (simp add: DefaultBuckets_def)

lemma sorted_DefaultBuckets [simp]: "sorted DefaultBuckets"
  by (simp add: DefaultBuckets_def)

lemma observed_count: "h_count (fold Observe ds h) = h_count h + of_nat (length ds)"
  by (induction ds arbitrary: h) (simp_all add: Observe_def Let_def)

lemma observed_buckets:
  "length (h_buckets h) = 13 \<Longrightarrow>
   h_buckets (fold Observe ds h) = map (\<lambda>i. h_buckets h ! i + of_nat (in_bucket ds i)) [0..<13]"
proof (induction ds arbitrary: h)
  case Nil
  then show ?case using map_nth [of "h_buckets h"] by simp
next
  case (Cons d ds)
  have i: "bucket_index DefaultBuckets d < 13" using bucket_index_length [of DefaultBuckets d] by simp
  have "h_buckets (Observe d h) ! j =
      h_buckets h ! j + (if bucket_index DefaultBuckets d = j then 1 else 0)" if "j < 13" for j
    using that i Cons.prems by (simp add: Observe_def Let_def nth_list_update)
  moreover have "length (h_buckets (Observe d h)) = 13" using Cons.prems by (simp add: Observe_def Let_def)
  ultimately show ?case using Cons.IH [of "Observe d h"] by (auto simp: algebra_simps)
qed

lemma in_bucket_sum:
  "(\<Sum>j\<in>{0..i}. in_bucket ds j) = length (filter (\<lambda>d. bucket_index DefaultBuckets d \<le> i) ds)"
proof (induction ds)
  case (Cons d ds)
  have "(\<Sum>j\<in>{0..i}. in_bucket (d # ds) j) =
      (\<Sum>j\<in>{0..i}. (if bucket_index DefaultBuckets d = j then 1 else 0) + in_bucket ds j)"
    by (rule sum.cong) auto
  with Cons.IH show ?case by (simp add: sum.distrib)
qed simp

text \<open>
  After any sequence of observations, the exposed running totals of a histogram's buckets are,
  for each bound, the number of observed values not above it, and for \<open>+Inf\<close> the number of all of
  them, which is the histogram's count (all modulo \<open>2^64\<close>, at which the counters wrap).
\<close>

theorem histogram_cumulative:
  "cumulative 0 (h_buckets (fold Observe ds newLatencyHistogram)) =
     map (\<lambda>b. of_nat (length (filter (\<lambda>d. d \<le> of_int b) ds))) DefaultBuckets
       @ [h_count (fold Observe ds newLatencyHistogram)]"
proof -
  have new: "h_buckets newLatencyHistogram ! i = 0" if "i < 13" for i
    using that by (simp add: newLatencyHistogram_def del: replicate_Suc)
  have "h_buckets (fold Observe ds newLatencyHistogram) = map (\<lambda>i. of_nat (in_bucket ds i)) [0..<0 + 13]"
    using observed_buckets [of newLatencyHistogram ds] new by (simp add: newLatencyHistogram_def)
  then have "cumulative 0 (h_buckets (fold Observe ds newLatencyHistogram)) =
      map (\<lambda>i. of_nat (length (filter (\<lambda>d. bucket_index DefaultBuckets d \<le> i) ds))) [0..<13]"
    using cumulative_upt [of 0 "\<lambda>i. of_nat (in_bucket ds i)" 0 13]
    by (simp add: in_bucket_sum flip: of_nat_sum del: upt_rec_numeral)
  also have "\<dots> = map (\<lambda>i. of_nat (length (filter (\<lambda>d. bucket_index DefaultBuckets d \<le> i) ds))) [0..<12]
      @ [of_nat (length (filter (\<lambda>d. bucket_index DefaultBuckets d \<le> 12) ds))]"
    using upt_Suc_append [of 0 12] by (simp del: upt_rec_numeral)
  also have "map (\<lambda>i. of_nat (length (filter (\<lambda>d. bucket_index DefaultBuckets d \<le> i) ds))) [0..<12] =
      map (\<lambda>b. of_nat (length (filter (\<lambda>d. d \<le> of_int b) ds)) :: 64 word) DefaultBuckets"
    by (rule nth_equalityI) (simp_all add: bucket_index_le del: upt_rec_numeral)
  also have "filter (\<lambda>d. bucket_index DefaultBuckets d \<le> 12) ds = ds"
    using bucket_index_length [of DefaultBuckets] by (simp add: filter_id_conv)
  finally show ?thesis by (simp add: observed_count newLatencyHistogram_def)
qed

section \<open>Counting\<close>

lemma getCounter_value: "fst (getCounter k c) = (case c k of Some v \<Rightarrow> v | None \<Rightarrow> 0)"
  by (simp add: getCounter_def counter_create_def split: option.splits)

lemma getCounter_map: "(snd (getCounter k c))(k \<mapsto> v) = c(k \<mapsto> v)"
  by (simp add: getCounter_def counter_create_def split: option.splits)

lemma getHistogram_value:
  "fst (getHistogram k m) = (case m_requestsLatency m k of Some h \<Rightarrow> h | None \<Rightarrow> newLatencyHistogram)"
  by (simp add: getHistogram_def histogram_create_def split: option.splits)

lemma getHistogram_map:
  "(snd (getHistogram k m))\<lparr>m_requestsLatency := (m_requestsLatency (snd (getHistogram k m)))(k \<mapsto> h)\<rparr> =
     m\<lparr>m_requestsLatency := (m_requestsLatency m)(k \<mapsto> h)\<rparr>"
  by (simp add: getHistogram_def histogram_create_def split: option.splits)

text \<open>What one call of \<open>RecordRequest\<close> does, the creation of counters out of the way.\<close>

definition or_new :: "'v \<Rightarrow> 'v option \<Rightarrow> 'v" where
  "or_new v ov = (case ov of Some u \<Rightarrow> u | None \<Rightarrow> v)"

lemma RecordRequest_fields:
  "m_requestsTotal (RecordRequest k d f m) = (m_requestsTotal m)(k \<mapsto> or_new 0 (m_requestsTotal m k) + 1)"
  "m_requestsLatency (RecordRequest k d f m) = (m_requestsLatency m)
     (k \<mapsto> Observe (float64 (of_int (Milliseconds d))) (or_new newLatencyHistogram (m_requestsLatency m k)))"
  "m_errorsTotal (RecordRequest k d f m) =
     (if f then (m_errorsTotal m)(k \<mapsto> or_new 0 (m_errorsTotal m k) + 1) else m_errorsTotal m)"
  by (simp_all add: RecordRequest_def Let_def case_prod_unfold getCounter_value getCounter_map
      getHistogram_value getHistogram_map or_new_def)

definition record_all :: "(string \<times> duration \<times> bool) list \<Rightarrow> metrics \<Rightarrow> metrics" where
  "record_all rs m = fold (\<lambda>(k, d, f). RecordRequest k d f) rs m"

definition counted :: "nat \<Rightarrow> 64 word option" where
  "counted n = (if n = 0 then None else Some (of_nat n))"

lemma counted_Suc: "or_new 0 (counted n) + 1 = of_nat (Suc n)"
  by (simp add: counted_def or_new_def)

lemma record_all_snoc: "record_all (rs @ [(k, d, f)]) m = RecordRequest k d f (record_all rs m)"
  by (simp add: record_all_def)

text \<open>
  C37: A new collector that has recorded the requests \<open>rs\<close> counts, for every method, its requests
  and its failed requests, and has observed exactly the durations of its requests, in milliseconds.
\<close>

theorem metrics_record_exact:
  "let m = record_all rs NewMetrics; mine = filter (\<lambda>(k', d, f). k' = k) rs
   in m_requestsTotal m k = counted (length mine) \<and>
      m_errorsTotal m k = counted (length (filter (\<lambda>(k', d, f). f) mine)) \<and>
      m_requestsLatency m k =
        (if mine = [] then None
         else Some (fold Observe (map (\<lambda>(k', d, f). float64 (of_int (Milliseconds d))) mine) newLatencyHistogram))"
proof (induction rs rule: rev_induct)
  case Nil
  then show ?case by (simp add: record_all_def NewMetrics_def counted_def)
next
  case (snoc r rs)
  obtain k' d f where r: "r = (k', d, f)" by (cases r) auto
  show ?case
    using snoc.IH unfolding r record_all_snoc Let_def RecordRequest_fields
    by (auto simp: counted_Suc counted_def or_new_def)
qed

section \<open>The exposition\<close>

text \<open>
  Label values are written without escaping.  A method name that contains a quote and a line
  break (an HTTP path may, once decoded) exposes one counter as two: the line of a counter that
  does not exist is read from it.
\<close>

theorem prometheus_label_injection:
  "prom_counters name [(a @ dq @ ''} 1'' @ nl @ name @ ''{method='' @ dq @ b, 1)] =
     prom_counters name [(a, 1), (b, 1)]"
  by (simp add: prom_counters_def FormatUint_def itoa_def format_base.simps digit_chars_def)

end
