(* ===== verification/HttpMiddleware.thy ===== *)
theory HttpMiddleware
  imports HttpBase CircuitBreaker RateLimiter Metrics
begin

text \<open>
  The HTTP middlewares (\<open>middleware/http.go\<close>).  Limiters, breakers and collectors are shared
  through pointers: the world is a store of them, and a middleware is closed over an index of it.
  The clock is the sequence of the readings the program makes.
\<close>

record 'u mw_world =
  mw_limiter :: "nat \<Rightarrow> limiter"
  mw_breaker :: "nat \<Rightarrow> breaker"
  mw_metrics :: "nat \<Rightarrow> metrics"
  mw_clock :: "nat \<Rightarrow> time"
  mw_ticks :: nat
  mw_user :: 'u

type_synonym 'u mw_state = "'u mw_world http_state"
type_synonym 'u mw_handler = "'u mw_world http_handler"

definition in_world :: "('w \<Rightarrow> 'a \<times> 'w) \<Rightarrow> ('w, 'a) http_eff" where
  "in_world f s = (let (a, w) = f (ht_world s) in (Ret a, s\<lparr>ht_world := w\<rparr>))"

definition time_Now :: "('u mw_world, time) http_eff" where
  "time_Now = in_world (\<lambda>w. (mw_clock w (mw_ticks w), w\<lparr>mw_ticks := mw_ticks w + 1\<rparr>))"

section \<open>Rate limiting\<close>

definition HTTPRateLimiter :: "nat \<Rightarrow> 'u mw_handler \<Rightarrow> 'u mw_handler" where
  "HTTPRateLimiter l next r =
     eff_bind time_Now (\<lambda>now. eff_bind
       (in_world (\<lambda>w. let (ok, lim) = rl_Allow float64 now (mw_limiter w l)
                      in (ok, w\<lparr>mw_limiter := (mw_limiter w)(l := lim)\<rparr>)))
       (\<lambda>ok. if \<not> ok then http_Error ''Rate limit exceeded'' 429 else next r))"

section \<open>The wrapper that records the status code\<close>

text \<open>
  The function that made the wrapper reads its \<open>statusCode\<close> when \<open>next\<close> returns; a panic leaves the
  function, and the wrapper with it.
\<close>

definition push_status :: "'w http_state \<Rightarrow> 'w http_state" where
  "push_status s = s\<lparr>ht_codes := ht_codes s @ [200]\<rparr>"

definition pop_status :: "'w http_state \<Rightarrow> 'w http_state" where
  "pop_status s = s\<lparr>ht_codes := butlast (ht_codes s)\<rparr>"

definition with_status :: "'w http_handler \<Rightarrow> http_request \<Rightarrow> ('w, int) http_eff" where
  "with_status next r s =
     (case next r (push_status s) of
        (Ret _, s') \<Rightarrow> (Ret (last (ht_codes s')), pop_status s')
      | (Panicked p, s') \<Rightarrow> (Panicked p, pop_status s'))"

section \<open>Circuit breaking\<close>

definition on_breaker :: "nat \<Rightarrow> (breaker \<Rightarrow> 'a \<times> breaker) \<Rightarrow> ('u mw_world, 'a) http_eff" where
  "on_breaker b f = in_world (\<lambda>w. let (a, cb) = f (mw_breaker w b) in (a, w\<lparr>mw_breaker := (mw_breaker w)(b := cb)\<rparr>))"

definition HTTPCircuitBreaker :: "nat \<Rightarrow> 'u mw_handler \<Rightarrow> 'u mw_handler" where
  "HTTPCircuitBreaker b next r =
     eff_bind time_Now (\<lambda>t. eff_bind time_Now (\<lambda>t'. eff_bind (on_breaker b (cb_Allow t t')) (\<lambda>ok.
       if \<not> ok then http_Error ''Service temporarily unavailable'' 503
       else eff_bind (with_status next r) (\<lambda>code. eff_bind time_Now (\<lambda>t''.
         on_breaker b (\<lambda>cb. ((), if code \<ge> 500 then cb_RecordFailure t'' cb else cb_RecordSuccess t'' cb)))))))"

section \<open>Metrics\<close>

definition HTTPMetrics :: "nat \<Rightarrow> 'u mw_handler \<Rightarrow> 'u mw_handler" where
  "HTTPMetrics i next r =
     eff_bind time_Now (\<lambda>start. eff_bind (with_status next r) (\<lambda>code. eff_bind time_Now (\<lambda>stop.
       in_world (\<lambda>w. ((), w\<lparr>mw_metrics := (mw_metrics w)
         (i := RecordRequest (rq_method r @ '' '' @ rq_path r) (stop - start) (code \<ge> 400) (mw_metrics w i))\<rparr>)))))"

section \<open>Cross-origin requests\<close>

definition joinStrings :: "string list \<Rightarrow> string" where
  "joinStrings strs = (case strs of [] \<Rightarrow> [] | s # ss \<Rightarrow> foldl (\<lambda>result s. result @ '', '' @ s) s ss)"

fun origin_allowed :: "string list \<Rightarrow> string \<Rightarrow> bool" where
  "origin_allowed [] origin = False"
| "origin_allowed (o1 # os) origin = (if o1 = ''*'' \<or> o1 = origin then True else origin_allowed os origin)"

definition CORS :: "string list \<Rightarrow> string list \<Rightarrow> string list \<Rightarrow> 'w http_handler \<Rightarrow> 'w http_handler" where
  "CORS allowedOrigins allowedMethods allowedHeaders next r s =
     (let origin = rq_Get ''Origin'' r;
          s1 = (if origin_allowed allowedOrigins origin
                then header_Set ''Access-Control-Allow-Credentials'' ''true''
                       (header_Set ''Access-Control-Allow-Headers'' (joinStrings allowedHeaders)
                         (header_Set ''Access-Control-Allow-Methods'' (joinStrings allowedMethods)
                           (header_Set ''Access-Control-Allow-Origin'' origin s)))
                else s)
      in if rq_method r = ''OPTIONS'' then WriteHeader 204 s1 else next r s1)"

section \<open>Recovery and request identifiers\<close>

definition Recovery :: "'w http_handler \<Rightarrow> 'w http_handler" where
  "Recovery next r = eff_recover (\<lambda>_. http_Error ''Internal Server Error'' 500) (next r)"

definition RequestID :: "('w \<Rightarrow> string \<times> 'w) \<Rightarrow> 'w http_handler \<Rightarrow> 'w http_handler" where
  "RequestID generator next r =
     (let requestID = rq_Get ''X-Request-ID'' r
      in eff_bind (if requestID = [] then in_world generator else eff_ret requestID)
           (\<lambda>i s. next r (header_Set ''X-Request-ID'' i s)))"

section \<open>Facts\<close>

lemma foldl_join: "foldl (\<lambda>result s. result @ sep @ s) a ss = a @ concat (map (\<lambda>s. sep @ s) ss)"
  by (induction ss arbitrary: a) simp_all

lemma join_with_concat: "join_with sep (s # ss) = s @ concat (map (\<lambda>s. sep @ s) ss)"
  by (induction ss arbitrary: s) simp_all

lemma joinStrings_join: "joinStrings strs = join_with '', '' strs"
  by (cases strs) (simp_all only: joinStrings_def foldl_join join_with_concat list.case join_with.simps)

lemma origin_allowed_iff: "origin_allowed os origin \<longleftrightarrow> ''*'' \<in> set os \<or> origin \<in> set os"
  by (induction os) auto

text \<open>A handler that panics without touching anything, and one that answers with given codes.\<close>

definition panicking :: "string \<Rightarrow> 'w http_handler" where
  "panicking p r s = (Panicked p, s)"

fun writes_codes :: "int list \<Rightarrow> 'w http_handler" where
  "writes_codes [] r = eff_ret ()"
| "writes_codes (c # cs) r = eff_bind (WriteHeader c) (\<lambda>_. writes_codes cs r)"

lemma time_Now_fields:
  "time_Now s = (Ret (mw_clock (ht_world s) (mw_ticks (ht_world s))),
     s\<lparr>ht_world := (ht_world s)\<lparr>mw_ticks := mw_ticks (ht_world s) + 1\<rparr>\<rparr>)"
  by (simp add: time_Now_def in_world_def)

lemma writes_codes_late:
  "sent s = Some c \<Longrightarrow> writes_codes cs r s =
     (Ret (), s\<lparr>ht_codes := (if cs = [] then ht_codes s else map (\<lambda>_. last cs) (ht_codes s))\<rparr>)"
proof (induction cs arbitrary: s)
  case Nil
  then show ?case by (simp add: eff_ret_def)
next
  case (Cons d cs)
  have "sent (s\<lparr>ht_codes := map (\<lambda>_. d) (ht_codes s)\<rparr>) = Some c" using Cons.prems by (simp add: sent_def)
  note rest = Cons.IH [OF this]
  have "writes_codes (d # cs) r s = writes_codes cs r (s\<lparr>ht_codes := map (\<lambda>_. d) (ht_codes s)\<rparr>)"
    by (simp add: eff_bind_def WriteHeader_late [OF Cons.prems])
  then show ?case unfolding rest by (cases s) (simp add: comp_def)
qed

lemma with_status_writes:
  assumes "sent s = None" and "final_code c"
  shows "\<exists>s'. with_status (writes_codes (c # cs)) r s = (Ret (last (c # cs)), s') \<and> sent s' = Some c"
proof -
  define s1 where "s1 = (push_status s)\<lparr>ht_codes := map (\<lambda>_. c) (ht_codes (push_status s)),
      ht_resp := (ht_resp (push_status s))\<lparr>rs_status := Some c, rs_sent := rs_header (ht_resp (push_status s))\<rparr>\<rparr>"
  have "sent (push_status s) = None" using assms(1) by (simp add: push_status_def sent_def)
  from WriteHeader_first [OF this assms(2)]
  have one: "WriteHeader c (push_status s) = (Ret (), s1)" by (simp only: s1_def)
  have sent1: "sent s1 = Some c" by (simp add: s1_def sent_def)
  have "writes_codes (c # cs) r (push_status s) = writes_codes cs r s1"
    by (simp add: eff_bind_def one)
  moreover note writes_codes_late [OF sent1, of cs r]
  moreover have "last (ht_codes s1) = c" by (simp add: s1_def push_status_def)
  moreover have "ht_codes s1 \<noteq> []" by (simp add: s1_def push_status_def)
  ultimately show ?thesis
    using sent1 by (simp add: with_status_def pop_status_def sent_def last_map)
qed

text \<open>A world with fresh limiters, breakers and collectors.\<close>

definition fresh_world :: "unit mw_world" where
  "fresh_world = \<lparr>mw_limiter = (\<lambda>_. NewRateLimiter float64 0 1 1),
     mw_breaker = (\<lambda>_. NewCircuitBreaker DefaultCircuitBreakerConfig 0), mw_metrics = (\<lambda>_. NewMetrics),
     mw_clock = int, mw_ticks = 0, mw_user = ()\<rparr>"

section \<open>Properties\<close>

text \<open>
  The status code the breaker and the metrics judge a response by is the last code the
  handler wrote, while the client is sent the first one: a second, ignored \<open>WriteHeader\<close>
  overwrites the recorded code.
\<close>

theorem status_recorded_is_last:
  assumes "sent s = None" and "final_code c"
  shows "\<exists>s'. with_status (writes_codes (c # cs)) r s = (Ret (last (c # cs)), s') \<and> sent s' = Some c"
  using assms by (rule with_status_writes)

theorem status_recorded_is_last_witness:
  "\<exists>s'. with_status (writes_codes [200, 500]) (bare_request ''GET'' ''/'') (fresh_state ()) = (Ret 500, s') \<and> sent s' = Some 200"
  using status_recorded_is_last [of "fresh_state ()" 200 "[500]" "bare_request ''GET'' ''/''"]
  by (simp add: fresh_state_def sent_def new_response_def final_code_def valid_code_def informational_def)

lemma breaker_panic:
  "let w = ht_world s; al = cb_Allow (mw_clock w (mw_ticks w)) (mw_clock w (mw_ticks w + 1)) (mw_breaker w b);
       out = HTTPCircuitBreaker b (panicking p) r s
   in fst al \<longrightarrow> fst out = Panicked p \<and> mw_breaker (ht_world (snd out)) b = snd al"
  by (simp add: Let_def HTTPCircuitBreaker_def eff_bind_def time_Now_fields on_breaker_def in_world_def
      with_status_def panicking_def pop_status_def push_status_def case_prod_unfold)

text \<open>
  Requests whose handler panics are neither successes nor failures for the HTTP circuit
  breaker: however many of them there are, a closed breaker is left exactly as it was, its failure
  counter included.
\<close>

theorem http_breaker_ignores_panics:
  assumes "cb_state (mw_breaker (ht_world s) b) = StateClosed"
  shows "mw_breaker (ht_world (((\<lambda>s. snd (HTTPCircuitBreaker b (panicking p) r s)) ^^ n) s)) b =
     mw_breaker (ht_world s) b"
proof (induction n)
  case (Suc n)
  define s' where "s' = ((\<lambda>s. snd (HTTPCircuitBreaker b (panicking p) r s)) ^^ n) s"
  have "cb_Allow t t' (mw_breaker (ht_world s') b) = (True, mw_breaker (ht_world s) b)" for t t'
    using Suc.IH assms by (simp add: s'_def cb_Allow_def)
  then show ?case using breaker_panic [of s' b p r] by (simp add: Let_def s'_def [symmetric])
qed simp

theorem http_breaker_ignores_panics_witness:
  "mw_breaker (ht_world (((\<lambda>s. snd (HTTPCircuitBreaker 0 (panicking ''nil map'') (bare_request ''GET'' ''/'') s)) ^^ 100)
     (fresh_state fresh_world))) 0 = NewCircuitBreaker DefaultCircuitBreakerConfig 0"
  by (subst http_breaker_ignores_panics) (simp_all add: fresh_state_def fresh_world_def NewCircuitBreaker_def)

text \<open>
  With the wildcard among the allowed origins, a response to a request of any origin names
  that origin and allows credentials; a preflight request is answered 204 and never reaches the
  handler.
\<close>

theorem cors_wildcard_reflects:
  assumes "''*'' \<in> set origins" and "rq_method r = ''OPTIONS''" and "sent s = None"
  shows "\<exists>s'. CORS origins ms hs next r s = (Ret (), s') \<and> sent s' = Some 204 \<and> ht_world s' = ht_world s \<and>
     rs_sent (ht_resp s') ''Access-Control-Allow-Origin'' = Some (rq_Get ''Origin'' r) \<and>
     rs_sent (ht_resp s') ''Access-Control-Allow-Credentials'' = Some ''true''"
proof -
  have keys: "canonical_key ''Access-Control-Allow-Origin'' = ''Access-Control-Allow-Origin''"
    "canonical_key ''Access-Control-Allow-Methods'' = ''Access-Control-Allow-Methods''"
    "canonical_key ''Access-Control-Allow-Headers'' = ''Access-Control-Allow-Headers''"
    "canonical_key ''Access-Control-Allow-Credentials'' = ''Access-Control-Allow-Credentials''"
    by code_simp+
  define s1 where "s1 = header_Set ''Access-Control-Allow-Credentials'' ''true''
      (header_Set ''Access-Control-Allow-Headers'' (joinStrings hs)
        (header_Set ''Access-Control-Allow-Methods'' (joinStrings ms)
          (header_Set ''Access-Control-Allow-Origin'' (rq_Get ''Origin'' r) s)))"
  have "CORS origins ms hs next r s = WriteHeader 204 s1"
    using assms by (simp add: CORS_def Let_def origin_allowed_iff s1_def)
  moreover have "sent s1 = None" using assms by (simp add: s1_def)
  ultimately show ?thesis
    using WriteHeader_first [of s1 204]
    by (simp add: final_code_def valid_code_def informational_def sent_def)
      (simp add: s1_def keys)
qed

theorem cors_wildcard_reflects_witness:
  "\<exists>s'. CORS [''*''] [''GET''] [] (panicking []) (bare_request ''OPTIONS'' ''/'') (fresh_state ()) = (Ret (), s') \<and>
     sent s' = Some 204"
  using cors_wildcard_reflects [of "[''*'']" "bare_request ''OPTIONS'' ''/''" "fresh_state ()" "[''GET'']" "[]"
      "panicking []"]
  by (auto simp: bare_request_def fresh_state_def new_response_def sent_def)


section \<open>A breaker in front of a failing handler\<close>

text \<open>Requests served one after the other, each on a connection of its own.\<close>

definition serve_requests :: "'w http_handler \<Rightarrow> http_request list \<Rightarrow> 'w \<Rightarrow> 'w" where
  "serve_requests h rs w = fold (\<lambda>r w. ht_world (snd (h r (fresh_state w)))) rs w"

lemma serve_requests_simps [simp]:
  "serve_requests h [] w = w"
  "serve_requests h (r # rs) w = serve_requests h rs (ht_world (snd (h r (fresh_state w))))"
  "serve_requests h (rs @ rs') w = serve_requests h rs' (serve_requests h rs w)"
  by (simp_all add: serve_requests_def)

text \<open>
  A handler that answers every request with a code of at least 500: it may do anything to the rest of the
  program, but does not use the breaker \<open>b\<close> itself.
\<close>

definition answers_500 :: "nat \<Rightarrow> 'u mw_handler \<Rightarrow> bool" where
  "answers_500 b h \<longleftrightarrow> (\<forall>r w. \<exists>c s'. with_status h r (fresh_state w) = (Ret c, s') \<and> 500 \<le> c \<and>
     mw_breaker (ht_world s') b = mw_breaker w b \<and> mw_clock (ht_world s') = mw_clock w)"

lemma fresh_state_world [simp]: "(fresh_state w)\<lparr>ht_world := v\<rparr> = fresh_state v"
  by (simp add: fresh_state_def)

lemma ht_world_fresh [simp]: "ht_world (fresh_state w) = w"
  by (simp add: fresh_state_def)

text \<open>
  The handler was run on the request, in the world that the breaker's two readings of the clock leave, and its
  answer and its effects on the rest of the program are what came out.
\<close>

definition answered_by_handler :: "nat \<Rightarrow> 'u mw_handler \<Rightarrow> http_request \<Rightarrow> 'u mw_world \<Rightarrow> bool" where
  "answered_by_handler b h r w \<longleftrightarrow>
     (let out = snd (HTTPCircuitBreaker b h r (fresh_state w));
          ran = snd (with_status h r (fresh_state (w\<lparr>mw_ticks := mw_ticks w + 2\<rparr>)))
      in ht_resp out = ht_resp ran \<and> mw_user (ht_world out) = mw_user (ht_world ran))"

lemma breaker_admits:
  assumes "answers_500 b h" and "cb_state (mw_breaker w b) = StateClosed"
  shows "\<exists>i. mw_breaker (ht_world (snd (HTTPCircuitBreaker b h r (fresh_state w)))) b =
       cb_RecordFailure (mw_clock w i) (mw_breaker w b) \<and>
     mw_clock (ht_world (snd (HTTPCircuitBreaker b h r (fresh_state w)))) = mw_clock w \<and>
     answered_by_handler b h r w"
proof -
  define w2 where "w2 = w\<lparr>mw_ticks := mw_ticks w + 2, mw_breaker := (mw_breaker w)(b := mw_breaker w b)\<rparr>"
  obtain c s' where h: "with_status h r (fresh_state w2) = (Ret c, s')" "500 \<le> c"
    "mw_breaker (ht_world s') b = mw_breaker w2 b" "mw_clock (ht_world s') = mw_clock w2"
    using assms(1) unfolding answers_500_def by blast
  have "HTTPCircuitBreaker b h r (fresh_state w) =
      eff_bind (with_status h r) (\<lambda>code. eff_bind time_Now (\<lambda>t''. on_breaker b
        (\<lambda>cb. ((), if code \<ge> 500 then cb_RecordFailure t'' cb else cb_RecordSuccess t'' cb)))) (fresh_state w2)"
    using assms(2) by (simp add: HTTPCircuitBreaker_def eff_bind_def time_Now_fields on_breaker_def in_world_def
        cb_Allow_def w2_def numeral_2_eq_2)
  moreover have "w\<lparr>mw_ticks := mw_ticks w + 2\<rparr> = w2" by (simp add: w2_def)
  ultimately show ?thesis using h unfolding answered_by_handler_def
    by (simp add: eff_bind_def time_Now_fields on_breaker_def in_world_def w2_def sent_def) blast
qed

lemma breaker_sheds:
  fixes h :: "'u mw_handler" and r
  assumes "cb_state (mw_breaker w b) = StateOpen"
    and "\<forall>i. mw_clock w i - cb_lastStateChange (mw_breaker w b) < cc_Timeout (cb_config (mw_breaker w b))"
  defines "s \<equiv> snd (HTTPCircuitBreaker b h r (fresh_state w))"
  shows "sent s = Some 503 \<and> ht_world s = w\<lparr>mw_ticks := mw_ticks w + 2\<rparr>"
proof -
  have fresh: "sent (fresh_state v) = None" for v :: "'u mw_world"
    by (simp add: fresh_state_def sent_def new_response_def)
  have "final_code 503" "body_allowed 503"
    by (simp_all add: final_code_def valid_code_def informational_def body_allowed_def)
  note err = http_Error_first [OF fresh this]
  have "HTTPCircuitBreaker b h r (fresh_state w) =
      http_Error ''Service temporarily unavailable'' 503 (fresh_state (w\<lparr>mw_ticks := mw_ticks w + 2\<rparr>))"
    using assms(1) spec [OF assms(2), of "mw_ticks w"]
    by (simp add: HTTPCircuitBreaker_def eff_bind_def time_Now_fields on_breaker_def in_world_def cb_Allow_def
        numeral_2_eq_2)
  then show ?thesis unfolding s_def using err [of "''Service temporarily unavailable''" "w\<lparr>mw_ticks := mw_ticks w + 2\<rparr>"]
    by auto
qed

lemma breaker_counts:
  fixes h :: "'u mw_handler" and rs
  assumes "answers_500 b h" and "mw_breaker w b = NewCircuitBreaker cfg t0" and "cc_FailureThreshold cfg = int n"
    and "length rs \<le> n" and "0 < n"
  defines "w' \<equiv> serve_requests (HTTPCircuitBreaker b h) rs w"
  shows "mw_clock w' = mw_clock w \<and> cb_config (mw_breaker w' b) = cfg \<and>
     (if length rs < n then cb_state (mw_breaker w' b) = StateClosed \<and> cb_failures (mw_breaker w' b) = int (length rs)
      else cb_state (mw_breaker w' b) = StateOpen \<and> (\<exists>i. cb_lastStateChange (mw_breaker w' b) = mw_clock w i))"
  using assms(4) unfolding w'_def
proof (induction rs rule: rev_induct)
  case Nil
  then show ?case using assms(2,5) by (simp add: NewCircuitBreaker_def)
next
  case (snoc r rs)
  let ?v = "serve_requests (HTTPCircuitBreaker b h) rs w"
  from snoc have IH: "mw_clock ?v = mw_clock w" "cb_config (mw_breaker ?v b) = cfg"
    "cb_state (mw_breaker ?v b) = StateClosed" "cb_failures (mw_breaker ?v b) = int (length rs)" by simp_all
  from breaker_admits [OF assms(1) IH(3), of r] obtain i where
    "mw_breaker (serve_requests (HTTPCircuitBreaker b h) (rs @ [r]) w) b = cb_RecordFailure (mw_clock w i) (mw_breaker ?v b)"
    "mw_clock (serve_requests (HTTPCircuitBreaker b h) (rs @ [r]) w) = mw_clock w"
    using IH(1) by auto
  then show ?case using IH snoc.prems assms(3) by (auto simp: cb_RecordFailure_def cb_setState_def Let_def)
qed

lemma breaker_keeps_shedding:
  assumes "cb_state (mw_breaker w b) = StateOpen"
    and "\<forall>i. mw_clock w i - cb_lastStateChange (mw_breaker w b) < cc_Timeout (cb_config (mw_breaker w b))"
  shows "\<exists>k. serve_requests (HTTPCircuitBreaker b h) rs w = w\<lparr>mw_ticks := k\<rparr>"
  using assms
proof (induction rs arbitrary: w)
  case Nil
  then show ?case by (intro exI [of _ "mw_ticks w"]) simp
next
  case (Cons r rs)
  let ?w = "w\<lparr>mw_ticks := mw_ticks w + 2\<rparr>"
  have "serve_requests (HTTPCircuitBreaker b h) (r # rs) w = serve_requests (HTTPCircuitBreaker b h) rs ?w"
    using breaker_sheds [OF Cons.prems] by simp
  moreover obtain k where "serve_requests (HTTPCircuitBreaker b h) rs ?w = ?w\<lparr>mw_ticks := k\<rparr>"
    using Cons.IH [of ?w] Cons.prems by auto
  ultimately show ?case by (intro exI [of _ k]) simp
qed

text \<open>
  C6: A circuit breaker cuts a failing handler off, and not too early: with a failure threshold of \<open>n\<close>, a
  handler that answers every request with a code of 500 or more is run on each of the first \<open>n\<close> requests,
  and its answer and its effects are what the client and the program get; after that, while the timeout
  runs, every request is answered 503 and the handler, whatever it would do, is not run: nothing changes
  but the number of clock readings (for requests served one after the other through a fresh breaker).
\<close>

theorem http_breaker_sheds_load:
  fixes h :: "'u mw_handler" and rs rs'
  assumes "answers_500 b h" and "mw_breaker w b = NewCircuitBreaker cfg t0" and "cc_FailureThreshold cfg = int n"
    and "0 < n" and "\<forall>i j. mw_clock w i - mw_clock w j < cc_Timeout cfg" and "length rs = n"
  defines "w1 \<equiv> serve_requests (HTTPCircuitBreaker b h) rs w"
  defines "w2 \<equiv> serve_requests (HTTPCircuitBreaker b h) rs' w1"
  shows "(\<forall>i<n. answered_by_handler b h (rs ! i) (serve_requests (HTTPCircuitBreaker b h) (take i rs) w)) \<and>
     sent (snd (HTTPCircuitBreaker b h r (fresh_state w2))) = Some 503 \<and>
     w2 = w1\<lparr>mw_ticks := mw_ticks w2\<rparr> \<and> mw_user w2 = mw_user w1"
proof -
  from breaker_counts [OF assms(1-3) _ assms(4), of rs] assms(6) obtain i where w1: "mw_clock w1 = mw_clock w"
    "cb_config (mw_breaker w1 b) = cfg" "cb_state (mw_breaker w1 b) = StateOpen"
    "cb_lastStateChange (mw_breaker w1 b) = mw_clock w i" by (auto simp: w1_def)
  then have "\<forall>i. mw_clock w1 i - cb_lastStateChange (mw_breaker w1 b) < cc_Timeout (cb_config (mw_breaker w1 b))"
    using assms(5) by simp
  note open1 = w1(3) this
  from breaker_keeps_shedding [OF open1, of h rs'] obtain k where w2: "w2 = w1\<lparr>mw_ticks := k\<rparr>"
    by (auto simp: w2_def)
  then have "cb_state (mw_breaker w2 b) = StateOpen"
    "\<forall>i. mw_clock w2 i - cb_lastStateChange (mw_breaker w2 b) < cc_Timeout (cb_config (mw_breaker w2 b))"
    using open1 by simp_all
  from breaker_sheds [OF this, of h r] have shed: "sent (snd (HTTPCircuitBreaker b h r (fresh_state w2))) = Some 503" by simp
  have "answered_by_handler b h (rs ! i) (serve_requests (HTTPCircuitBreaker b h) (take i rs) w)" if "i < n" for i
  proof -
    have "length (take i rs) < n" "length (take i rs) \<le> n" using that assms(6) by simp_all
    with breaker_counts [OF assms(1-3) _ assms(4), of "take i rs"]
    have "cb_state (mw_breaker (serve_requests (HTTPCircuitBreaker b h) (take i rs) w) b) = StateClosed" by simp
    from breaker_admits [OF assms(1) this] show ?thesis by blast
  qed
  with shed w2 show ?thesis by simp
qed


lemma writes_500: "answers_500 b (writes_codes [500] :: 'u mw_handler)"
proof -
  have "\<exists>s'. with_status (writes_codes [500]) r (fresh_state w) = (Ret 500, s') \<and> ht_world s' = w"
    for r and w :: "'u mw_world"
    by (simp add: with_status_def eff_bind_def eff_ret_def WriteHeader_def conn_WriteHeader_def push_status_def
        pop_status_def fresh_state_def new_response_def valid_code_def informational_def)
  then show ?thesis unfolding answers_500_def by (metis order_refl)
qed

definition still_world :: "unit mw_world" where
  "still_world = fresh_world\<lparr>mw_clock := (\<lambda>_. 0)\<rparr>"

theorem http_breaker_sheds_load_witness:
  "let h = HTTPCircuitBreaker 0 (writes_codes [500]); r = bare_request ''GET'' ''/'';
       w = serve_requests h [r] (serve_requests h (replicate 5 r) still_world)
   in sent (snd (h r (fresh_state w))) = Some 503 \<and>
      (\<forall>i<5. answered_by_handler 0 (writes_codes [500]) (replicate 5 r ! i) (serve_requests h (take i (replicate 5 r)) still_world))"
  using http_breaker_sheds_load [OF writes_500, of still_world 0 DefaultCircuitBreakerConfig 0 5
      "replicate 5 (bare_request ''GET'' ''/'')" "bare_request ''GET'' ''/''" "[bare_request ''GET'' ''/'']"]
  unfolding Let_def
  by (simp add: still_world_def fresh_world_def DefaultCircuitBreakerConfig_def del: serve_requests_simps)

section \<open>The other functions of the file\<close>

text \<open>\<open>TimeoutHandler\<close> and \<open>StatusText\<close> are those of \<open>net/http\<close>.\<close>

definition Timeout :: "('w http_handler \<Rightarrow> duration \<Rightarrow> string \<Rightarrow> 'w http_handler) \<Rightarrow> duration \<Rightarrow> 'w http_handler \<Rightarrow> 'w http_handler" where
  "Timeout TimeoutHandler d next = TimeoutHandler next d ''Request timeout''"

definition httpError_Error :: "(int \<Rightarrow> string) \<Rightarrow> int \<Rightarrow> string" where
  "httpError_Error StatusText code = StatusText code"

end
