(* ===== verification/Logger.thy ===== *)
theory Logger
  imports ColorPrint "HOL-Library.Multiset"
begin

text \<open>
  The logger (\<open>logger/logger.go\<close>).  Its package variables are the record \<open>logger\<close>.  The text of a message
  (\<open>fmt.Sprintf\<close>), the clock and the call stack are arguments; the background printer, the log file and
  the callback are recorded as what they were given, the terminal (\<open>lo_screen\<close>) as its bytes.  \<open>writeLog\<close> and
  \<open>SetCallback\<close> are calls made one after the other; as most of the variables have no lock, the part of both
  that concerns the callback is also given in its single steps (\<open>keep_act\<close>), for calls that overlap.
\<close>

section \<open>Levels and entries\<close>

definition TraceLevel :: int where "TraceLevel = 0"
definition DebugLevel :: int where "DebugLevel = 1"
definition InfoLevel :: int where "InfoLevel = 2"
definition WarningLevel :: int where "WarningLevel = 3"
definition ErrorLevel :: int where "ErrorLevel = 4"
definition FatalLevel :: int where "FatalLevel = 5"

lemmas level_defs = TraceLevel_def DebugLevel_def InfoLevel_def WarningLevel_def ErrorLevel_def FatalLevel_def

definition levelName :: "int \<Rightarrow> string option" where
  "levelName = [TraceLevel \<mapsto> '' [ trace ] '', DebugLevel \<mapsto> '' [ debug ] '', InfoLevel \<mapsto> '' [ info ] '',
     WarningLevel \<mapsto> '' [ warning ] '', ErrorLevel \<mapsto> '' [ error ] '', FatalLevel \<mapsto> '' [ fatal ] '']"

definition GetLogLevelStr :: "int \<Rightarrow> string" where
  "GetLogLevelStr level = (case levelName level of Some s \<Rightarrow> s | None \<Rightarrow> '''')"

record log_entry =
  lg_File :: string
  lg_Line :: int
  lg_Level :: int
  lg_LogStr :: string
  lg_TimeNs :: int


section \<open>State\<close>

record logger =
  lo_dir :: "string option"  \<comment> \<open>the directory of \<open>contextLogger\<close>, when there is one\<close>
  lo_screenPrint :: int
  lo_MinLevel :: int
  lo_chanPrint :: "(int \<times> string) chan"  \<comment> \<open>level and text\<close>
  lo_cb :: "nat option"
  lo_tmp :: "log_entry list"
  lo_screen :: string
  lo_file :: "(int \<times> string) list"
  lo_called :: "(nat \<times> log_entry) list"

definition maxTmpLogCount :: nat where "maxTmpLogCount = 100000"

definition logger_init :: logger where
  "logger_init = \<lparr>lo_dir = None, lo_screenPrint = 1, lo_MinLevel = 0, lo_chanPrint = chan_make 100, lo_cb = None,
     lo_tmp = [], lo_screen = [], lo_file = [], lo_called = []\<rparr>"

text \<open>One round of the background printer, when there is something to print.\<close>

definition log_color_of :: "int \<Rightarrow> int" where
  "log_color_of level =
     (if level = WarningLevel then Yellow FontColor else if level = ErrorLevel then Red FontColor
      else if level = FatalLevel then LightRed FontColor else LightGray FontColor)"

definition screen_text :: "int \<Rightarrow> string \<Rightarrow> string" where
  "screen_text level s =
     (if level \<ge> WarningLevel
      then ColorPrint s (log_color_of level) @ ColorPrint [CHR 0x0A] (LightGray FontColor)
      else s @ [CHR 0x0A])"

definition log_print :: "logger \<Rightarrow> logger" where
  "log_print l =
     (case chan_recv (lo_chanPrint l) of
        None \<Rightarrow> l
      | Some ((level, s), c) \<Rightarrow> l\<lparr>lo_chanPrint := c, lo_screen := lo_screen l @ screen_text level s\<rparr>)"

section \<open>Settings\<close>

text \<open>A callback is not replaced by another one; a new one is first given the entries kept so far.\<close>

definition SetCallback :: "nat option \<Rightarrow> logger \<Rightarrow> logger" where
  "SetCallback c l =
     (if lo_cb l \<noteq> None \<and> c \<noteq> None then l
      else (case c of
              None \<Rightarrow> l\<lparr>lo_cb := None\<rparr>
            | Some f \<Rightarrow> l\<lparr>lo_cb := Some f, lo_called := lo_called l @ map (Pair f) (lo_tmp l), lo_tmp := []\<rparr>))"

definition SetScreenPrint :: "int \<Rightarrow> logger \<Rightarrow> logger" where
  "SetScreenPrint p l = l\<lparr>lo_screenPrint := p\<rparr>"

section \<open>Writing\<close>

definition pad_zero :: "nat \<Rightarrow> int \<Rightarrow> string" where
  "pad_zero n i = replicate (n - length (itoa i)) CHR ''0'' @ itoa i"

record clock =
  ck_Year :: int
  ck_Month :: int
  ck_Day :: int
  ck_Hour :: int
  ck_Minute :: int
  ck_Second :: int
  ck_Nanosecond :: int

definition nowTimeString :: "clock \<Rightarrow> string" where
  "nowTimeString now =
     itoa (ck_Year now) @ ''-'' @ pad_zero 2 (ck_Month now) @ ''-'' @ pad_zero 2 (ck_Day now) @ '' '' @
     pad_zero 2 (ck_Hour now) @ '':'' @ pad_zero 2 (ck_Minute now) @ '':'' @ pad_zero 2 (ck_Second now) @ ''.'' @
     pad_zero 9 (ck_Nanosecond now)"

text \<open>\<open>path.Base\<close>.\<close>

definition path_base :: "string \<Rightarrow> string" where
  "path_base p =
     (if p = '''' then ''.''
      else (let q = rev (dropWhile (\<lambda>c. c = CHR ''/'') (rev p))
            in if q = '''' then ''/'' else rev (takeWhile (\<lambda>c. c \<noteq> CHR ''/'') (rev q))))"

text \<open>
  A call: the place, the level, the message, the stack trace, and the three readings of the clock.
\<close>

record log_call =
  lc_file :: string
  lc_line :: int
  lc_level :: int
  lc_message :: string
  lc_stack :: string
  lc_now :: clock
  lc_now2 :: clock
  lc_ns :: int

definition log_text :: "clock \<Rightarrow> string \<Rightarrow> log_call \<Rightarrow> string" where
  "log_text now location c =
     nowTimeString now @ GetLogLevelStr (lc_level c) @ ''['' @ location @ '':'' @ itoa (lc_line c) @ ''] '' @ lc_message c @
     (if lc_stack c \<noteq> '''' then [CHR 10] @ lc_stack c else '''')"

definition log_entry_of :: "log_call \<Rightarrow> log_entry" where
  "log_entry_of c = \<lparr>lg_File = lc_file c, lg_Line = lc_line c, lg_Level = lc_level c,
     lg_LogStr = log_text (lc_now c) (path_base (lc_file c)) c, lg_TimeNs = lc_ns c\<rparr>"

text \<open>The level the file is written with.\<close>

definition file_level :: "int \<Rightarrow> int" where
  "file_level level =
     (if level = FatalLevel then ErrorLevel else if TraceLevel \<le> level \<and> level \<le> ErrorLevel then level else InfoLevel)"

text \<open>The end of \<open>writeLog\<close>: to the callback, or into the list, from which the oldest entry goes when it is too long.\<close>

definition log_keep :: "log_entry \<Rightarrow> logger \<Rightarrow> logger" where
  "log_keep e l =
     (case lo_cb l of
        Some f \<Rightarrow> l\<lparr>lo_called := lo_called l @ [(f, e)]\<rparr>
      | None \<Rightarrow> l\<lparr>lo_tmp := (if length (lo_tmp l) > maxTmpLogCount then tl (lo_tmp l) else lo_tmp l) @ [e]\<rparr>)"

text \<open>\<open>None\<close>: the call waits, as the send to the printer does when its channel is full.\<close>

definition log_send :: "log_call \<Rightarrow> logger \<Rightarrow> logger option" where
  "log_send c l =
     (if lo_screenPrint l \<noteq> 0 \<or> lc_level c \<ge> ErrorLevel \<or> lo_cb l = None
      then map_option (\<lambda>ch. l\<lparr>lo_chanPrint := ch\<rparr>) (chan_trysend (lc_level c, lg_LogStr (log_entry_of c)) (lo_chanPrint l))
      else Some l)"

text \<open>The file gets the full path, and a reading of the clock of its own.\<close>

definition log_save :: "log_call \<Rightarrow> logger \<Rightarrow> logger" where
  "log_save c l =
     (if lo_dir l \<noteq> None
      then l\<lparr>lo_file := lo_file l @ [(file_level (lc_level c), log_text (lc_now2 c) (lc_file c) c)]\<rparr> else l)"

definition writeLog :: "log_call \<Rightarrow> logger \<Rightarrow> logger option" where
  "writeLog c l =
     (if lc_level c < lo_MinLevel l then Some l
      else map_option (\<lambda>l1. log_keep (log_entry_of c) (log_save c l1)) (log_send c l))"

text \<open>
  \<open>Trace\<close> to \<open>Error\<close>: the place is the frame two above the function, that is, the caller of its caller;
  \<open>runtime.Caller\<close> gives no file and line zero when there is none.
\<close>

definition runtime_Caller :: "nat \<Rightarrow> (string \<times> int) list \<Rightarrow> string \<times> int" where
  "runtime_Caller n frames = (if n < length frames then frames ! n else ('''', 0))"

definition log_at :: "int \<Rightarrow> (string \<times> int) list \<Rightarrow> string \<Rightarrow> clock \<Rightarrow> clock \<Rightarrow> int \<Rightarrow> log_call" where
  "log_at level frames message now now2 ns =
     (let (file, line) = runtime_Caller 2 frames
      in \<lparr>lc_file = file, lc_line = line, lc_level = level, lc_message = message, lc_stack = '''', lc_now = now,
          lc_now2 = now2, lc_ns = ns\<rparr>)"

text \<open>
  \<open>New\<close>: the directory, and a first entry.  The settings of the libraries that write the file are left out.
\<close>

definition logger_New :: "string \<Rightarrow> (string \<times> int) list \<Rightarrow> clock \<Rightarrow> clock \<Rightarrow> int \<Rightarrow> logger \<Rightarrow> logger option" where
  "logger_New directory frames now now2 ns l =
     (if directory = '''' then Some (l\<lparr>lo_dir := None\<rparr>)
      else writeLog (log_at InfoLevel frames ''logger initialized successfully'' now now2 ns) (l\<lparr>lo_dir := Some directory\<rparr>))"

text \<open>\<open>Fatal\<close>: the entry, and the code the program exits with.\<close>

definition log_Fatal :: "(string \<times> int) list \<Rightarrow> string \<Rightarrow> clock \<Rightarrow> clock \<Rightarrow> int \<Rightarrow> logger \<Rightarrow> (int \<times> logger) option" where
  "log_Fatal frames message now now2 ns l =
     map_option (\<lambda>l'. (1, l')) (writeLog (log_at FatalLevel frames message now now2 ns) l)"

section \<open>Sequences of calls\<close>

datatype log_op = LogCall log_call | LogPrint | LogSetCallback "nat option" | LogSetScreen int

fun log_exec :: "log_op \<Rightarrow> logger \<Rightarrow> logger option" where
  "log_exec (LogCall c) l = writeLog c l"
| "log_exec LogPrint l = Some (log_print l)"
| "log_exec (LogSetCallback c) l = Some (SetCallback c l)"
| "log_exec (LogSetScreen p) l = Some (SetScreenPrint p l)"

text \<open>A call that waits is not made yet: a run is a sequence in which every call can be made in its turn.\<close>

fun log_run :: "log_op list \<Rightarrow> logger \<Rightarrow> logger option" where
  "log_run [] l = Some l"
| "log_run (a # as) l = Option.bind (log_exec a l) (log_run as)"

fun entries_of :: "int \<Rightarrow> log_op list \<Rightarrow> log_entry list" where
  "entries_of m [] = []"
| "entries_of m (LogCall c # as) = (if lc_level c < m then entries_of m as else log_entry_of c # entries_of m as)"
| "entries_of m (_ # as) = entries_of m as"

fun sets_callback :: "log_op \<Rightarrow> bool" where
  "sets_callback (LogSetCallback c) \<longleftrightarrow> True"
| "sets_callback _ \<longleftrightarrow> False"

definition last_of :: "nat \<Rightarrow> 'a list \<Rightarrow> 'a list" where
  "last_of n xs = drop (length xs - n) xs"

lemma last_of_append: "last_of n (last_of n xs @ ys) = last_of n (xs @ ys)"
proof (cases "n \<le> length xs")
  case True
  then have "length ys + length xs - n = length xs - n + length ys" by simp
  with True show ?thesis by (simp add: last_of_def add.commute)
qed (simp add: last_of_def)

lemma last_of_all: "length xs \<le> n \<Longrightarrow> last_of n xs = xs"
  by (simp add: last_of_def)

text \<open>The list after one more entry: the last ones, of all the entries so far.\<close>

lemma tmp_snoc:
  "(if length xs > n then tl xs else xs) @ [e] = last_of (Suc n) (xs @ [e])" if "length xs \<le> Suc n"
  using that by (cases "length xs = Suc n") (auto simp: last_of_def drop_Suc)

lemma writeLog_keep:
  assumes "writeLog c l = Some l'" and "\<not> lc_level c < lo_MinLevel l"
  shows "\<exists>ch fl. l' = log_keep (log_entry_of c) (l\<lparr>lo_chanPrint := ch, lo_file := fl\<rparr>)"
proof -
  obtain l1 where l1: "log_send c l = Some l1" "l' = log_keep (log_entry_of c) (log_save c l1)"
    using assms by (auto simp: writeLog_def)
  have "\<exists>ch. l1 = l\<lparr>lo_chanPrint := ch\<rparr>"
  proof (cases "lo_screenPrint l \<noteq> 0 \<or> lc_level c \<ge> ErrorLevel \<or> lo_cb l = None")
    case True
    then show ?thesis using l1(1) unfolding log_send_def by (simp only: if_True) auto
  next
    case False
    then have "l1 = l" using l1(1) unfolding log_send_def by (simp only: if_False option.inject)
    then show ?thesis by (intro exI [of _ "lo_chanPrint l"]) simp
  qed
  then obtain ch where ch: "l1 = l\<lparr>lo_chanPrint := ch\<rparr>" ..
  have "\<exists>fl. log_save c l1 = l1\<lparr>lo_file := fl\<rparr>"
  proof (cases "lo_dir l1 = None")
    case True
    then show ?thesis by (intro exI [of _ "lo_file l1"]) (simp add: log_save_def)
  next
    case False
    show ?thesis unfolding log_save_def if_P [OF False] by (rule exI, rule refl)
  qed
  then obtain fl where "log_save c l1 = l1\<lparr>lo_file := fl\<rparr>" ..
  with l1(2) ch have "l' = log_keep (log_entry_of c) (l\<lparr>lo_chanPrint := ch, lo_file := fl\<rparr>)" by simp
  then show ?thesis by blast
qed

section \<open>Properties\<close>

text \<open>What a run without a change of the callback leaves: without a callback the last entries, with one nothing.\<close>

lemma log_print_fields [simp]:
  "lo_MinLevel (log_print l) = lo_MinLevel l" "lo_cb (log_print l) = lo_cb l" "lo_tmp (log_print l) = lo_tmp l"
  "lo_called (log_print l) = lo_called l"
  by (simp_all add: log_print_def split: option.splits prod.splits)

lemma log_exec_keeps:
  assumes "log_exec a l = Some l1" and "\<not> sets_callback a"
  shows "lo_MinLevel l1 = lo_MinLevel l \<and> lo_cb l1 = lo_cb l"
proof (cases a)
  case (LogCall c)
  show ?thesis
  proof (cases "lc_level c < lo_MinLevel l")
    case False
    from LogCall assms(1) have "writeLog c l = Some l1" by simp
    from writeLog_keep [OF this False] show ?thesis by (auto simp: log_keep_def split: option.splits)
  qed (use LogCall assms in \<open>simp add: writeLog_def\<close>)
qed (use assms in \<open>auto simp: SetScreenPrint_def\<close>)

lemma log_exec_tmp:
  assumes "log_exec a l = Some l1" and "\<not> sets_callback a" and "lo_cb l = None" and "length (lo_tmp l) \<le> Suc maxTmpLogCount"
  shows "lo_tmp l1 = last_of (Suc maxTmpLogCount) (lo_tmp l @ entries_of (lo_MinLevel l) [a]) \<and> lo_called l1 = lo_called l"
proof (cases a)
  case (LogCall c)
  show ?thesis
  proof (cases "lc_level c < lo_MinLevel l")
    case False
    from LogCall assms(1) have "writeLog c l = Some l1" by simp
    from writeLog_keep [OF this False] LogCall False assms(3) tmp_snoc [OF assms(4), of "log_entry_of c"] show ?thesis
      by (auto simp: log_keep_def)
  qed (use LogCall assms in \<open>simp add: writeLog_def last_of_all\<close>)
qed (use assms in \<open>auto simp: SetScreenPrint_def last_of_all\<close>)

lemma log_exec_called:
  assumes "log_exec a l = Some l1" and "\<not> sets_callback a" and "lo_cb l = Some f"
  shows "lo_called l1 = lo_called l @ map (Pair f) (entries_of (lo_MinLevel l) [a]) \<and> lo_tmp l1 = lo_tmp l"
proof (cases a)
  case (LogCall c)
  show ?thesis
  proof (cases "lc_level c < lo_MinLevel l")
    case False
    from LogCall assms(1) have "writeLog c l = Some l1" by simp
    from writeLog_keep [OF this False] LogCall False assms(3) show ?thesis by (auto simp: log_keep_def)
  qed (use LogCall assms in \<open>simp add: writeLog_def\<close>)
qed (use assms in \<open>auto simp: SetScreenPrint_def\<close>)

lemma entries_of_Cons: "entries_of m (a # as) = entries_of m [a] @ entries_of m as"
  by (cases a) simp_all

lemma length_last_of: "length (last_of n xs) \<le> n"
  by (simp add: last_of_def)

lemma log_run_tmp:
  assumes "log_run as l = Some l'" and "\<forall>a\<in>set as. \<not> sets_callback a" and "lo_cb l = None"
    and "length (lo_tmp l) \<le> Suc maxTmpLogCount"
  shows "lo_tmp l' = last_of (Suc maxTmpLogCount) (lo_tmp l @ entries_of (lo_MinLevel l) as) \<and> lo_called l' = lo_called l \<and>
     lo_cb l' = None \<and> lo_MinLevel l' = lo_MinLevel l"
  using assms
proof (induction as arbitrary: l)
  case (Cons a as)
  obtain l1 where l1: "log_exec a l = Some l1" "log_run as l1 = Some l'"
    using Cons.prems(1) by (cases "log_exec a l") auto
  have no: "\<not> sets_callback a" using Cons.prems(2) by simp
  note k = log_exec_keeps [OF l1(1) no] log_exec_tmp [OF l1(1) no Cons.prems(3,4)]
  have "length (lo_tmp l1) \<le> Suc maxTmpLogCount" using k(2) length_last_of [of "Suc maxTmpLogCount"] by simp
  with Cons.IH [OF l1(2)] Cons.prems(2,3) k show ?case
    by (simp add: last_of_append entries_of_Cons [of _ a as])
qed (simp add: last_of_all)

lemma log_run_called:
  assumes "log_run as l = Some l'" and "\<forall>a\<in>set as. \<not> sets_callback a" and "lo_cb l = Some f"
  shows "lo_called l' = lo_called l @ map (Pair f) (entries_of (lo_MinLevel l) as) \<and> lo_tmp l' = lo_tmp l"
  using assms
proof (induction as arbitrary: l)
  case (Cons a as)
  obtain l1 where l1: "log_exec a l = Some l1" "log_run as l1 = Some l'"
    using Cons.prems(1) by (cases "log_exec a l") auto
  have no: "\<not> sets_callback a" using Cons.prems(2) by simp
  note k = log_exec_keeps [OF l1(1) no] log_exec_called [OF l1(1) no Cons.prems(3)]
  with Cons.IH [OF l1(2)] Cons.prems(2,3) show ?case by (simp add: entries_of_Cons [of _ a as])
qed simp

lemma log_run_append: "log_run (as @ bs) l = Option.bind (log_run as l) (log_run bs)"
  by (induction as arbitrary: l) (auto split: bind_splits)

text \<open>
  C27: As long as the calls of the logger do not overlap, no entry is lost or told twice to a callback that is
  set late, once: it is called with the last \<open>maxTmpLogCount + 1\<close> entries logged before it was set and then with
  every entry logged after, in order, and nothing is kept behind.  Calls that overlap can leave an entry
  behind (\<open>logger_entry_kept_behind\<close>).
\<close>

theorem logger_callback_sees_entries:
  assumes run: "log_run (as @ LogSetCallback (Some f) # bs) logger_init = Some l"
    and "\<forall>a\<in>set as \<union> set bs. \<not> sets_callback a"
  shows "lo_called l = map (Pair f) (last_of (Suc maxTmpLogCount) (entries_of 0 as) @ entries_of 0 bs) \<and> lo_tmp l = []"
proof -
  obtain l1 where l1: "log_run as logger_init = Some l1" "log_run bs (SetCallback (Some f) l1) = Some l"
    using run by (auto simp: log_run_append split: bind_splits)
  have init: "lo_cb logger_init = None" "lo_tmp logger_init = []" "lo_called logger_init = []" "lo_MinLevel logger_init = 0"
    by (simp_all add: logger_init_def)
  from log_run_tmp [OF l1(1)] assms(2) have a: "lo_tmp l1 = last_of (Suc maxTmpLogCount) (entries_of 0 as)"
      "lo_called l1 = []" "lo_cb l1 = None" "lo_MinLevel l1 = 0"
    by (simp_all add: init)
  from log_run_called [OF l1(2), of f] assms(2) a show ?thesis by (simp add: SetCallback_def)
qed

definition demo_log :: "int \<Rightarrow> log_call" where
  "demo_log level =
     \<lparr>lc_file = ''/app/main.go'', lc_line = 7, lc_level = level, lc_message = ''hello'', lc_stack = '''',
      lc_now = \<lparr>ck_Year = 2024, ck_Month = 1, ck_Day = 2, ck_Hour = 3, ck_Minute = 4, ck_Second = 5, ck_Nanosecond = 6\<rparr>,
      lc_now2 = \<lparr>ck_Year = 2024, ck_Month = 1, ck_Day = 2, ck_Hour = 3, ck_Minute = 4, ck_Second = 5, ck_Nanosecond = 9\<rparr>, lc_ns = 0\<rparr>"

theorem logger_callback_sees_entries_witness:
  "\<exists>l. log_run ([LogCall (demo_log InfoLevel)] @ LogSetCallback (Some 1) # [LogPrint, LogCall (demo_log ErrorLevel)]) logger_init = Some l \<and>
     lo_called l = [(1, log_entry_of (demo_log InfoLevel)), (1, log_entry_of (demo_log ErrorLevel))]"
proof -
  have "log_run ([LogCall (demo_log InfoLevel)] @ LogSetCallback (Some 1) # [LogPrint, LogCall (demo_log ErrorLevel)]) logger_init \<noteq> None"
    by (simp add: writeLog_def log_send_def logger_init_def demo_log_def level_defs log_save_def log_keep_def SetCallback_def
        log_print_def chan_recv_def chan_trysend_def chan_make_def)
  then obtain l where run: "log_run ([LogCall (demo_log InfoLevel)] @ LogSetCallback (Some 1) #
      [LogPrint, LogCall (demo_log ErrorLevel)]) logger_init = Some l" by blast
  have "lo_called l = map (Pair 1) (last_of (Suc maxTmpLogCount) (entries_of 0 [LogCall (demo_log InfoLevel)]) @
      entries_of 0 [LogPrint, LogCall (demo_log ErrorLevel)]) \<and> lo_tmp l = []"
    by (rule logger_callback_sees_entries [OF run]) simp
  moreover have "last_of (Suc maxTmpLogCount) [x] = [x]" for x :: log_entry by (simp add: last_of_def maxTmpLogCount_def)
  ultimately have "lo_called l = [(1, log_entry_of (demo_log InfoLevel)), (1, log_entry_of (demo_log ErrorLevel))]"
    by (simp add: demo_log_def level_defs)
  with run show ?thesis by blast
qed

text \<open>
  The place of an entry is not the one that logged: with the frames of the function, its caller \<open>here\<close> and
  the caller of that, the entry names the last.
\<close>

theorem log_names_callers_caller:
  "log_entry_of (log_at level (inside # here # there # frames) message now now2 ns) =
     log_entry_of (log_at level (inside # here' # there # frames') message now now2 ns) \<and>
   lg_File (log_entry_of (log_at level (inside # here # there # frames) message now now2 ns)) = fst there"
  by (simp add: log_at_def runtime_Caller_def log_entry_of_def log_text_def case_prod_beta)

text \<open>A message the printer is to show waits while the printer's channel is full, whoever logs it.\<close>

theorem log_waits_for_printer:
  assumes "lo_cb l = None" and "length (chan_buf (lo_chanPrint l)) = chan_cap (lo_chanPrint l)"
    and "lo_MinLevel l \<le> lc_level c"
  shows "writeLog c l = None"
  using assms by (simp add: writeLog_def log_send_def chan_trysend_def)

section \<open>The dump of a panic\<close>

text \<open>
  \<open>TryE\<close>, deferred: the value recovered (\<open>None\<close>: no panic), written with the stack to a file named after
  the time and the process.  \<open>join\<close> is \<open>path.Join\<close>, \<open>create\<close> tells whether the file could be created, and
  \<open>pv\<close> prints the value.  The result is the file written.
\<close>

definition dump_name :: "clock \<Rightarrow> int \<Rightarrow> string" where
  "dump_name now pid =
     pad_zero 4 (ck_Year now) @ ''-'' @ pad_zero 2 (ck_Month now) @ ''-'' @ pad_zero 2 (ck_Day now) @ ''_'' @
     pad_zero 2 (ck_Hour now) @ ''-'' @ pad_zero 2 (ck_Minute now) @ ''-'' @ pad_zero 2 (ck_Second now) @
     ''_pid'' @ itoa pid @ ''_dump.log''"

definition TryE ::
    "(string \<Rightarrow> string \<Rightarrow> string) \<Rightarrow> (string \<Rightarrow> bool) \<Rightarrow> ('e \<Rightarrow> string) \<Rightarrow> clock \<Rightarrow> int \<Rightarrow> string \<Rightarrow> string \<Rightarrow>
     'e option \<Rightarrow> (string \<times> string) option" where
  "TryE join create pv now pid stack pathName errs =
     (case errs of
        None \<Rightarrow> None
      | Some e \<Rightarrow>
          (let f = join pathName (dump_name now pid)
           in if \<not> create f then None
              else Some (f, pv e @ [CHR 0x0D, CHR 0x0A] @ ''========'' @ [CHR 0x0D, CHR 0x0A] @ stack)))"

lemma TryE_dumps: "TryE join create pv now pid stack pathName errs \<noteq> None \<longleftrightarrow>
    errs \<noteq> None \<and> create (join pathName (dump_name now pid))"
  by (simp add: TryE_def Let_def split: option.splits)

section \<open>Calls that overlap\<close>

text \<open>
  Where a goroutine is in the part of \<open>writeLog\<close> or \<open>SetCallback\<close> that concerns the callback: each step reads or
  writes \<open>cb\<close> once, or runs under the lock of the list.  The call of a callback that has become \<open>nil\<close> panics;
  \<open>writeLog\<close> recovers from that, \<open>SetCallback\<close> does not.
\<close>

datatype keep_pc =
    WTest log_entry           \<comment> \<open>about to test \<open>cb\<close>\<close>
  | WTell log_entry           \<comment> \<open>about to call \<open>cb\<close>\<close>
  | WPush log_entry           \<comment> \<open>about to append to the list\<close>
  | STest "nat option"        \<comment> \<open>about to test \<open>cb\<close> and the argument\<close>
  | SAssign "nat option"
  | SLook "nat option"        \<comment> \<open>about to test \<open>cb\<close> again\<close>
  | SDrain "nat option"
  | Crashed

fun keep_act :: "keep_pc \<Rightarrow> logger \<Rightarrow> keep_pc option \<times> logger" where
  "keep_act (WTest e) l = (Some (if lo_cb l \<noteq> None then WTell e else WPush e), l)"
| "keep_act (WTell e) l =
     (None, case lo_cb l of Some f \<Rightarrow> l\<lparr>lo_called := lo_called l @ [(f, e)]\<rparr> | None \<Rightarrow> l)"
| "keep_act (WPush e) l =
     (None, l\<lparr>lo_tmp := (if length (lo_tmp l) > maxTmpLogCount then tl (lo_tmp l) else lo_tmp l) @ [e]\<rparr>)"
| "keep_act (STest c) l = (if lo_cb l \<noteq> None \<and> c \<noteq> None then None else Some (SAssign c), l)"
| "keep_act (SAssign c) l = (Some (SLook c), l\<lparr>lo_cb := c\<rparr>)"
| "keep_act (SLook c) l = (if lo_cb l \<noteq> None then Some (SDrain c) else None, l)"
| "keep_act (SDrain c) l =
     (case c of
        Some f \<Rightarrow> (None, l\<lparr>lo_called := lo_called l @ map (Pair f) (lo_tmp l), lo_tmp := []\<rparr>)
      | None \<Rightarrow> (if lo_tmp l = [] then None else Some Crashed, l))"
| "keep_act Crashed l = (Some Crashed, l)"

text \<open>One goroutine moves; a crash ends the program.\<close>

inductive keep_step :: "logger \<times> keep_pc list \<Rightarrow> logger \<times> keep_pc list \<Rightarrow> bool" where
  keep_step: "keep_act pc l = (pc', l') \<Longrightarrow> Crashed \<notin> set (as @ pc # bs) \<Longrightarrow>
     keep_step (l, as @ pc # bs) (l', as @ opt_list pc' @ bs)"

text \<open>A goroutine that runs alone does what the calls one after the other do.\<close>

fun keep_alone :: "nat \<Rightarrow> logger \<times> keep_pc list \<Rightarrow> logger \<times> keep_pc list" where
  "keep_alone 0 st = st"
| "keep_alone (Suc n) (l, []) = (l, [])"
| "keep_alone (Suc n) (l, pc # bs) = (let (pc', l') = keep_act pc l in keep_alone n (l', opt_list pc' @ bs))"

theorem log_keep_steps: "keep_alone 2 (l, WTest e # bs) = (log_keep e l, bs)"
  by (simp add: numeral_2_eq_2 log_keep_def split: option.splits)

theorem SetCallback_steps:
  "keep_alone (if lo_cb l \<noteq> None \<and> c \<noteq> None then 1 else if c = None then 3 else 4) (l, STest c # bs) = (SetCallback c l, bs)"
  by (cases c) (auto simp: SetCallback_def eval_nat_numeral)

text \<open>The entries a goroutine has still to deliver.\<close>

fun pending_entries :: "keep_pc list \<Rightarrow> log_entry multiset" where
  "pending_entries [] = {#}"
| "pending_entries (pc # pcs) =
     (case pc of WTest e \<Rightarrow> {#e#} | WTell e \<Rightarrow> {#e#} | WPush e \<Rightarrow> {#e#} | _ \<Rightarrow> {#}) + pending_entries pcs"

lemma pending_append [simp]: "pending_entries (as @ bs) = pending_entries as + pending_entries bs"
  by (induction as) (simp_all add: add.assoc)

text \<open>
  However the calls overlap, no entry is delivered twice: the entries told to a callback, those in the list and
  those on their way are, counted with their repetitions, among the entries the calls were made with.
\<close>

definition delivered :: "logger \<times> keep_pc list \<Rightarrow> log_entry multiset" where
  "delivered st = mset (map snd (lo_called (fst st))) + mset (lo_tmp (fst st)) + pending_entries (snd st)"

lemma keep_act_delivers:
  "keep_act pc l = (pc', l') \<Longrightarrow> delivered (l', opt_list pc') \<subseteq># delivered (l, [pc])"
  by (cases pc; cases "lo_tmp l")
    (auto simp: delivered_def multiset.map_comp comp_def split: option.splits if_splits)

theorem logger_no_entry_twice:
  assumes "keep_step\<^sup>*\<^sup>* (l, pcs) st" and "lo_called l = []" and "lo_tmp l = []"
  shows "delivered st \<subseteq># pending_entries pcs"
  using assms
proof (induction rule: rtranclp_induct)
  case (step st st')
  from step(2) have "delivered st' \<subseteq># delivered st"
  proof cases
    case (keep_step pc l pc' l' as bs)
    from keep_act_delivers [OF keep_step(3)] keep_step(1,2) show ?thesis
      by (simp add: delivered_def add.assoc)
  qed
  with step show ?case by (meson subset_mset.order_trans)
qed (simp add: delivered_def)

text \<open>
  An entry can be kept behind: a call that found no callback appends its entry after \<open>SetCallback\<close> has emptied
  the list, where it stays although the callback is set and every call has returned.
\<close>

theorem logger_entry_kept_behind:
  "\<exists>l. keep_step\<^sup>*\<^sup>* (logger_init, [WTest e, STest (Some f)]) (l, []) \<and> lo_cb l = Some f \<and> lo_called l = [] \<and> lo_tmp l = [e]"
proof -
  define l1 where "l1 = logger_init\<lparr>lo_cb := Some f\<rparr>"
  define l2 where "l2 = l1\<lparr>lo_tmp := [e]\<rparr>"
  have init: "lo_cb logger_init = None" "lo_tmp logger_init = []" "lo_called logger_init = []" by (simp_all add: logger_init_def)
  then have l1: "l1\<lparr>lo_called := lo_called l1 @ map (Pair f) (lo_tmp l1), lo_tmp := []\<rparr> = l1" "lo_cb l1 = Some f"
    by (simp_all add: l1_def)
  note two = keep_step [where as = "[WPush e]" and bs = "[]"]
  have "keep_step\<^sup>*\<^sup>* (logger_init, [WTest e, STest (Some f)]) (logger_init, [WPush e, STest (Some f)])"
    using keep_step [where as = "[]" and bs = "[STest (Some f)]" and pc = "WTest e" and l = logger_init] init by auto
  also have "keep_step (logger_init, [WPush e, STest (Some f)]) (logger_init, [WPush e, SAssign (Some f)])"
    using two [where pc = "STest (Some f)" and l = logger_init] init by simp
  also have "keep_step (logger_init, [WPush e, SAssign (Some f)]) (l1, [WPush e, SLook (Some f)])"
    using two [where pc = "SAssign (Some f)" and l = logger_init] by (simp add: l1_def)
  also have "keep_step (l1, [WPush e, SLook (Some f)]) (l1, [WPush e, SDrain (Some f)])"
    using two [where pc = "SLook (Some f)" and l = l1] l1 by simp
  also have "keep_step (l1, [WPush e, SDrain (Some f)]) (l1, [WPush e])"
    using two [where pc = "SDrain (Some f)" and l = l1] l1 by simp
  also have "keep_step (l1, [WPush e]) (l2, [])"
    using keep_step [where as = "[]" and bs = "[]" and pc = "WPush e" and l = l1] init by (simp add: l1_def l2_def)
  finally have "keep_step\<^sup>*\<^sup>* (logger_init, [WTest e, STest (Some f)]) (l2, [])" .
  moreover have "lo_cb l2 = Some f" "lo_called l2 = []" "lo_tmp l2 = [e]" by (simp_all add: l2_def l1_def init)
  ultimately show ?thesis by blast
qed

end
