(* ===== verification/NacosRegistry.thy ===== *)
theory NacosRegistry
  imports RemoteRegistry
begin

text \<open>
  The Nacos registry (\<open>registry/nacos.go\<close>).  The SDK's naming client is an argument, a record of
  functions on a world \<open>'w\<close>.  The mutex makes the operations atomic, except that \<open>Close\<close> and \<open>Stop\<close> call
  the SDK after they have released it: they are modelled as run alone.
\<close>

section \<open>The naming client\<close>

record nacos_instance =
  ni_id :: string
  ni_ip :: string
  ni_port :: int
  ni_healthy :: bool
  ni_metadata :: "(string \<times> string) list"

text \<open>The fields of the parameters that vary.\<close>

record nacos_param =
  np_ip :: string
  np_port :: int
  np_service :: string
  np_group :: string
  np_metadata :: "(string \<times> string) list"

record nacos_conf =
  nf_servers :: "(string \<times> int) list"
  nf_namespace :: string
  nf_timeout_ms :: int
  nf_auth :: "(string \<times> string) option"

text \<open>\<open>nm_select\<close> is given the service and the group, and \<open>HealthyOnly\<close> is set.\<close>

record 'w naming_client =
  nm_new :: "nacos_conf \<Rightarrow> 'w \<Rightarrow> go_error option"
  nm_register :: "nacos_param \<Rightarrow> 'w \<Rightarrow> bool result \<times> 'w"
  nm_deregister :: "nacos_param \<Rightarrow> 'w \<Rightarrow> bool result \<times> 'w"
  nm_select :: "string \<Rightarrow> string \<Rightarrow> 'w \<Rightarrow> nacos_instance list result"
  nm_subscribe :: "string \<Rightarrow> string \<Rightarrow> 'w \<Rightarrow> go_error option \<times> 'w"
  nm_unsubscribe :: "string \<Rightarrow> string \<Rightarrow> 'w \<Rightarrow> 'w"
  nm_close :: "'w \<Rightarrow> 'w"

section \<open>State\<close>

record nacos_watcher = rwatcher +
  nw_subscribed :: bool

record nacos = "nacos_watcher remote" +
  na_registered :: "service list"

definition newNacosRegistry :: "reg_option list \<Rightarrow> nacos" where
  "newNacosRegistry os =
     \<lparr>rr_opts = remote_options ''127.0.0.1:8848'' os, rr_services = (\<lambda>_. None), rr_watchers = {}, rr_heap = (\<lambda>_. None),
      rr_nextID = 0, rr_running = False, rr_client = False, na_registered = []\<rparr>"

definition uint64 :: "int \<Rightarrow> int" where
  "uint64 i = i mod 2 ^ 64"

definition nacos_config :: "reg_options \<Rightarrow> nacos_conf" where
  "nacos_config oo =
     \<lparr>nf_servers = map (\<lambda>addr. let (host, port) = parseAddr addr 8848 in (host, uint64 port)) (ro_addresses oo),
      nf_namespace = ro_namespace oo, nf_timeout_ms = uint64 (go_quot (ro_timeout oo) millisecond),
      nf_auth = (if ro_username oo \<noteq> '''' then Some (ro_username oo, ro_password oo) else None)\<rparr>"

definition nacos_Connect :: "'w naming_client \<Rightarrow> 'w \<Rightarrow> nacos \<Rightarrow> go_error option \<times> nacos" where
  "nacos_Connect nc w r =
     (if rr_running r then (None, r)
      else (case nm_new nc (nacos_config (rr_opts r)) w of
              Some err \<Rightarrow> (Some (Wrap ''nacos connect failed'' err), r)
            | None \<Rightarrow> (None, r\<lparr>rr_client := True, rr_running := True\<rparr>)))"

section \<open>Registration\<close>

definition nacos_param_of :: "reg_options \<Rightarrow> service \<Rightarrow> nacos_param" where
  "nacos_param_of oo s =
     (let (address, port) = parseAddr (svc_address s) 80
      in \<lparr>np_ip = address, np_port = uint64 port, np_service = svc_name s, np_group = ro_group oo,
          np_metadata = svc_metadata s\<rparr>)"

text \<open>\<open>t\<close>, \<open>t'\<close>: the two readings of the clock.  A registration appends to the list without looking at it.\<close>

definition nacos_Register ::
    "'w naming_client \<Rightarrow> time \<Rightarrow> time \<Rightarrow> service \<Rightarrow> 'w \<times> nacos \<Rightarrow> go_error option \<times> 'w \<times> nacos" where
  "nacos_Register nc t t' s0 wr =
     (let (w, r) = wr
      in if \<not> rr_client r then (Some ErrNotConnected, w, r)
         else (case nm_register nc (nacos_param_of (rr_opts r) s0) w of
             (Inl err, w') \<Rightarrow> (Some (Wrap ''nacos register failed'' err), w', r)
           | (Inr False, w') \<Rightarrow> (Some (Err ''nacos register failed: unknown error''), w', r)
           | (Inr True, w') \<Rightarrow>
               (let s = stamped t s0
                in (None, w', remote_cache_put t' s (r\<lparr>na_registered := na_registered r @ [s]\<rparr>)))))"

definition nacos_deregisterInstance :: "'w naming_client \<Rightarrow> service \<Rightarrow> nacos \<Rightarrow> 'w \<Rightarrow> go_error option \<times> 'w" where
  "nacos_deregisterInstance nc s r w =
     (if \<not> rr_client r then (None, w)
      else (case nm_deregister nc (nacos_param_of (rr_opts r) s) w of
              (Inl err, w') \<Rightarrow> (Some err, w') | (Inr _, w') \<Rightarrow> (None, w')))"

definition nacos_Deregister ::
    "'w naming_client \<Rightarrow> time \<Rightarrow> service \<Rightarrow> 'w \<times> nacos \<Rightarrow> go_error option \<times> 'w \<times> nacos" where
  "nacos_Deregister nc t s wr =
     (let (w, r) = wr
      in case nacos_deregisterInstance nc s r w of
           (Some err, w') \<Rightarrow> (Some (Wrap ''nacos deregister failed'' err), w', r)
         | (None, w') \<Rightarrow>
             (None, w', remote_cache_remove t s
                (r\<lparr>na_registered := remove_first (\<lambda>svc. svc_id svc = svc_id s) (na_registered r)\<rparr>)))"

section \<open>Lookup\<close>

definition instancesToServices :: "string \<Rightarrow> nacos_instance list \<Rightarrow> service list" where
  "instancesToServices name insts = map (\<lambda>inst.
     \<lparr>svc_name = name, svc_version = '''', svc_id = ni_id inst,
      svc_address = ni_ip inst @ '':'' @ itoa (ni_port inst), svc_metadata = ni_metadata inst, svc_endpoints = [],
      svc_ttl = 0, svc_last_seen = 0, svc_healthy = ni_healthy inst\<rparr>) insts"

definition nacos_GetService :: "'w naming_client \<Rightarrow> string \<Rightarrow> 'w \<times> nacos \<Rightarrow> service list result \<times> nacos" where
  "nacos_GetService nc name wr =
     (let (w, r) = wr
      in if \<not> rr_client r then (Inl ErrNotConnected, r)
         else (case nm_select nc name (ro_group (rr_opts r)) w of
             Inl err \<Rightarrow>
               (if cached (rr_services r) name \<noteq> [] then Inr (cached (rr_services r) name)
                else Inl (Wrap ''nacos get service failed'' err), r)
           | Inr insts \<Rightarrow>
               (let services = instancesToServices name insts
                in (Inr services, r\<lparr>rr_services := (rr_services r)(name \<mapsto> services)\<rparr>))))"

text \<open>Only the cache is listed.\<close>

definition nacos_ListServices :: "string list \<Rightarrow> nacos \<Rightarrow> service list" where
  "nacos_ListServices ks r = cached_services ks (rr_services r)"

section \<open>Watchers\<close>

text \<open>When the subscription fails, the watcher is in the map already.\<close>

definition nacos_Watch :: "'w naming_client \<Rightarrow> 'w \<times> nacos \<Rightarrow> nat result \<times> 'w \<times> nacos" where
  "nacos_Watch nc wr =
     (let (w, r) = wr
      in if \<not> rr_client r then (Inl ErrNotConnected, w, r)
         else (let service = wo_service (ro_watcher_option (rr_opts r));
                   nw = rwatcher.extend (new_rwatcher (rr_opts r)) \<lparr>nw_subscribed = False\<rparr>;
                   (i, r1) = remote_allocate nw r
               in if service = '''' then (Inr i, w, r1)
                  else (case nm_subscribe nc service (ro_group (rr_opts r)) w of
                      (Some err, w') \<Rightarrow> (Inl (Wrap ''nacos subscribe failed'' err), w', r1)
                    | (None, w') \<Rightarrow>
                        (Inr i, w', r1\<lparr>rr_heap := (rr_heap r1)(i \<mapsto> nw\<lparr>nw_subscribed := True\<rparr>)\<rparr>))))"

text \<open>
  The callback of a subscription: one event for each instance, with the name of the service in the
  options as they are by then.  The second component is what \<open>OnEvent\<close> is called with.
\<close>

definition nacos_callback :: "nat \<Rightarrow> time \<Rightarrow> nacos_instance list result \<Rightarrow> nacos \<Rightarrow> nacos \<times> (nat \<times> event) list" where
  "nacos_callback i t answer r =
     (case answer of
        Inl _ \<Rightarrow> (r, [])
      | Inr insts \<Rightarrow>
          (let wo = ro_watcher_option (rr_opts r);
               evs = map (\<lambda>s. \<lparr>ev_type = Update, ev_service = s, ev_timestamp = t\<rparr>) (instancesToServices (wo_service wo) insts)
           in (fold (remote_push i) evs r, on_event (rr_opts r) evs)))"

definition nacos_unsubscribe :: "'w naming_client \<Rightarrow> nat \<Rightarrow> nacos \<Rightarrow> 'w \<Rightarrow> 'w" where
  "nacos_unsubscribe nc i r w =
     (case rr_heap r i of
        None \<Rightarrow> w
      | Some nw \<Rightarrow> if nw_subscribed nw \<and> rr_client r \<and> rw_service nw \<noteq> ''''
                  then nm_unsubscribe nc (rw_service nw) (ro_group (rr_opts r)) w else w)"

definition nacos_Stop :: "'w naming_client \<Rightarrow> nat \<Rightarrow> 'w \<times> nacos \<Rightarrow> 'w \<times> nacos" where
  "nacos_Stop nc i wr = (let (w, r) = wr in (nacos_unsubscribe nc i r w, remote_Stop i r))"

text \<open>\<open>ws\<close> is the order in which the range meets the watchers.\<close>

definition nacos_Close :: "'w naming_client \<Rightarrow> nat list \<Rightarrow> 'w \<times> nacos \<Rightarrow> 'w \<times> nacos" where
  "nacos_Close nc ws wr =
     (let (w, r) = wr
      in if \<not> rr_running r then (w, r)
         else (let r1 = r\<lparr>rr_running := False, na_registered := [], rr_watchers := {}\<rparr>;
                   w1 = fold (\<lambda>s w. snd (nacos_deregisterInstance nc s r1 w)) (na_registered r) w;
                   (w2, r2) = fold (\<lambda>i (w, r). (nacos_unsubscribe nc i r w, remote_done i r)) ws (w1, r1)
               in (if rr_client r2 then nm_close nc w2 else w2, r2)))"

section \<open>Sequences of operations\<close>

datatype nacos_op =
    NaInit "reg_option list" | NaConnect | NaRegister time time service | NaDeregister time service | NaGetService string
  | NaWatch | NaCallback nat time "nacos_instance list result" | NaNext nat nat | NaStop nat | NaClose "nat list"

text \<open>\<open>NaNext i k\<close> takes the outcome \<open>k\<close> of those that are ready; a call that waits changes nothing.\<close>

fun nacos_exec :: "'w naming_client \<Rightarrow> nacos_op \<Rightarrow> 'w \<times> nacos \<Rightarrow> 'w \<times> nacos" where
  "nacos_exec nc (NaInit os) (w, r) = (w, remote_Init os r)"
| "nacos_exec nc NaConnect (w, r) = (w, snd (nacos_Connect nc w r))"
| "nacos_exec nc (NaRegister t t' s) wr = snd (nacos_Register nc t t' s wr)"
| "nacos_exec nc (NaDeregister t s) wr = snd (nacos_Deregister nc t s wr)"
| "nacos_exec nc (NaGetService n) (w, r) = (w, snd (nacos_GetService nc n (w, r)))"
| "nacos_exec nc NaWatch wr = snd (nacos_Watch nc wr)"
| "nacos_exec nc (NaCallback i t answer) (w, r) = (w, fst (nacos_callback i t answer r))"
| "nacos_exec nc (NaNext i k) (w, r) =
     (let rs = remote_Next i r in if k < length rs then (w, snd (rs ! k)) else (w, r))"
| "nacos_exec nc (NaStop i) wr = nacos_Stop nc i wr"
| "nacos_exec nc (NaClose ws) wr = nacos_Close nc ws wr"

fun nacos_apply :: "'w naming_client \<Rightarrow> reg_op \<Rightarrow> 'w \<times> nacos \<Rightarrow> 'w \<times> nacos" where
  "nacos_apply nc (Reg t s) wr = nacos_exec nc (NaRegister t t s) wr"
| "nacos_apply nc (Dereg s) wr = nacos_exec nc (NaDeregister 0 s) wr"

text \<open>A server that takes every registration, and answers deregistrations without an error.\<close>

definition nacos_accepting :: "'w naming_client \<Rightarrow> bool" where
  "nacos_accepting nc \<longleftrightarrow> (\<forall>p w. fst (nm_register nc p w) = Inr True \<and> (\<exists>b. fst (nm_deregister nc p w) = Inr b))"

lemma nacos_accepted:
  assumes "nacos_accepting nc"
  shows "nm_register nc p w = (Inr True, snd (nm_register nc p w))"
    and "fst (nacos_deregisterInstance nc s r w) = None"
proof -
  show "nm_register nc p w = (Inr True, snd (nm_register nc p w))"
    using assms by (simp add: nacos_accepting_def prod_eq_iff)
  obtain b where "fst (nm_deregister nc (nacos_param_of (rr_opts r) s) w) = Inr b"
    using assms by (auto simp: nacos_accepting_def)
  then show "fst (nacos_deregisterInstance nc s r w) = None"
    by (auto simp: nacos_deregisterInstance_def split: prod.splits)
qed

lemma nacos_Register_accepted:
  assumes "nacos_accepting nc" and "rr_client r"
  shows "nacos_Register nc t t' s (w, r) = (None, snd (nm_register nc (nacos_param_of (rr_opts r) s) w),
     remote_cache_put t' (stamped t s) (r\<lparr>na_registered := na_registered r @ [stamped t s]\<rparr>))"
proof -
  obtain w' where "nm_register nc (nacos_param_of (rr_opts r) s) w = (Inr True, w')"
    using nacos_accepted(1) [OF assms(1)] by blast
  with assms(2) show ?thesis by (simp add: nacos_Register_def Let_def)
qed

lemma nacos_Deregister_accepted:
  assumes "nacos_accepting nc"
  shows "nacos_Deregister nc t s (w, r) = (None, snd (nacos_deregisterInstance nc s r w),
     remote_cache_remove t s (r\<lparr>na_registered := remove_first (\<lambda>svc. svc_id svc = svc_id s) (na_registered r)\<rparr>))"
  using nacos_accepted(2) [OF assms, of s r w] by (cases "nacos_deregisterInstance nc s r w") (simp add: nacos_Deregister_def)

text \<open>With such a server a connected registry meets the contract of a caching backend.\<close>

lemma nacos_backend:
  assumes "nacos_accepting nc"
  shows "cached_backend (nacos_apply nc) (\<lambda>wr. rr_services (snd wr)) (\<lambda>wr. rr_client (snd wr))"
proof
  fix wr :: "'a \<times> nacos" and a assume "rr_client (snd wr)"
  then show "rr_client (snd (nacos_apply nc a wr))"
    and "rr_services (snd (nacos_apply nc a wr)) = cache_reg.op_apply a (rr_services (snd wr))"
    by (cases wr; cases a; simp add: nacos_Register_accepted [OF assms] nacos_Deregister_accepted [OF assms])+
qed

section \<open>Properties\<close>

text \<open>
  C23: While the server cannot be asked, \<open>GetService\<close> serves the cache: after any sequence of registrations
  and deregistrations that the server took, what it returns under an identifier is what the last
  operation on that name and identifier left, and the call changes nothing.
\<close>

theorem nacos_outage_serves_last_operation:
  assumes "nacos_accepting nc" and "rr_client r" and "cache_ok (rr_services r)"
    and "(n, i) = op_key a" and "(n, i) \<notin> op_key ` set bs"
    and run: "fold (nacos_apply nc) (as @ a # bs) (w, r) = (w', r')"
    and down: "nm_select nc n (ro_group (rr_opts r')) w' = Inl err"
  shows "find_key svc_id i (case nacos_GetService nc n (w', r') of (Inr svcs, _) \<Rightarrow> svcs | (Inl _, _) \<Rightarrow> []) = stored_by a
    \<and> snd (nacos_GetService nc n (w', r')) = r'"
proof -
  note backend = nacos_backend [OF assms(1)]
  have "cache_lookup (rr_services r') n i = stored_by a"
    using cached_backend.lookup_last [OF backend, of "(w, r)" n i a bs as] assms(2-5) run by simp
  moreover have "rr_client r'"
    using cached_backend.ready_fold [OF backend, of "(w, r)" "as @ a # bs"] assms(2) run by simp
  ultimately show ?thesis using down by (auto simp: nacos_GetService_def cache_lookup_def)
qed

text \<open>A naming server: the instances with their service and group, which it names after their address.\<close>

definition naming_server :: "(string \<times> string \<times> nacos_instance) list naming_client" where
  "naming_server =
     \<lparr>nm_new = (\<lambda>_ _. None),
      nm_register = (\<lambda>p w. (Inr True, (np_service p, np_group p,
         \<lparr>ni_id = np_ip p @ ''#'' @ itoa (np_port p), ni_ip = np_ip p, ni_port = np_port p, ni_healthy = True,
          ni_metadata = np_metadata p\<rparr>) # w)),
      nm_deregister = (\<lambda>p w. (Inr True, filter (\<lambda>(n, g, inst). \<not> (n = np_service p \<and> g = np_group p \<and>
         ni_ip inst = np_ip p \<and> ni_port inst = np_port p)) w)),
      nm_select = (\<lambda>n g w. Inr (map (snd \<circ> snd) (filter (\<lambda>(n', g', inst). n' = n \<and> g' = g \<and> ni_healthy inst) w))),
      nm_subscribe = (\<lambda>_ _ w. (None, w)), nm_unsubscribe = (\<lambda>_ _ w. w), nm_close = (\<lambda>w. w)\<rparr>"

definition naming_down :: "(string \<times> string \<times> nacos_instance) list naming_client" where
  "naming_down = naming_server\<lparr>nm_select := (\<lambda>_ _ _. Inl (Err ''timeout'')), nm_subscribe := (\<lambda>_ _ w. (Some (Err ''timeout''), w))\<rparr>"

definition nacos_connected :: nacos where
  "nacos_connected = (newNacosRegistry [])\<lparr>rr_client := True, rr_running := True\<rparr>"

theorem nacos_outage_serves_last_operation_witness:
  "\<exists>w' r'. fold (nacos_apply naming_down) ([] @ Reg 5 (demo_service ''a'' ''1'' 0) # [Reg 6 (demo_service ''a'' ''2'' 0)])
       ([], nacos_connected) = (w', r') \<and>
     find_key svc_id ''1'' (case nacos_GetService naming_down ''a'' (w', r') of (Inr svcs, _) \<Rightarrow> svcs | (Inl _, _) \<Rightarrow> []) =
       Some (stamped 5 (demo_service ''a'' ''1'' 0))"
proof -
  obtain w' r' where run: "fold (nacos_apply naming_down) ([] @ Reg 5 (demo_service ''a'' ''1'' 0) # [Reg 6 (demo_service ''a'' ''2'' 0)])
       ([], nacos_connected) = (w', r')" by (rule prod.exhaust)
  have "nacos_accepting naming_down" by (auto simp: nacos_accepting_def naming_down_def naming_server_def)
  moreover have "rr_client nacos_connected" "cache_ok (rr_services nacos_connected)"
    by (simp_all add: nacos_connected_def newNacosRegistry_def)
  moreover have "(''a'', ''1'') = op_key (Reg 5 (demo_service ''a'' ''1'' 0))"
    "(''a'', ''1'') \<notin> op_key ` set [Reg 6 (demo_service ''a'' ''2'' 0)]" by (simp_all add: demo_service_def)
  moreover have "nm_select naming_down ''a'' (ro_group (rr_opts r')) w' = Inl (Err ''timeout'')" by (simp add: naming_down_def)
  ultimately have "find_key svc_id ''1'' (case nacos_GetService naming_down ''a'' (w', r') of (Inr svcs, _) \<Rightarrow> svcs | (Inl _, _) \<Rightarrow> []) =
       stored_by (Reg 5 (demo_service ''a'' ''1'' 0))"
    using nacos_outage_serves_last_operation [OF _ _ _ _ _ run] by blast
  with run show ?thesis by (auto simp: stored_by_def)
qed

definition naming_keeps :: "'w naming_client \<Rightarrow> bool" where
  "naming_keeps nc \<longleftrightarrow> (\<forall>q w w'. nm_register nc q w = (Inr True, w') \<longrightarrow>
     (\<exists>insts. nm_select nc (np_service q) (np_group q) w' = Inr insts \<and>
       (\<exists>inst\<in>set insts. ni_ip inst = np_ip q \<and> ni_port inst = np_port q \<and> ni_healthy inst \<and>
          ni_metadata inst = np_metadata q)))"

text \<open>
  A service registered at \<open>host:port\<close> comes back from \<open>GetService\<close> with its name, its address and its
  metadata, healthy, provided the server gives out the instance it took.  (Its identifier is the one the
  server made up, and its version is lost.)
\<close>

theorem nacos_register_get:
  assumes "naming_keeps nc" and "rr_client r"
    and addr: "svc_address s = host @ '':'' @ itoa p" "CHR '':'' \<notin> set host" "0 \<le> p" "p < 2 ^ 63"
    and took: "nacos_Register nc t t' s (w, r) = (None, w', r')"
  shows "\<exists>svcs r''. nacos_GetService nc (svc_name s) (w', r') = (Inr svcs, r'') \<and>
     (\<exists>svc\<in>set svcs. svc_name svc = svc_name s \<and> svc_address svc = svc_address s \<and>
        svc_metadata svc = svc_metadata s \<and> svc_healthy svc)"
proof -
  have "parseAddr (svc_address s) 80 = (host, p)"
    unfolding addr(1) by (rule parseAddr_host_port) (use addr in \<open>simp_all add: in_int64_def\<close>)
  then have q: "nacos_param_of (rr_opts r) s = \<lparr>np_ip = host, np_port = p, np_service = svc_name s,
      np_group = ro_group (rr_opts r), np_metadata = svc_metadata s\<rparr>"
    using addr(3,4) by (simp add: nacos_param_of_def uint64_def)
  from took assms(2) have sent: "nm_register nc (nacos_param_of (rr_opts r) s) w = (Inr True, w')"
      "rr_client r'" "rr_opts r' = rr_opts r"
    by (auto simp: nacos_Register_def Let_def split: prod.splits sum.splits bool.splits)
  with assms(1) obtain insts inst where found:
    "nm_select nc (svc_name s) (ro_group (rr_opts r)) w' = Inr insts" "inst \<in> set insts"
    "ni_ip inst = host" "ni_port inst = p" "ni_healthy inst" "ni_metadata inst = svc_metadata s"
    unfolding naming_keeps_def q by fastforce
  define svcs where "svcs = instancesToServices (svc_name s) insts"
  have "\<exists>svc\<in>set svcs. svc_name svc = svc_name s \<and> svc_address svc = svc_address s \<and>
        svc_metadata svc = svc_metadata s \<and> svc_healthy svc"
    unfolding svcs_def instancesToServices_def addr(1) using found(2-) by force
  moreover have "nacos_GetService nc (svc_name s) (w', r') =
      (Inr svcs, r'\<lparr>rr_services := (rr_services r')(svc_name s \<mapsto> svcs)\<rparr>)"
    using sent found(1) by (simp add: nacos_GetService_def svcs_def Let_def)
  ultimately show ?thesis by blast
qed

theorem nacos_register_get_witness:
  "\<exists>svcs r''. nacos_GetService naming_server (svc_name (demo_service ''a'' ''1'' 0))
       (snd (nacos_Register naming_server 5 6 (demo_service ''a'' ''1'' 0) ([], nacos_connected))) = (Inr svcs, r'') \<and>
     (\<exists>svc\<in>set svcs. svc_name svc = svc_name (demo_service ''a'' ''1'' 0) \<and>
       svc_address svc = svc_address (demo_service ''a'' ''1'' 0) \<and>
       svc_metadata svc = svc_metadata (demo_service ''a'' ''1'' 0) \<and> svc_healthy svc)"
proof -
  have "itoa 80 = ''80''" by code_simp
  then have addr: "svc_address (demo_service ''a'' ''1'' 0) = ''10.0.0.1'' @ '':'' @ itoa 80"
    by (simp add: demo_service_def)
  have keeps: "naming_keeps naming_server" by (simp add: naming_keeps_def naming_server_def, intro allI, rule exI, rule conjI, rule disjI1, rule refl, simp)
  have client: "rr_client nacos_connected" by (simp add: nacos_connected_def)
  obtain w' r' where took:
      "nacos_Register naming_server 5 6 (demo_service ''a'' ''1'' 0) ([], nacos_connected) = (None, w', r')"
    using client by (simp add: nacos_Register_def naming_server_def Let_def)
  show ?thesis unfolding took snd_conv
    by (rule nacos_register_get [OF keeps client addr _ _ _ took]) simp_all
qed

text \<open>
  After \<open>Close\<close> every watcher that was registered has \<open>ErrWatcherStopped\<close> ready: its \<open>Next\<close> no longer waits.
\<close>

lemma nacos_close_loop:
  "fold (\<lambda>i (w, r). (nacos_unsubscribe nc i r w, remote_done i r)) ws (w, r) = (w', r') \<Longrightarrow>
     rr_heap r' i = (if i \<in> set ws then map_option (rw_done_update (\<lambda>_. True)) (rr_heap r i) else rr_heap r i) \<and>
     rr_watchers r' = rr_watchers r \<and> rr_running r' = rr_running r \<and> rr_client r' = rr_client r \<and>
     rr_nextID r' = rr_nextID r \<and> na_registered r' = na_registered r"
proof (induction ws arbitrary: w r)
  case (Cons j ws)
  have "na_registered (remote_done j r) = na_registered r" by (simp add: remote_done_def)
  with Cons.IH [of "nacos_unsubscribe nc j r w" "remote_done j r"] Cons.prems show ?case
    by (cases "rr_heap r i") (auto simp: remote_done_def)
qed simp

theorem nacos_Close_unblocks_watchers:
  assumes "remote_ok r" and "rr_running r" and "set ws = rr_watchers r"
    and "nacos_Close nc ws (w, r) = (w', r')"
  shows "rr_watchers r' = {} \<and> (\<forall>i\<in>rr_watchers r. (Inl ErrWatcherStopped, r') \<in> set (remote_Next i r'))"
proof -
  define r1 where "r1 = r\<lparr>rr_running := False, na_registered := [], rr_watchers := {}\<rparr>"
  obtain w1 w2 where loop:
      "fold (\<lambda>i (w, r). (nacos_unsubscribe nc i r w, remote_done i r)) ws (w1, r1) = (w2, r')"
    using assms(2,4) by (auto simp: nacos_Close_def r1_def Let_def split: prod.splits)
  have "rr_watchers r' = {}" using nacos_close_loop [OF loop] by (simp add: r1_def)
  moreover have "(Inl ErrWatcherStopped, r') \<in> set (remote_Next i r')" if "i \<in> rr_watchers r" for i
  proof -
    from assms(1) that obtain nw where "rr_heap r i = Some nw" by (auto simp: remote_ok_def)
    then have "rr_heap r' i = Some (nw\<lparr>rw_done := True\<rparr>)"
      using nacos_close_loop [OF loop, of i] that assms(3) by (simp add: r1_def)
    then show ?thesis by (simp add: remote_Next_def)
  qed
  ultimately show ?thesis by blast
qed

theorem nacos_Close_unblocks_watchers_witness:
  "let (w, r) = snd (nacos_Watch naming_server ([], nacos_connected)); (w', r') = nacos_Close naming_server [1] (w, r)
   in rr_watchers r' = {} \<and> (Inl ErrWatcherStopped, r') \<in> set (remote_Next 1 r')"
proof -
  obtain r where r: "snd (nacos_Watch naming_server ([], nacos_connected)) = ([], r)" "rr_running r" "rr_watchers r = {1}"
      "remote_ok r"
    by (simp add: nacos_Watch_def nacos_connected_def newNacosRegistry_def remote_options_def reg_apply_all_def
        reg_DefaultOptions_def remote_allocate_def remote_ok_def rwatcher.defs new_rwatcher_def)
  obtain w' r' where c: "nacos_Close naming_server [1] ([], r) = (w', r')" by (rule prod.exhaust)
  have "rr_watchers r' = {} \<and> (\<forall>i\<in>rr_watchers r. (Inl ErrWatcherStopped, r') \<in> set (remote_Next i r'))"
    by (rule nacos_Close_unblocks_watchers [OF r(4) r(2) _ c]) (simp add: r(3))
  then show ?thesis unfolding r(1) Let_def prod.case c using r(3) by simp
qed

text \<open>
  A \<open>Watch\<close> whose subscription fails returns an error and no watcher, but the watcher it has made stays in
  the registry's map, where nobody can stop it, and goes on to collect every matching event.
\<close>

theorem nacos_failed_subscription_leaks:
  assumes "rr_client r" and "wo_service (ro_watcher_option (rr_opts r)) = name" and "name \<noteq> ''''"
    and "nm_subscribe nc name (ro_group (rr_opts r)) w = (Some err, w')"
  shows "\<exists>r' i. nacos_Watch nc (w, r) = (Inl (Wrap ''nacos subscribe failed'' err), w', r') \<and>
     i = rr_nextID r + 1 \<and> i \<in> rr_watchers r' \<and>
     (\<forall>t s. svc_name s = name \<longrightarrow>
        (\<exists>nw. rr_heap (remote_cache_put t s r') i = Some nw \<and> length (chan_buf (rw_events nw)) = 1))"
proof -
  define i where "i = rr_nextID r + 1"
  define nw where "nw = rwatcher.extend (new_rwatcher (rr_opts r)) \<lparr>nw_subscribed = False\<rparr>"
  define r' where "r' = r\<lparr>rr_nextID := i, rr_watchers := insert i (rr_watchers r), rr_heap := (rr_heap r)(i \<mapsto> nw)\<rparr>"
  have nw: "rw_service nw = name" "chan_buf (rw_events nw) = []" "chan_cap (rw_events nw) = 100"
    using assms(2) by (simp_all add: nw_def rwatcher.defs new_rwatcher_def)
  have "nacos_Watch nc (w, r) = (Inl (Wrap ''nacos subscribe failed'' err), w', r')"
    using assms by (simp add: nacos_Watch_def remote_allocate_def nw_def [symmetric] i_def r'_def Let_def)
  moreover have "\<exists>nw'. rr_heap (remote_cache_put t s r') i = Some nw' \<and> length (chan_buf (rw_events nw')) = 1"
    if "svc_name s = name" for t s
    using that nw by (simp add: remote_cache_put_def remote_notify_def wanted_def r'_def chan_offer_buf)
  ultimately show ?thesis by (intro exI [of _ r'] exI [of _ i]) (simp add: i_def r'_def)
qed

theorem nacos_failed_subscription_leaks_witness:
  "\<exists>r' i. nacos_Watch naming_down ([], remote_Init [RegWithWatcherOption \<lparr>wo_service = ''a'', wo_on_event = None\<rparr>] nacos_connected) =
       (Inl (Wrap ''nacos subscribe failed'' (Err ''timeout'')), [], r') \<and> i = 1 \<and> i \<in> rr_watchers r'"
  using nacos_failed_subscription_leaks
    [of "remote_Init [RegWithWatcherOption \<lparr>wo_service = ''a'', wo_on_event = None\<rparr>] nacos_connected" "''a''"
        naming_down "[]" "Err ''timeout''" "[]"]
  by (auto simp: remote_Init_def reg_apply_all_def nacos_connected_def newNacosRegistry_def naming_down_def)

definition nacos_ok :: "nacos \<Rightarrow> bool" where
  "nacos_ok r \<longleftrightarrow> remote_ok r \<and> (rr_running r \<longrightarrow> rr_client r)"

lemma nacos_ok_close_loop:
  "remote_ok r \<Longrightarrow> remote_ok (snd (fold (\<lambda>i (w, r). (nacos_unsubscribe nc i r w, remote_done i r)) ws (w, r)))"
  by (induction ws arbitrary: w r) (simp_all add: remote_ok_done)

lemma nacos_ok_callback: "nacos_ok r \<Longrightarrow> nacos_ok (fold (remote_push i) evs r)"
  by (induction evs arbitrary: r) (simp_all add: remote_ok_push nacos_ok_def)

lemma nacos_ok_registered: "nacos_ok r \<Longrightarrow> nacos_ok (r\<lparr>na_registered := l\<rparr>)"
  by (simp add: nacos_ok_def remote_ok_def)

lemma nacos_ok_put: "nacos_ok r \<Longrightarrow> nacos_ok (remote_cache_put t s (r\<lparr>na_registered := l\<rparr>))"
  by (drule nacos_ok_registered [of r l]) (simp add: nacos_ok_def remote_ok_cache)

lemma nacos_ok_remove: "nacos_ok r \<Longrightarrow> nacos_ok (remote_cache_remove t s (r\<lparr>na_registered := l\<rparr>))"
  by (drule nacos_ok_registered [of r l]) (simp add: nacos_ok_def remote_ok_cache)

lemma nacos_ok_Register: "nacos_ok r \<Longrightarrow> nacos_ok (snd (snd (nacos_Register nc t t' s (w, r))))"
  by (auto simp: nacos_Register_def Let_def nacos_ok_put split: prod.splits sum.splits bool.splits)

lemma nacos_ok_Deregister: "nacos_ok r \<Longrightarrow> nacos_ok (snd (snd (nacos_Deregister nc t s (w, r))))"
  by (auto simp: nacos_Deregister_def nacos_ok_remove split: prod.splits option.splits)

lemma nacos_ok_GetService: "nacos_ok r \<Longrightarrow> nacos_ok (snd (nacos_GetService nc n (w, r)))"
  by (auto simp: nacos_GetService_def nacos_ok_def Let_def remote_ok_services split: sum.splits)

lemma nacos_ok_Init: "nacos_ok r \<Longrightarrow> nacos_ok (remote_Init os r)"
  by (simp add: remote_Init_def nacos_ok_def remote_ok_def)

lemma nacos_ok_Stop: "nacos_ok r \<Longrightarrow> nacos_ok (remote_Stop i r)"
  by (simp add: nacos_ok_def remote_ok_Stop) (simp add: remote_Stop_def)

lemma nacos_ok_Connect: "nacos_ok r \<Longrightarrow> nacos_ok (snd (nacos_Connect nc w r))"
  by (auto simp: nacos_Connect_def nacos_ok_def remote_ok_def split: option.splits)

lemma nacos_ok_Watch: "nacos_ok r \<Longrightarrow> nacos_ok (snd (snd (nacos_Watch nc (w, r))))"
proof -
  assume ok: "nacos_ok r"
  define nw where "nw = rwatcher.extend (new_rwatcher (rr_opts r)) \<lparr>nw_subscribed = False\<rparr>"
  obtain i r1 where alloc: "remote_allocate nw r = (i, r1)" by (rule prod.exhaust)
  have chan: "chan_cap (rw_events nw) = 100" "chan_ok (rw_events nw)"
    by (simp_all add: nw_def rwatcher.defs new_rwatcher_def)
  have "remote_ok r1" using remote_ok_allocate [of r nw] ok chan alloc by (simp add: nacos_ok_def)
  moreover have flags: "rr_running r1 = rr_running r" "rr_client r1 = rr_client r" "rr_heap r1 i = Some nw"
    using alloc by (auto simp: remote_allocate_def)
  ultimately have r1: "nacos_ok r1" using ok by (simp add: nacos_ok_def)
  have "remote_ok (r1\<lparr>rr_heap := (rr_heap r1)(i \<mapsto> nw\<lparr>nw_subscribed := True\<rparr>)\<rparr>)"
    by (rule remote_ok_heap [OF \<open>remote_ok r1\<close>]) (use flags in \<open>auto split: if_splits\<close>)
  with r1 have "nacos_ok (r1\<lparr>rr_heap := (rr_heap r1)(i \<mapsto> nw\<lparr>nw_subscribed := True\<rparr>)\<rparr>)" by (simp add: nacos_ok_def)
  with ok r1 alloc show ?thesis
    by (auto simp: nacos_Watch_def Let_def nw_def [symmetric] split: prod.splits option.splits)
qed

lemma nacos_ok_Close: "nacos_ok r \<Longrightarrow> nacos_ok (snd (nacos_Close nc ws (w, r)))"
proof -
  assume ok: "nacos_ok r"
  define r1 where "r1 = r\<lparr>rr_running := False, na_registered := [], rr_watchers := {}\<rparr>"
  define w1 where "w1 = fold (\<lambda>s w. snd (nacos_deregisterInstance nc s r1 w)) (na_registered r) w"
  obtain w2 r2 where loop:
      "fold (\<lambda>i (w, r). (nacos_unsubscribe nc i r w, remote_done i r)) ws (w1, r1) = (w2, r2)" by (rule prod.exhaust)
  have "remote_ok r1" using ok by (simp add: nacos_ok_def remote_ok_def r1_def)
  from nacos_ok_close_loop [OF this, of nc ws w1] have "remote_ok r2" by (simp add: loop)
  moreover have "\<not> rr_running r2" using nacos_close_loop [OF loop] by (simp add: r1_def)
  ultimately show ?thesis
    using ok loop by (simp add: nacos_Close_def nacos_ok_def Let_def r1_def [symmetric] w1_def [symmetric])
qed

lemma nacos_ok_exec: "nacos_ok (snd wr) \<Longrightarrow> nacos_ok (snd (nacos_exec nc a wr))"
proof (cases wr)
  fix w r assume wr: "wr = (w, r)" and "nacos_ok (snd wr)"
  then have ok: "nacos_ok r" by simp
  show "nacos_ok (snd (nacos_exec nc a wr))" unfolding wr
  proof (cases a)
    case (NaNext i k)
    show "nacos_ok (snd (nacos_exec nc a (w, r)))"
    proof (cases "k < length (remote_Next i r)")
      case True
      then have out: "(fst (remote_Next i r ! k), snd (remote_Next i r ! k)) \<in> set (remote_Next i r)" by simp
      from ok NaNext True remote_ok_Next [OF _ out] remote_Next_fields [OF out] show ?thesis
        by (simp add: nacos_ok_def Let_def)
    qed (use ok NaNext in \<open>simp add: Let_def\<close>)
  qed (use ok in \<open>auto simp: nacos_ok_Register nacos_ok_Deregister nacos_ok_GetService nacos_ok_Connect nacos_ok_Watch
      nacos_ok_Close nacos_ok_Stop nacos_Stop_def nacos_callback_def nacos_ok_callback Let_def nacos_ok_Init split: sum.splits\<close>)
qed

text \<open>The watchers of the map have not been stopped.\<close>

definition watchers_open :: "nacos \<Rightarrow> bool" where
  "watchers_open r \<longleftrightarrow> (\<forall>i\<in>rr_watchers r. map_option rw_done (rr_heap r i) \<noteq> Some True)"

lemma watchers_open_same:
  "watchers_open r \<Longrightarrow> rr_watchers r' \<subseteq> rr_watchers r \<Longrightarrow>
     (\<And>i. i \<in> rr_watchers r' \<Longrightarrow> map_option rw_done (rr_heap r' i) = map_option rw_done (rr_heap r i)) \<Longrightarrow> watchers_open r'"
  unfolding watchers_open_def by (metis subsetD)

lemma rw_done_push [simp]: "rw_done (push_event ev nw) = rw_done nw"
  by (simp add: push_event_def)

lemma done_cache [simp]:
  "map_option rw_done (rr_heap (remote_cache_put t s r) i) = map_option rw_done (rr_heap r i)"
  "map_option rw_done (rr_heap (remote_cache_remove t s r) i) = map_option rw_done (rr_heap r i)"
  by (cases "rr_heap r i"; simp add: remote_cache_put_def remote_cache_remove_def remote_notify_def)+

lemma open_pushes: "watchers_open r \<Longrightarrow> watchers_open (fold (remote_push i) evs r)"
proof (induction evs arbitrary: r)
  case (Cons ev evs)
  have "watchers_open (remote_push i ev r)"
    by (rule watchers_open_same [OF Cons.prems]) (auto simp: remote_push_def option.map_comp comp_def)
  with Cons show ?case by simp
qed simp

lemma open_Next: "watchers_open r \<Longrightarrow> (a, r') \<in> set (remote_Next i r) \<Longrightarrow> watchers_open r'"
  by (erule watchers_open_same) (auto simp: remote_Next_def split: option.splits if_splits dest!: sym [of _ "rr_heap r i"])

lemma open_Stop: "watchers_open r \<Longrightarrow> watchers_open (remote_Stop i r)"
  by (erule watchers_open_same) (auto simp: remote_Stop_def remote_done_def)

lemma watchers_close_loop:
  "rr_watchers (snd (fold (\<lambda>i (w, r). (nacos_unsubscribe nc i r w, remote_done i r)) ws (w, r))) = rr_watchers r"
  by (induction ws arbitrary: w r) (simp_all add: remote_done_def)

lemma open_Close: "watchers_open r \<Longrightarrow> watchers_open (snd (nacos_Close nc ws (w, r)))"
proof (cases "rr_running r")
  case True
  then have "rr_watchers (snd (nacos_Close nc ws (w, r))) = {}"
    using watchers_close_loop [of nc ws] by (simp add: nacos_Close_def Let_def case_prod_beta)
  then show ?thesis by (simp add: watchers_open_def)
qed (simp add: nacos_Close_def)

lemma nacos_Watch_out:
  assumes "nacos_Watch nc (w, r) = (out, w', r')"
  shows "r' = r \<and> (\<exists>e. out = Inl e) \<or>
    rr_nextID r' = Suc (rr_nextID r) \<and> rr_watchers r' = insert (rr_nextID r') (rr_watchers r) \<and>
    map_option rw_done (rr_heap r' (rr_nextID r')) = Some False \<and>
    (\<forall>i. i \<noteq> rr_nextID r' \<longrightarrow> rr_heap r' i = rr_heap r i) \<and> (out = Inr (rr_nextID r') \<or> (\<exists>e. out = Inl e))"
  using assms
  by (auto simp: nacos_Watch_def remote_allocate_def Let_def rwatcher.defs new_rwatcher_def split: if_splits prod.splits option.splits)

lemma open_Watch: "watchers_open r \<Longrightarrow> nacos_Watch nc (w, r) = (out, w', r') \<Longrightarrow> watchers_open r'"
  using nacos_Watch_out [of nc w r out w' r'] unfolding watchers_open_def by (metis insertE option.inject)

lemma open_fields [simp]:
  "watchers_open (r\<lparr>na_registered := l\<rparr>) = watchers_open r" "watchers_open (r\<lparr>rr_services := c\<rparr>) = watchers_open r"
  "watchers_open (r\<lparr>rr_client := b\<rparr>) = watchers_open r" "watchers_open (r\<lparr>rr_running := b\<rparr>) = watchers_open r"
  "watchers_open (r\<lparr>rr_opts := oo\<rparr>) = watchers_open r"
  by (simp_all add: watchers_open_def)

lemma open_cache: "watchers_open r \<Longrightarrow> watchers_open (remote_cache_put t s r)" "watchers_open r \<Longrightarrow> watchers_open (remote_cache_remove t s r)"
  by (erule watchers_open_same; simp)+

lemma open_exec: "watchers_open (snd wr) \<Longrightarrow> watchers_open (snd (nacos_exec nc a wr))"
proof (cases wr)
  fix w r assume wr: "wr = (w, r)" and "watchers_open (snd wr)"
  then have ok: "watchers_open r" by simp
  show "watchers_open (snd (nacos_exec nc a wr))" unfolding wr
  proof (cases a)
    case NaWatch
    obtain out w' r' where out: "nacos_Watch nc (w, r) = (out, w', r')" by (metis prod.exhaust)
    from open_Watch [OF ok out] show "watchers_open (snd (nacos_exec nc a (w, r)))" by (simp add: NaWatch out)
  next
    case (NaNext i k)
    show "watchers_open (snd (nacos_exec nc a (w, r)))"
    proof (cases "k < length (remote_Next i r)")
      case True
      then have "(fst (remote_Next i r ! k), snd (remote_Next i r ! k)) \<in> set (remote_Next i r)" by simp
      from open_Next [OF ok this] NaNext True show ?thesis by (simp add: Let_def)
    qed (use ok NaNext in \<open>simp add: Let_def\<close>)
  next
    case (NaRegister t t' s)
    with ok show "watchers_open (snd (nacos_exec nc a (w, r)))"
      by (auto simp: nacos_Register_def Let_def open_cache split: prod.splits sum.splits bool.splits)
  next
    case (NaDeregister t s)
    with ok show "watchers_open (snd (nacos_exec nc a (w, r)))"
      by (auto simp: nacos_Deregister_def open_cache split: prod.splits option.splits)
  next
    case (NaGetService n)
    with ok show "watchers_open (snd (nacos_exec nc a (w, r)))" by (auto simp: nacos_GetService_def Let_def split: sum.splits)
  qed (use ok open_Close [OF ok] open_pushes [OF ok] in \<open>auto simp: remote_Init_def nacos_Connect_def nacos_Stop_def open_Stop
      nacos_callback_def Let_def split: option.splits sum.splits\<close>)
qed

text \<open>The numbers the calls of \<open>Watch\<close> in a run return, in order.\<close>

fun watch_numbers :: "'w naming_client \<Rightarrow> nacos_op list \<Rightarrow> 'w \<times> nacos \<Rightarrow> nat list" where
  "watch_numbers nc [] wr = []"
| "watch_numbers nc (a # as) wr =
     (case a of NaWatch \<Rightarrow> (case fst (nacos_Watch nc wr) of Inr i \<Rightarrow> [i] | Inl _ \<Rightarrow> []) | _ \<Rightarrow> []) @
     watch_numbers nc as (nacos_exec nc a wr)"

lemma nextID_exec: "a \<noteq> NaWatch \<Longrightarrow> rr_nextID (snd (nacos_exec nc a wr)) = rr_nextID (snd wr)"
proof (cases wr)
  fix w r assume "a \<noteq> NaWatch" and wr: "wr = (w, r)"
  have push: "rr_nextID (fold (remote_push i) evs r) = rr_nextID r" for i evs
    by (induction evs arbitrary: r) (simp_all add: remote_push_def)
  have next_: "(b, r') \<in> set (remote_Next i r) \<Longrightarrow> rr_nextID r' = rr_nextID r" for b r' i
    by (auto simp: remote_Next_def split: option.splits if_splits)
  have cache: "rr_nextID (remote_cache_put t s r) = rr_nextID r" "rr_nextID (remote_cache_remove t s r) = rr_nextID r" for t s and r :: nacos
    by (simp_all add: remote_cache_put_def remote_cache_remove_def)
  have close: "rr_nextID (snd (fold (\<lambda>i (w, r). (nacos_unsubscribe nc i r w, remote_done i r)) ws (w, r))) = rr_nextID r" for ws w and r :: nacos
    by (induction ws arbitrary: w r) (simp_all add: remote_done_def)
  show "rr_nextID (snd (nacos_exec nc a wr)) = rr_nextID (snd wr)" unfolding wr
  proof (cases a)
    case (NaNext i k)
    show "rr_nextID (snd (nacos_exec nc a (w, r))) = rr_nextID (snd (w, r))"
    proof (cases "k < length (remote_Next i r)")
      case True
      then have "(fst (remote_Next i r ! k), snd (remote_Next i r ! k)) \<in> set (remote_Next i r)" by simp
      from next_ [OF this] NaNext True show ?thesis by (simp add: Let_def)
    qed (use NaNext in \<open>simp add: Let_def\<close>)
  next
    case (NaClose ws)
    then show "rr_nextID (snd (nacos_exec nc a (w, r))) = rr_nextID (snd (w, r))"
      using close [of ws] by (simp add: nacos_Close_def Let_def case_prod_beta)
  next
    case (NaRegister t t' s)
    then show "rr_nextID (snd (nacos_exec nc a (w, r))) = rr_nextID (snd (w, r))"
      by (auto simp: nacos_Register_def Let_def cache split: prod.splits sum.splits bool.splits)
  next
    case (NaDeregister t s)
    then show "rr_nextID (snd (nacos_exec nc a (w, r))) = rr_nextID (snd (w, r))"
      by (auto simp: nacos_Deregister_def cache split: prod.splits option.splits)
  next
    case (NaGetService n)
    then show "rr_nextID (snd (nacos_exec nc a (w, r))) = rr_nextID (snd (w, r))"
      by (auto simp: nacos_GetService_def Let_def split: sum.splits)
  qed (use \<open>a \<noteq> NaWatch\<close> in \<open>auto simp: remote_Init_def nacos_Connect_def nacos_Stop_def remote_Stop_def remote_done_def
      nacos_callback_def push Let_def split: option.splits sum.splits\<close>)
qed

lemma watch_numbers_rise:
  "sorted_wrt (<) (watch_numbers nc as wr) \<and>
   set (watch_numbers nc as wr) \<subseteq> {rr_nextID (snd wr) <.. rr_nextID (snd (fold (nacos_exec nc) as wr))} \<and>
   rr_nextID (snd wr) \<le> rr_nextID (snd (fold (nacos_exec nc) as wr))"
proof (induction as arbitrary: wr)
  case (Cons a as)
  note IH = Cons.IH [of "nacos_exec nc a wr"]
  show ?case
  proof (cases "a = NaWatch")
    case False
    then have "watch_numbers nc (a # as) wr = watch_numbers nc as (nacos_exec nc a wr)" by (cases a) simp_all
    with IH nextID_exec [OF False, of nc wr] show ?thesis by simp
  next
    case True
    obtain w r where wr: "wr = (w, r)" by (cases wr)
    obtain out w' r' where out: "nacos_Watch nc (w, r) = (out, w', r')" by (metis prod.exhaust)
    have exec: "nacos_exec nc a wr = (w', r')" by (simp add: True wr out)
    from nacos_Watch_out [OF out] IH show ?thesis
      unfolding fold_simps exec by (cases out) (auto simp: True wr out)
  qed
qed simp

text \<open>
  C30: Whatever the operations, in whatever order, and the answers of the server: the numbers that the calls of
  \<open>Watch\<close> return rise, so no two watchers ever have the same, and none is above the counter; a running
  registry has its client; the watchers in the map exist and have not been stopped; and no watcher's
  buffer holds more than its hundred events.
\<close>

theorem nacos_invariant:
  fixes nc :: "'w naming_client"
  defines "run \<equiv> \<lambda>as w os. snd (fold (nacos_exec nc) as (w, newNacosRegistry os))"
  shows "sorted_wrt (<) (watch_numbers nc as (w, newNacosRegistry os)) \<and>
     set (watch_numbers nc as (w, newNacosRegistry os)) \<subseteq> {1..rr_nextID (run as w os)} \<and>
     nacos_ok (run as w os) \<and> watchers_open (run as w os)"
proof -
  have step: "nacos_ok (snd wr) \<and> watchers_open (snd wr) \<Longrightarrow>
      nacos_ok (snd (fold (nacos_exec nc) as wr)) \<and> watchers_open (snd (fold (nacos_exec nc) as wr))" for wr
    by (induction as arbitrary: wr) (simp_all add: nacos_ok_exec open_exec)
  have "nacos_ok (newNacosRegistry os)" "watchers_open (newNacosRegistry os)"
    by (simp_all add: nacos_ok_def remote_ok_def newNacosRegistry_def watchers_open_def)
  then have "nacos_ok (run as w os) \<and> watchers_open (run as w os)"
    unfolding run_def by (intro step) simp
  moreover have "rr_nextID (newNacosRegistry os) = 0" by (simp add: newNacosRegistry_def)
  ultimately show ?thesis using watch_numbers_rise [of nc as "(w, newNacosRegistry os)"] unfolding run_def by fastforce
qed

end
