(* ===== verification/SnakeGame.thy ===== *)
theory SnakeGame
  imports Prelude
begin

text \<open>
  The game of the example server (\<open>examples/snake_battle/game/game.go\<close>): snakes, rooms with their
  update step, the room manager.  \<open>rand.Intn\<close> is an argument over a generator state.  A range over the
  players of a room takes their identifiers in an order given by the caller.
\<close>

section \<open>Snakes\<close>

definition GridWidth :: int where "GridWidth = 40"
definition GridHeight :: int where "GridHeight = 30"

datatype direction = DirUp | DirDown | DirLeft | DirRight

type_synonym point = "int \<times> int"

record snake =
  sn_Body :: "point list"
  sn_Direction :: direction
  sn_Growing :: bool
  sn_Alive :: bool
  sn_Score :: int

text \<open>The body lies behind the head.\<close>

fun behind :: "direction \<Rightarrow> int \<Rightarrow> point \<Rightarrow> point" where
  "behind DirUp i (x, y) = (x, y + i)"
| "behind DirDown i (x, y) = (x, y - i)"
| "behind DirLeft i (x, y) = (x + i, y)"
| "behind DirRight i (x, y) = (x - i, y)"

definition NewSnake :: "int \<Rightarrow> int \<Rightarrow> direction \<Rightarrow> snake" where
  "NewSnake startX startY dir =
     \<lparr>sn_Body = [(startX, startY), behind dir 1 (startX, startY), behind dir 2 (startX, startY)],
      sn_Direction = dir, sn_Growing = False, sn_Alive = True, sn_Score = 0\<rparr>"

text \<open>\<open>Head\<close> reads the first segment: on an empty body the code panics, and \<open>hd\<close> is not specified.\<close>

definition Head :: "snake \<Rightarrow> point" where
  "Head s = hd (sn_Body s)"

fun ahead :: "direction \<Rightarrow> point \<Rightarrow> point" where
  "ahead DirUp (x, y) = (x, y - 1)"
| "ahead DirDown (x, y) = (x, y + 1)"
| "ahead DirLeft (x, y) = (x - 1, y)"
| "ahead DirRight (x, y) = (x + 1, y)"

definition Move :: "snake \<Rightarrow> snake" where
  "Move s =
     (if \<not> sn_Alive s then s
      else (let body = ahead (sn_Direction s) (Head s) # sn_Body s
            in s\<lparr>sn_Body := (if sn_Growing s then body else butlast body), sn_Growing := False\<rparr>))"

fun opposite :: "direction \<Rightarrow> direction" where
  "opposite DirUp = DirDown"
| "opposite DirDown = DirUp"
| "opposite DirLeft = DirRight"
| "opposite DirRight = DirLeft"

text \<open>Statements about all directions are finite, so they can be evaluated.\<close>

instantiation direction :: enum
begin

definition enum_direction :: "direction list" where
  "enum_direction = [DirUp, DirDown, DirLeft, DirRight]"

definition enum_all_direction :: "(direction \<Rightarrow> bool) \<Rightarrow> bool" where
  "enum_all_direction p \<longleftrightarrow> p DirUp \<and> p DirDown \<and> p DirLeft \<and> p DirRight"

definition enum_ex_direction :: "(direction \<Rightarrow> bool) \<Rightarrow> bool" where
  "enum_ex_direction p \<longleftrightarrow> p DirUp \<or> p DirDown \<or> p DirLeft \<or> p DirRight"

instance
proof
  show univ: "(UNIV :: direction set) = set enum_class.enum"
    by (auto simp: enum_direction_def intro: direction.exhaust)
  show "distinct (enum_class.enum :: direction list)"
    by (simp add: enum_direction_def)
  show "enum_class.enum_all p \<longleftrightarrow> Ball UNIV p" for p :: "direction \<Rightarrow> bool"
    unfolding univ by (simp add: enum_direction_def enum_all_direction_def)
  show "enum_class.enum_ex p \<longleftrightarrow> Bex UNIV p" for p :: "direction \<Rightarrow> bool"
    unfolding univ by (simp add: enum_direction_def enum_ex_direction_def)
qed

end

lemma opposite_all: "\<forall>d. opposite (opposite d) = d \<and> opposite d \<noteq> d"
  by code_simp

text \<open>Every turn but the one backwards is taken.\<close>

definition SetDirection :: "direction \<Rightarrow> snake \<Rightarrow> snake" where
  "SetDirection dir s = (if dir = opposite (sn_Direction s) then s else s\<lparr>sn_Direction := dir\<rparr>)"

definition Grow :: "snake \<Rightarrow> snake" where
  "Grow s = s\<lparr>sn_Growing := True, sn_Score := sn_Score s + 10\<rparr>"

definition CheckSelfCollision :: "snake \<Rightarrow> bool" where
  "CheckSelfCollision s \<longleftrightarrow> Head s \<in> set (tl (sn_Body s))"

definition CheckWallCollision :: "snake \<Rightarrow> bool" where
  "CheckWallCollision s \<longleftrightarrow>
     (let (x, y) = Head s in x < 0 \<or> x \<ge> GridWidth \<or> y < 0 \<or> y \<ge> GridHeight)"

section \<open>Rooms\<close>

datatype room_state = StateWaiting | StatePlaying | StateFinished

record room =
  rm_ID :: string
  rm_Players :: "string \<Rightarrow> snake option"
  rm_Foods :: "point list"
  rm_State :: room_state
  rm_ticking :: bool  \<comment> \<open>the ticker runs\<close>
  rm_done :: bool     \<comment> \<open>\<open>done\<close> is closed: the game loop has ended or ends\<close>

definition NewRoom :: "string \<Rightarrow> room" where
  "NewRoom i = \<lparr>rm_ID = i, rm_Players = (\<lambda>_. None), rm_Foods = [], rm_State = StateWaiting,
     rm_ticking = False, rm_done = False\<rparr>"

definition PlayerCount :: "room \<Rightarrow> nat" where
  "PlayerCount r = card (dom (rm_Players r))"

definition IsFull :: "room \<Rightarrow> bool" where
  "IsFull r \<longleftrightarrow> PlayerCount r \<ge> 2"

definition AddPlayer :: "string \<Rightarrow> room \<Rightarrow> bool \<times> room" where
  "AddPlayer i r =
     (if PlayerCount r \<ge> 2 then (False, r)
      else (let s = (if PlayerCount r = 0 then NewSnake 5 (GridHeight div 2) DirRight
                     else NewSnake (GridWidth - 6) (GridHeight div 2) DirLeft)
            in (True, r\<lparr>rm_Players := (rm_Players r)(i \<mapsto> s)\<rparr>)))"

definition RemovePlayer :: "string \<Rightarrow> room \<Rightarrow> room" where
  "RemovePlayer i r = r\<lparr>rm_Players := (rm_Players r)(i := None)\<rparr>"

definition room_SetDirection :: "string \<Rightarrow> direction \<Rightarrow> room \<Rightarrow> room" where
  "room_SetDirection i dir r =
     (case rm_Players r i of
        Some s \<Rightarrow> r\<lparr>rm_Players := (rm_Players r)(i \<mapsto> SetDirection dir s)\<rparr> | None \<Rightarrow> r)"

text \<open>\<open>spawnFood\<close>: up to 100 random places; the first that is free gets the food.\<close>

type_synonym 'g rand = "int \<Rightarrow> 'g \<Rightarrow> int \<times> 'g"

definition on_snake :: "string list \<Rightarrow> point \<Rightarrow> room \<Rightarrow> bool" where
  "on_snake ks p r \<longleftrightarrow> list_ex (\<lambda>(_, s). p \<in> set (sn_Body s)) (range_over ks (rm_Players r))"

fun spawn_tries :: "'g rand \<Rightarrow> string list \<Rightarrow> nat \<Rightarrow> room \<Rightarrow> 'g \<Rightarrow> room \<times> 'g" where
  "spawn_tries intn ks 0 r g = (r, g)"
| "spawn_tries intn ks (Suc n) r g =
     (let (x, g1) = intn GridWidth g; (y, g2) = intn GridHeight g1
      in if on_snake ks (x, y) r \<or> (x, y) \<in> set (rm_Foods r) then spawn_tries intn ks n r g2
         else (r\<lparr>rm_Foods := rm_Foods r @ [(x, y)]\<rparr>, g2))"

definition spawnFood :: "'g rand \<Rightarrow> string list \<Rightarrow> room \<Rightarrow> 'g \<Rightarrow> room \<times> 'g" where
  "spawnFood intn ks r g = spawn_tries intn ks 100 r g"

definition room_Start :: "'g rand \<Rightarrow> string list \<Rightarrow> room \<Rightarrow> 'g \<Rightarrow> room \<times> 'g" where
  "room_Start intn ks r g =
     (if rm_State r \<noteq> StateWaiting then (r, g)
      else (let (r1, g1) = spawnFood intn ks (r\<lparr>rm_State := StatePlaying\<rparr>) g;
                (r2, g2) = spawnFood intn ks r1 g1;
                (r3, g3) = spawnFood intn ks r2 g2
            in (r3\<lparr>rm_ticking := True\<rparr>, g3)))"

definition room_Stop :: "room \<Rightarrow> room" where
  "room_Stop r = r\<lparr>rm_ticking := False, rm_done := True\<rparr>"

subsection \<open>The update step\<close>

definition move_all :: "room \<Rightarrow> room" where
  "move_all r = r\<lparr>rm_Players := (\<lambda>i. map_option (\<lambda>s. if sn_Alive s then Move s else s) (rm_Players r i))\<rparr>"

definition set_snake :: "string \<Rightarrow> snake \<Rightarrow> room \<Rightarrow> room" where
  "set_snake i s r = r\<lparr>rm_Players := (rm_Players r)(i \<mapsto> s)\<rparr>"

text \<open>The inner range only looks for some other snake that is alive: its order does not matter.\<close>

definition hits_other :: "string list \<Rightarrow> string \<Rightarrow> snake \<Rightarrow> room \<Rightarrow> bool" where
  "hits_other ks i s r \<longleftrightarrow>
     list_ex (\<lambda>(j, other). j \<noteq> i \<and> sn_Alive other \<and> Head s \<in> set (sn_Body other)) (range_over ks (rm_Players r))"

definition eat :: "'g rand \<Rightarrow> string list \<Rightarrow> string \<Rightarrow> snake \<Rightarrow> room \<Rightarrow> 'g \<Rightarrow> room \<times> 'g" where
  "eat intn ks i s r g =
     (if Head s \<in> set (rm_Foods r)
      then (let r1 = set_snake i (Grow s) r
            in spawnFood intn ks (r1\<lparr>rm_Foods := remove1 (Head s) (rm_Foods r1)\<rparr>) g)
      else (r, g))"

definition check_player :: "'g rand \<Rightarrow> string list \<Rightarrow> string \<Rightarrow> room \<times> 'g \<Rightarrow> room \<times> 'g" where
  "check_player intn ks i rg =
     (let (r, g) = rg
      in case rm_Players r i of
           None \<Rightarrow> (r, g)
         | Some s \<Rightarrow>
             if \<not> sn_Alive s then (r, g)
             else if CheckWallCollision s \<or> CheckSelfCollision s \<or> hits_other ks i s r
             then (set_snake i (s\<lparr>sn_Alive := False\<rparr>) r, g)
             else eat intn ks i s r g)"

definition alive_ids :: "string list \<Rightarrow> room \<Rightarrow> string list" where
  "alive_ids ks r = map fst (filter (\<lambda>(_, s). sn_Alive s) (range_over ks (rm_Players r)))"

text \<open>What the update reports: the state to everybody, or the end with the winner (\<open>''''\<close> for none).\<close>

datatype room_event = NoEvent | Updated | Ended string

definition room_update :: "'g rand \<Rightarrow> string list \<Rightarrow> room \<Rightarrow> 'g \<Rightarrow> room_event \<times> room \<times> 'g" where
  "room_update intn ks r g =
     (if rm_State r \<noteq> StatePlaying then (NoEvent, r, g)
      else (let (r1, g1) = fold (check_player intn ks) ks (move_all r, g);
                alive = alive_ids ks r1
            in if length alive \<le> 1
               then (Ended (if alive = [] then '''' else last alive),
                     r1\<lparr>rm_State := StateFinished, rm_ticking := False\<rparr>, g1)
               else (Updated, r1, g1)))"

section \<open>The room manager\<close>

type_synonym room_manager = "string \<Rightarrow> room option"

definition NewRoomManager :: room_manager where
  "NewRoomManager = (\<lambda>_. None)"

definition CreateRoom :: "string \<Rightarrow> room_manager \<Rightarrow> room_manager" where
  "CreateRoom i m = m(i \<mapsto> NewRoom i)"

definition GetRoom :: "string \<Rightarrow> room_manager \<Rightarrow> room option" where
  "GetRoom i m = m i"

text \<open>The room itself is stopped, and forgotten by the manager.\<close>

definition RemoveRoom :: "string \<Rightarrow> room_manager \<Rightarrow> room option \<times> room_manager" where
  "RemoveRoom i m = (map_option room_Stop (m i), m(i := None))"

record RoomInfo =
  ri_ID :: string
  ri_PlayerCount :: nat
  ri_State :: room_state

definition ListRooms :: "string list \<Rightarrow> room_manager \<Rightarrow> RoomInfo list" where
  "ListRooms ks m =
     map (\<lambda>(i, r). \<lparr>ri_ID = i, ri_PlayerCount = PlayerCount r, ri_State = rm_State r\<rparr>) (range_over ks m)"

definition FindAvailableRoom :: "string list \<Rightarrow> room_manager \<Rightarrow> room option" where
  "FindAvailableRoom ks m =
     map_option snd (find (\<lambda>(_, r). \<not> IsFull r \<and> rm_State r = StateWaiting) (range_over ks m))"

definition manager_Stop :: "room_manager \<Rightarrow> room_manager" where
  "manager_Stop m = (\<lambda>i. map_option room_Stop (m i))"

section \<open>Snapshots\<close>

record game_state =
  ge_Players :: "string \<Rightarrow> (point list \<times> bool \<times> int) option"
  ge_Foods :: "point list"
  ge_State :: room_state

definition GetState :: "room \<Rightarrow> game_state" where
  "GetState r = \<lparr>ge_Players = (\<lambda>i. map_option (\<lambda>s. (sn_Body s, sn_Alive s, sn_Score s)) (rm_Players r i)),
     ge_Foods = rm_Foods r, ge_State = rm_State r\<rparr>"

section \<open>Invariants\<close>

text \<open>Two points next to each other on the grid, and a body without gaps.\<close>

fun adjacent :: "point \<Rightarrow> point \<Rightarrow> bool" where
  "adjacent (x, y) (x', y') \<longleftrightarrow> \<bar>x - x'\<bar> + \<bar>y - y'\<bar> = 1"

definition connected :: "point list \<Rightarrow> bool" where
  "connected ps \<longleftrightarrow> successively adjacent ps"

text \<open>A snake has a connected body, three segments and one more for every ten points.\<close>

definition snake_ok :: "snake \<Rightarrow> bool" where
  "snake_ok s \<longleftrightarrow> connected (sn_Body s) \<and> sn_Body s \<noteq> [] \<and> 0 \<le> sn_Score s \<and>
     10 * (int (length (sn_Body s)) + of_bool (sn_Growing s)) = 30 + sn_Score s"

lemma ahead_adjacent: "adjacent (ahead d p) p"
  by (cases d; cases p) simp_all

lemma snake_ok_New: "snake_ok (NewSnake x y d)"
  by (cases d) (simp_all add: snake_ok_def NewSnake_def connected_def)

lemma successively_butlast: "successively P xs \<Longrightarrow> successively P (butlast xs)"
  by (induction xs rule: induct_list012) (auto split: if_splits)

lemma snake_ok_Move: "snake_ok s \<Longrightarrow> snake_ok (Move s)"
proof -
  assume s: "snake_ok s"
  then obtain h b where b: "sn_Body s = h # b" by (cases "sn_Body s") (auto simp: snake_ok_def)
  have "connected (ahead (sn_Direction s) h # h # b)"
    using s ahead_adjacent by (simp add: snake_ok_def connected_def b)
  then have "connected (butlast (ahead (sn_Direction s) h # h # b))"
    unfolding connected_def by (rule successively_butlast)
  with s \<open>connected (ahead (sn_Direction s) h # h # b)\<close> show ?thesis
    by (auto simp: snake_ok_def Move_def Head_def b Let_def of_bool_def split: if_splits)
qed

lemma snake_ok_turn [simp]: "snake_ok s \<Longrightarrow> snake_ok (SetDirection d s)"
  by (simp add: snake_ok_def SetDirection_def)

lemma snake_ok_dead [simp]: "snake_ok (s\<lparr>sn_Alive := b\<rparr>) = snake_ok s"
  by (simp add: snake_ok_def)

text \<open>A snake eats once between two moves: it has just moved, and no longer grows.\<close>

lemma snake_ok_Grow: "snake_ok s \<Longrightarrow> \<not> sn_Growing s \<Longrightarrow> snake_ok (Grow s)"
  by (simp add: snake_ok_def Grow_def)

lemma Move_not_growing [simp]: "sn_Alive s \<Longrightarrow> \<not> sn_Growing (Move s)"
  by (simp add: Move_def Let_def)

definition in_grid :: "point \<Rightarrow> bool" where
  "in_grid p \<longleftrightarrow> 0 \<le> fst p \<and> fst p < GridWidth \<and> 0 \<le> snd p \<and> snd p < GridHeight"

definition foods_ok :: "room \<Rightarrow> bool" where
  "foods_ok r \<longleftrightarrow> distinct (rm_Foods r) \<and> (\<forall>p\<in>set (rm_Foods r). in_grid p)"

definition players_ok :: "room \<Rightarrow> bool" where
  "players_ok r \<longleftrightarrow> (\<forall>i s. rm_Players r i = Some s \<longrightarrow> snake_ok s)"

definition room_ok :: "room \<Rightarrow> bool" where
  "room_ok r \<longleftrightarrow> players_ok r \<and> foods_ok r \<and> finite (dom (rm_Players r)) \<and> PlayerCount r \<le> 2"

text \<open>\<open>rand.Intn(n)\<close> is at least 0 and less than \<open>n\<close>.\<close>

definition intn_ok :: "'g rand \<Rightarrow> bool" where
  "intn_ok intn \<longleftrightarrow> (\<forall>n g. 0 < n \<longrightarrow> 0 \<le> fst (intn n g) \<and> fst (intn n g) < n)"

lemma spawn_tries_room:
  "spawn_tries intn ks n r g = (r', g') \<Longrightarrow>
     rm_Players r' = rm_Players r \<and> rm_State r' = rm_State r \<and> (intn_ok intn \<longrightarrow> foods_ok r \<longrightarrow> foods_ok r')"
proof (induction n arbitrary: r g)
  case (Suc n)
  obtain x g1 y g2 where d: "intn GridWidth g = (x, g1)" "intn GridHeight g1 = (y, g2)" by fastforce
  have "in_grid (x, y)" if "intn_ok intn"
    using that d unfolding intn_ok_def in_grid_def
    by (metis GridHeight_def GridWidth_def fst_conv snd_conv zero_less_numeral)
  with Suc d show ?case by (auto simp: foods_ok_def split: if_splits)
qed simp

lemmas spawnFood_room = spawn_tries_room [where n = 100, folded spawnFood_def]

lemma room_ok_players: "rm_Players r' = rm_Players r \<Longrightarrow> foods_ok r' \<Longrightarrow> room_ok r \<Longrightarrow> room_ok r'"
  by (simp add: room_ok_def players_ok_def PlayerCount_def)

lemma room_ok_set:
  assumes "room_ok r" and "rm_Players r i = Some s0" and "snake_ok s"
  shows "room_ok (set_snake i s r)"
proof -
  have "dom ((rm_Players r)(i \<mapsto> s)) = dom (rm_Players r)" using assms(2) by auto
  with assms(1,3) show ?thesis
    by (simp add: room_ok_def players_ok_def set_snake_def foods_ok_def PlayerCount_def del: dom_fun_upd)
qed

lemma room_ok_Start: "intn_ok intn \<Longrightarrow> room_ok r \<Longrightarrow> room_Start intn ks r g = (r', g') \<Longrightarrow> room_ok r'"
proof (cases "rm_State r = StateWaiting")
  case True
  assume "intn_ok intn" "room_ok r" and st: "room_Start intn ks r g = (r', g')"
  obtain r1 g1 r2 g2 r3 g3 where s: "spawnFood intn ks (r\<lparr>rm_State := StatePlaying\<rparr>) g = (r1, g1)"
      "spawnFood intn ks r1 g1 = (r2, g2)" "spawnFood intn ks r2 g2 = (r3, g3)" by (metis prod.exhaust)
  have foods: "foods_ok (r\<lparr>rm_State := StatePlaying\<rparr>)" using \<open>room_ok r\<close> by (simp add: room_ok_def foods_ok_def)
  have "r' = r3\<lparr>rm_ticking := True\<rparr>" using st s True by (simp add: room_Start_def)
  moreover have "foods_ok r3" "rm_Players r3 = rm_Players r"
    using spawnFood_room [OF s(1)] spawnFood_room [OF s(2)] spawnFood_room [OF s(3)] \<open>intn_ok intn\<close> foods
    by simp_all
  ultimately show ?thesis using room_ok_players [of r' r] \<open>room_ok r\<close> by (simp add: foods_ok_def)
qed (simp add: room_Start_def)

subsection \<open>One player's checks\<close>

text \<open>What the checks ask of a snake against the others.\<close>

definition safe :: "string list \<Rightarrow> string \<Rightarrow> snake \<Rightarrow> room \<Rightarrow> bool" where
  "safe ks i s r \<longleftrightarrow> \<not> CheckWallCollision s \<and> \<not> CheckSelfCollision s \<and> \<not> hits_other ks i s r"

text \<open>The snake after its checks: alive or not, fed or not, in the same place.\<close>

lemma check_player_cases:
  assumes "check_player intn ks i (r, g) = (r', g')" and "rm_Players r i = Some s"
  obtains s' where "rm_Players r' = (rm_Players r)(i \<mapsto> s')" and "rm_State r' = rm_State r"
    and "sn_Body s' = sn_Body s" and "sn_Alive s' \<longleftrightarrow> sn_Alive s \<and> safe ks i s r"
    and "s' = s \<or> s' = s\<lparr>sn_Alive := False\<rparr> \<or> (sn_Alive s \<and> s' = Grow s)"
proof -
  consider (dead) "\<not> sn_Alive s" | (dies) "sn_Alive s" "\<not> safe ks i s r" | (fed) "sn_Alive s" "safe ks i s r" by blast
  then show ?thesis
  proof cases
    case dead
    with assms have "r' = r" by (simp add: check_player_def)
    with assms(2) dead show ?thesis by (intro that [of s]) auto
  next
    case dies
    with assms have "r' = set_snake i (s\<lparr>sn_Alive := False\<rparr>) r" by (auto simp: check_player_def safe_def)
    with dies show ?thesis by (intro that [of "s\<lparr>sn_Alive := False\<rparr>"]) (simp_all add: set_snake_def)
  next
    case fed
    with assms have eat: "eat intn ks i s r g = (r', g')" by (auto simp: check_player_def safe_def)
    show ?thesis
    proof (cases "Head s \<in> set (rm_Foods r)")
      case True
      define r1 where "r1 = (set_snake i (Grow s) r)\<lparr>rm_Foods := remove1 (Head s) (rm_Foods (set_snake i (Grow s) r))\<rparr>"
      have "spawnFood intn ks r1 g = (r', g')" using eat True by (simp add: eat_def r1_def Let_def)
      from spawnFood_room [OF this] have "rm_Players r' = (rm_Players r)(i \<mapsto> Grow s)" "rm_State r' = rm_State r"
        by (simp_all add: r1_def set_snake_def)
      then show ?thesis using fed by (intro that [of "Grow s"]) (simp_all add: Grow_def)
    next
      case False
      with eat have "r' = r" by (simp add: eat_def)
      with assms(2) fed show ?thesis by (intro that [of s]) auto
    qed
  qed
qed

lemma eat_foods:
  assumes "eat intn ks i s r g = (r', g')" and "intn_ok intn" and "foods_ok r"
  shows "foods_ok r'"
proof (cases "Head s \<in> set (rm_Foods r)")
  case True
  define r1 where "r1 = (set_snake i (Grow s) r)\<lparr>rm_Foods := remove1 (Head s) (rm_Foods (set_snake i (Grow s) r))\<rparr>"
  have "foods_ok r1" using assms(3) by (auto simp: r1_def foods_ok_def set_snake_def dest: notin_set_remove1)
  moreover have "spawnFood intn ks r1 g = (r', g')" using assms(1) True by (simp add: eat_def r1_def Let_def)
  ultimately show ?thesis using spawnFood_room assms(2) by metis
qed (use assms in \<open>simp add: eat_def\<close>)

lemma check_player_foods:
  assumes "check_player intn ks i (r, g) = (r', g')" and "intn_ok intn" and "foods_ok r"
  shows "foods_ok r'"
proof (cases "rm_Players r i")
  case (Some s)
  show ?thesis
  proof (cases "sn_Alive s \<and> safe ks i s r")
    case True
    with assms(1) Some have "eat intn ks i s r g = (r', g')" by (auto simp: check_player_def safe_def)
    from eat_foods [OF this assms(2,3)] show ?thesis .
  next
    case False
    with assms(1) Some have "r' = r \<or> r' = set_snake i (s\<lparr>sn_Alive := False\<rparr>) r"
      by (auto simp: check_player_def safe_def split: if_splits)
    with assms(3) show ?thesis by (auto simp: foods_ok_def set_snake_def)
  qed
qed (use assms in \<open>simp add: check_player_def\<close>)

text \<open>The snakes that are still to be checked have not grown yet.\<close>

definition unfed :: "string list \<Rightarrow> room \<Rightarrow> bool" where
  "unfed is r \<longleftrightarrow> (\<forall>i\<in>set is. \<forall>s. rm_Players r i = Some s \<longrightarrow> sn_Alive s \<longrightarrow> \<not> sn_Growing s)"

lemma check_player_ok:
  assumes "check_player intn ks i (r, g) = (r', g')" and "intn_ok intn" and "room_ok r" and "unfed (i # is) r"
    and "i \<notin> set is"
  shows "room_ok r' \<and> unfed is r'"
proof (cases "rm_Players r i")
  case None
  with assms show ?thesis by (simp add: check_player_def unfed_def)
next
  case (Some s)
  from check_player_cases [OF assms(1) Some] obtain s' where
    s': "rm_Players r' = (rm_Players r)(i \<mapsto> s')" "s' = s \<or> s' = s\<lparr>sn_Alive := False\<rparr> \<or> (sn_Alive s \<and> s' = Grow s)" by metis
  have "snake_ok s" using assms(3) Some by (simp add: room_ok_def players_ok_def)
  with s'(2) assms(4) Some have "snake_ok s'" by (auto simp: unfed_def intro: snake_ok_Grow)
  from room_ok_set [OF assms(3) Some this] have "room_ok (set_snake i s' r)" .
  then have "room_ok r'"
    using check_player_foods [OF assms(1,2)] assms(3) s'(1)
    by (intro room_ok_players [of r' "set_snake i s' r"]) (simp_all add: set_snake_def room_ok_def)
  moreover have "unfed is r'" using assms(4,5) s'(1) by (auto simp: unfed_def)
  ultimately show ?thesis by simp
qed

lemma check_players_ok:
  "fold (check_player intn ks) is (r, g) = (r', g') \<Longrightarrow> intn_ok intn \<Longrightarrow> room_ok r \<Longrightarrow> unfed is r \<Longrightarrow> distinct is \<Longrightarrow>
     room_ok r'"
proof (induction "is" arbitrary: r g)
  case (Cons i "is")
  obtain r1 g1 where c: "check_player intn ks i (r, g) = (r1, g1)" by fastforce
  have run: "fold (check_player intn ks) is (r1, g1) = (r', g')" using Cons.prems(1) c by simp
  have new: "i \<notin> set is" and dist: "distinct is" using Cons.prems(5) by simp_all
  note ok = check_player_ok [OF c Cons.prems(2,3,4) new]
  show ?case by (rule Cons.IH [OF run Cons.prems(2) conjunct1 [OF ok] conjunct2 [OF ok] dist])
qed simp

lemma moved:
  "rm_Players (move_all r) i = Some s' \<longleftrightarrow>
     (\<exists>s. rm_Players r i = Some s \<and> s' = (if sn_Alive s then Move s else s))"
  unfolding move_all_def by (cases "rm_Players r i") (simp_all, blast)

lemma Move_alive [simp]: "sn_Alive (Move s) = sn_Alive s"
  by (simp add: Move_def Let_def)

lemma room_ok_move_all: "room_ok r \<Longrightarrow> room_ok (move_all r) \<and> unfed is (move_all r)"
proof -
  assume r: "room_ok r"
  have "dom (rm_Players (move_all r)) = dom (rm_Players r)" by (auto simp: move_all_def)
  moreover have "rm_Foods (move_all r) = rm_Foods r" by (simp add: move_all_def)
  moreover have "players_ok (move_all r)"
    using r snake_ok_Move by (auto simp: players_ok_def moved room_ok_def)
  moreover have "unfed is (move_all r)"
    by (auto simp: unfed_def moved) (metis Move_not_growing)
  ultimately show ?thesis using r by (simp add: room_ok_def foods_ok_def PlayerCount_def)
qed

lemma update_unfold:
  assumes "rm_State r = StatePlaying" and "fold (check_player intn ks) ks (move_all r, g) = (r1, g1)"
  shows "room_update intn ks r g =
     (if length (alive_ids ks r1) \<le> 1
      then (Ended (if alive_ids ks r1 = [] then '''' else last (alive_ids ks r1)),
            r1\<lparr>rm_State := StateFinished, rm_ticking := False\<rparr>, g1)
      else (Updated, r1, g1))"
  using assms by (simp add: room_update_def Let_def)

lemma room_ok_update:
  assumes "room_update intn ks r g = (ev, r', g')" and "intn_ok intn" and "distinct ks" and "room_ok r"
  shows "room_ok r'"
proof (cases "rm_State r = StatePlaying")
  case True
  obtain r1 g1 where f: "fold (check_player intn ks) ks (move_all r, g) = (r1, g1)" by fastforce
  have "room_ok r1" using check_players_ok [OF f assms(2)] room_ok_move_all [OF assms(4)] assms(3) by blast
  moreover have "rm_Players r' = rm_Players r1 \<and> rm_Foods r' = rm_Foods r1"
    using assms(1) unfolding update_unfold [OF True f] by (auto split: if_splits)
  ultimately show ?thesis using room_ok_players [of r' r1] by (simp add: room_ok_def foods_ok_def)
qed (use assms in \<open>simp add: room_update_def\<close>)

section \<open>Histories of a room\<close>

datatype room_op = RoomAdd string | RoomRemove string | RoomTurn string direction | RoomStart "string list"
  | RoomTick "string list" | RoomHalt

fun room_exec :: "'g rand \<Rightarrow> room_op \<Rightarrow> room \<times> 'g \<Rightarrow> room \<times> 'g" where
  "room_exec intn (RoomAdd i) (r, g) = (snd (AddPlayer i r), g)"
| "room_exec intn (RoomRemove i) (r, g) = (RemovePlayer i r, g)"
| "room_exec intn (RoomTurn i d) (r, g) = (room_SetDirection i d r, g)"
| "room_exec intn (RoomStart ks) (r, g) = room_Start intn ks r g"
| "room_exec intn (RoomTick ks) (r, g) = snd (room_update intn ks r g)"
| "room_exec intn RoomHalt (r, g) = (room_Stop r, g)"

text \<open>Ranges do not repeat a key.\<close>

fun op_ok :: "room_op \<Rightarrow> bool" where
  "op_ok (RoomTick ks) = distinct ks"
| "op_ok _ = True"

lemma room_ok_Add: "room_ok r \<Longrightarrow> room_ok (snd (AddPlayer i r))"
proof -
  assume r: "room_ok r"
  have "card (insert i (dom (rm_Players r))) \<le> Suc (card (dom (rm_Players r)))"
    using r by (simp add: room_ok_def card_insert_if)
  with r snake_ok_New show ?thesis
    by (auto simp: AddPlayer_def room_ok_def players_ok_def foods_ok_def PlayerCount_def Let_def)
qed

lemma room_ok_Remove: "room_ok r \<Longrightarrow> room_ok (RemovePlayer i r)"
proof -
  assume r: "room_ok r"
  have "card (dom (rm_Players r) - {i}) \<le> card (dom (rm_Players r))"
    using r by (intro card_mono) (auto simp: room_ok_def)
  with r show ?thesis by (auto simp: RemovePlayer_def room_ok_def players_ok_def foods_ok_def PlayerCount_def)
qed

lemma room_ok_turn: "room_ok r \<Longrightarrow> room_ok (room_SetDirection i d r)"
proof (cases "rm_Players r i")
  case (Some s)
  assume r: "room_ok r"
  with Some have "snake_ok (SetDirection d s)" by (simp add: room_ok_def players_ok_def)
  from room_ok_set [OF r Some this] Some show ?thesis by (simp add: room_SetDirection_def set_snake_def)
qed (simp add: room_SetDirection_def)

lemma room_ok_exec:
  assumes "room_ok r" and "intn_ok intn" and "op_ok op"
  shows "room_ok (fst (room_exec intn op (r, g)))"
proof (cases op)
  case (RoomTick ks)
  obtain ev r' g' where u: "room_update intn ks r g = (ev, r', g')" by (metis prod.exhaust)
  from room_ok_update [OF u assms(2) _ assms(1)] assms(3) RoomTick u show ?thesis by simp
next
  case (RoomStart ks)
  obtain r' g' where u: "room_Start intn ks r g = (r', g')" by fastforce
  from room_ok_Start [OF assms(2,1) u] RoomStart u show ?thesis by simp
next
  case RoomHalt
  with assms(1) show ?thesis by (simp add: room_Stop_def room_ok_def players_ok_def foods_ok_def PlayerCount_def)
qed (simp_all add: assms room_ok_Add room_ok_Remove room_ok_turn)

lemma room_ok_New: "room_ok (NewRoom i)"
  by (simp add: NewRoom_def room_ok_def players_ok_def foods_ok_def PlayerCount_def)

section \<open>The checks keep apart what they leave alive\<close>

lemma hits_other_iff:
  "set ks = dom (rm_Players r) \<Longrightarrow> hits_other ks i s r \<longleftrightarrow>
     (\<exists>j other. j \<noteq> i \<and> rm_Players r j = Some other \<and> sn_Alive other \<and> Head s \<in> set (sn_Body other))"
  by (auto simp: hits_other_def list_ex_iff in_range_over domIff dom_def)

text \<open>The snakes already checked: inside the walls, off themselves, and off every other one alive.\<close>

definition clear :: "string set \<Rightarrow> (string \<Rightarrow> snake option) \<Rightarrow> bool" where
  "clear done ps \<longleftrightarrow> (\<forall>i\<in>done. \<forall>s. ps i = Some s \<longrightarrow> sn_Alive s \<longrightarrow>
     \<not> CheckWallCollision s \<and> \<not> CheckSelfCollision s \<and>
     (\<forall>j other. j \<noteq> i \<longrightarrow> ps j = Some other \<longrightarrow> sn_Alive other \<longrightarrow> Head s \<notin> set (sn_Body other)))"

lemma same_body:
  "sn_Body s' = sn_Body s \<Longrightarrow> CheckWallCollision s' = CheckWallCollision s"
  "sn_Body s' = sn_Body s \<Longrightarrow> CheckSelfCollision s' = CheckSelfCollision s"
  by (simp_all add: CheckWallCollision_def CheckSelfCollision_def Head_def)

lemma check_player_clear:
  assumes "check_player intn ks i (r, g) = (r', g')" and "clear done (rm_Players r)" and ks: "set ks = dom (rm_Players r)"
  shows "clear (insert i done) (rm_Players r') \<and> set ks = dom (rm_Players r')"
proof (cases "rm_Players r i")
  case None
  with assms show ?thesis by (simp add: check_player_def clear_def)
next
  case (Some s)
  from check_player_cases [OF assms(1) Some] obtain s' where
    s': "rm_Players r' = (rm_Players r)(i \<mapsto> s')" "sn_Body s' = sn_Body s" "sn_Alive s' \<longleftrightarrow> sn_Alive s \<and> safe ks i s r"
    by metis
  have head: "Head s' = Head s" by (simp add: Head_def s'(2))
  have old: "\<exists>t. rm_Players r j = Some t \<and> sn_Body t = sn_Body u \<and> (sn_Alive u \<longrightarrow> sn_Alive t)"
    if "rm_Players r' j = Some u" for j u
    using that s' Some by (auto simp: fun_upd_apply split: if_splits)
  have "\<not> CheckWallCollision t \<and> \<not> CheckSelfCollision t \<and>
      (\<forall>j other. j \<noteq> k \<longrightarrow> rm_Players r' j = Some other \<longrightarrow> sn_Alive other \<longrightarrow> Head t \<notin> set (sn_Body other))"
    if "k \<in> insert i done" and t: "rm_Players r' k = Some t" "sn_Alive t" for k t
  proof (cases "k = i")
    case True
    with t s' have "t = s'" by simp
    with t(2) s'(3) have sf: "safe ks i s r" by simp
    have "Head t \<notin> set (sn_Body other)" if j: "j \<noteq> k" "rm_Players r' j = Some other" "sn_Alive other" for j other
    proof -
      obtain u where u: "rm_Players r j = Some u" "sn_Body u = sn_Body other" "sn_Alive u"
        using old [OF j(2)] j(3) by blast
      with sf j(1) True show ?thesis unfolding safe_def hits_other_iff [OF ks] \<open>t = s'\<close> head by metis
    qed
    moreover have "\<not> CheckWallCollision t" "\<not> CheckSelfCollision t"
      using sf same_body [OF s'(2)] \<open>t = s'\<close> by (simp_all add: safe_def)
    ultimately show ?thesis by blast
  next
    case False
    with that(1) have "k \<in> done" by simp
    moreover have "rm_Players r k = Some t" using t(1) s'(1) False by simp
    ultimately have "\<not> CheckWallCollision t \<and> \<not> CheckSelfCollision t \<and>
        (\<forall>j other. j \<noteq> k \<longrightarrow> rm_Players r j = Some other \<longrightarrow> sn_Alive other \<longrightarrow> Head t \<notin> set (sn_Body other))"
      using assms(2) t(2) unfolding clear_def by blast
    then show ?thesis using old by metis
  qed
  then have "clear (insert i done) (rm_Players r')" unfolding clear_def by blast
  moreover have "dom (rm_Players r') = dom (rm_Players r)" using s'(1) Some by auto
  ultimately show ?thesis using ks by simp
qed

lemma check_players_clear:
  "fold (check_player intn ks) is (r, g) = (r', g') \<Longrightarrow> clear done (rm_Players r) \<Longrightarrow> set ks = dom (rm_Players r) \<Longrightarrow>
     clear (set is \<union> done) (rm_Players r') \<and> set ks = dom (rm_Players r')"
proof (induction "is" arbitrary: r g "done")
  case (Cons i "is")
  obtain r1 g1 where c: "check_player intn ks i (r, g) = (r1, g1)" by fastforce
  have run: "fold (check_player intn ks) is (r1, g1) = (r', g')" using Cons.prems(1) c by simp
  note cl = check_player_clear [OF c Cons.prems(2,3)]
  from Cons.IH [OF run conjunct1 [OF cl] conjunct2 [OF cl]] show ?case by (simp add: Un_insert_right)
qed simp

section \<open>Properties\<close>

text \<open>
  C21: Whatever players come, go, turn, and however many ticks pass, a room has at most two players; every
  snake has a body without gaps, of three segments and one more for every ten points (the last one
  still to grow); the food lies in the grid, no two pieces on one place.
\<close>

theorem snake_room_invariant:
  assumes "intn_ok intn" and "\<forall>op\<in>set ops. op_ok op"
  shows "room_ok (fst (fold (room_exec intn) ops (NewRoom i, g)))"
proof -
  have "room_ok r \<Longrightarrow> \<forall>op\<in>set ops. op_ok op \<Longrightarrow> room_ok (fst (fold (room_exec intn) ops (r, g)))" for r g
  proof (induction ops arbitrary: r g)
    case (Cons op ops)
    have "op_ok op" using Cons.prems(2) by simp
    from room_ok_exec [OF Cons.prems(1) assms(1) this] have "room_ok (fst (room_exec intn op (r, g)))" .
    with Cons.IH [of "fst (room_exec intn op (r, g))" "snd (room_exec intn op (r, g))"] Cons.prems(2) show ?case by simp
  qed simp
  with room_ok_New assms(2) show ?thesis by blast
qed

definition zero_rand :: "unit rand" where
  "zero_rand n g = (0, g)"

theorem snake_room_invariant_witness:
  "room_ok (fst (fold (room_exec zero_rand) [RoomAdd ''a'', RoomAdd ''b'', RoomStart [''a'', ''b''], RoomTick [''a'', ''b'']] (NewRoom ''r'', ())))"
proof (rule snake_room_invariant)
  show "intn_ok zero_rand" by (simp add: intn_ok_def zero_rand_def)
qed simp

text \<open>
  C36: After an update, every snake that is alive has its head inside the grid, not on its own body, and
  not on the body of another snake that is alive, whatever the order of the players.
\<close>

theorem snake_update_separates:
  assumes "room_update intn ks r g = (ev, r', g')" and "rm_State r = StatePlaying" and "iterates ks (rm_Players r)"
    and "rm_Players r' i = Some s" and "sn_Alive s"
  shows "\<not> CheckWallCollision s \<and> \<not> CheckSelfCollision s \<and>
     (\<forall>j s'. j \<noteq> i \<longrightarrow> rm_Players r' j = Some s' \<longrightarrow> sn_Alive s' \<longrightarrow> Head s \<notin> set (sn_Body s'))"
proof -
  obtain r1 g1 where f: "fold (check_player intn ks) ks (move_all r, g) = (r1, g1)" by fastforce
  have ks: "set ks = dom (rm_Players (move_all r))" using assms(3) by (auto simp: iterates_def move_all_def)
  have "clear {} (rm_Players (move_all r))" by (simp add: clear_def)
  note cl = check_players_clear [OF f this ks, unfolded Un_empty_right]
  then have "clear (set ks) (rm_Players r1)" "set ks = dom (rm_Players r1)" by blast+
  moreover have "rm_Players r' = rm_Players r1"
    using assms(1) unfolding update_unfold [OF assms(2) f] by (auto split: if_splits)
  moreover have "i \<in> set ks" using assms(4) calculation(2,3) by auto
  ultimately show ?thesis using assms(4,5) unfolding clear_def by metis
qed

text \<open>Two snakes that face each other with one free field between their heads.\<close>

definition face_off :: room where
  "face_off = (NewRoom ''r'')\<lparr>rm_State := StatePlaying, rm_Players :=
     [''a'' \<mapsto> NewSnake 10 10 DirRight, ''b'' \<mapsto> NewSnake 12 10 DirLeft]\<rparr>"

lemmas game_defs = face_off_def NewRoom_def NewSnake_def room_update_def move_all_def Move_def Head_def check_player_def
  CheckWallCollision_def CheckSelfCollision_def hits_other_def set_snake_def alive_ids_def eat_def
  GridWidth_def GridHeight_def

theorem snake_update_separates_witness:
  "\<exists>ev r'. room_update zero_rand [''a'', ''b''] face_off () = (ev, r', ()) \<and>
     (\<exists>s. rm_Players r' ''b'' = Some s \<and> \<not> CheckWallCollision s)"
proof -
  obtain ev r' where u: "room_update zero_rand [''a'', ''b''] face_off () = (ev, r', ())" by (metis prod.exhaust old.unit.exhaust)
  obtain s where s: "rm_Players r' ''b'' = Some s" "sn_Alive s" using u by (auto simp: game_defs)
  have "rm_State face_off = StatePlaying" "iterates [''a'', ''b''] (rm_Players face_off)"
    by (auto simp: face_off_def iterates_def)
  from snake_update_separates [OF u this s] u s show ?thesis by blast
qed

text \<open>
  A head-on collision has a winner, chosen by the order in which the range meets the players, which Go
  leaves open: the snake that is checked first dies, the other one then finds nobody alive and
  survives.
\<close>

theorem snake_head_on_depends_on_order:
  "\<exists>r. iterates [''a'', ''b''] (rm_Players r) \<and> iterates [''b'', ''a''] (rm_Players r) \<and>
     fst (room_update zero_rand [''a'', ''b''] r ()) = Ended ''b'' \<and>
     fst (room_update zero_rand [''b'', ''a''] r ()) = Ended ''a''"
proof (intro exI [of _ face_off] conjI)
  show "fst (room_update zero_rand [''a'', ''b''] face_off ()) = Ended ''b''"
    "fst (room_update zero_rand [''b'', ''a''] face_off ()) = Ended ''a''"
    by (simp_all add: game_defs)
qed (auto simp: iterates_def face_off_def)

text \<open>
  The guard against turning back can be passed with two turns between two ticks: a snake that moves to
  the right and is turned up and then left moves back into its own body, and dies.
\<close>

theorem snake_two_quick_turns_reverse:
  "CheckSelfCollision (Move (SetDirection DirLeft (SetDirection DirUp (NewSnake x y DirRight)))) \<and>
     \<not> CheckSelfCollision (Move (SetDirection DirLeft (NewSnake x y DirRight)))"
  by (simp add: SetDirection_def NewSnake_def Move_def CheckSelfCollision_def Head_def)

end
