(* ===== verification/SnakeServer.thy ===== *)
theory SnakeServer
  imports SnakeGame
begin

text \<open>
  The server of the example game (\<open>examples/snake_battle/main.go\<close>): players and their rooms, the
  messages of the clients, what is broadcast.  What is sent is recorded in order.  New identifiers and
  the orders of the ranges are arguments; the reports of a room's update are handled at once.
\<close>

record player =
  pl_ID :: string
  pl_RoomID :: string

datatype server_msg =
    MsgWelcome string | MsgRoomInfo string nat string | MsgPlayerJoin string nat
  | MsgGameStart int int | MsgState game_state | MsgGameEnd string game_state
  | MsgError string | MsgLeft | MsgPlayerLeave string

text \<open>What a client sends: \<open>InDirection\<close> has the direction's name, if the data has the right form.\<close>

datatype client_msg = InJoin | InDirection "string option" | InLeave | InUnknown | InMalformed

record game_server =
  gv_players :: "string \<Rightarrow> player option"  \<comment> \<open>by connection\<close>
  gv_rooms :: room_manager
  gv_conns :: "string set"
  gv_sent :: "(string \<times> server_msg) list"

definition NewGameServer :: game_server where
  "NewGameServer = \<lparr>gv_players = (\<lambda>_. None), gv_rooms = NewRoomManager, gv_conns = {}, gv_sent = []\<rparr>"

definition send_to :: "string \<Rightarrow> server_msg \<Rightarrow> game_server \<Rightarrow> game_server" where
  "send_to conn m gs = gs\<lparr>gv_sent := gv_sent gs @ [(conn, m)]\<rparr>"

definition sendError :: "string \<Rightarrow> string \<Rightarrow> game_server \<Rightarrow> game_server" where
  "sendError conn err = send_to conn (MsgError err)"

definition set_room :: "room \<Rightarrow> game_server \<Rightarrow> game_server" where
  "set_room r gs = gs\<lparr>gv_rooms := (gv_rooms gs)(rm_ID r \<mapsto> r)\<rparr>"

text \<open>A change of the player a connection has; the player is shared, not copied.\<close>

definition set_player :: "string \<Rightarrow> player \<Rightarrow> game_server \<Rightarrow> game_server" where
  "set_player conn p gs = gs\<lparr>gv_players := (gv_players gs)(conn \<mapsto> p)\<rparr>"

definition onConnect :: "string \<Rightarrow> string \<Rightarrow> game_server \<Rightarrow> game_server" where
  "onConnect new_id conn gs =
     send_to conn (MsgWelcome new_id)
       (set_player conn \<lparr>pl_ID = new_id, pl_RoomID = ''''\<rparr> (gs\<lparr>gv_conns := insert conn (gv_conns gs)\<rparr>))"

definition broadcastToRoom :: "string list \<Rightarrow> string \<Rightarrow> server_msg \<Rightarrow> string \<Rightarrow> game_server \<Rightarrow> game_server" where
  "broadcastToRoom ks room_id m excludeID gs =
     fold (\<lambda>(conn, p) gs.
         if pl_RoomID p = room_id \<and> pl_ID p \<noteq> excludeID \<and> conn \<in> gv_conns gs then send_to conn m gs else gs)
       (range_over ks (gv_players gs)) gs"

definition handleJoin ::
    "'g rand \<Rightarrow> string \<Rightarrow> string list \<Rightarrow> string list \<Rightarrow> string list \<Rightarrow> string \<Rightarrow> player \<Rightarrow> game_server \<times> 'g \<Rightarrow> game_server \<times> 'g" where
  "handleJoin intn new_room rks pks cks conn p gg =
     (let (gs, g) = gg;
          (r0, gs0) = (case FindAvailableRoom rks (gv_rooms gs) of
             Some r \<Rightarrow> (r, gs)
           | None \<Rightarrow> (NewRoom new_room, gs\<lparr>gv_rooms := CreateRoom new_room (gv_rooms gs)\<rparr>));
          (added, r1) = AddPlayer (pl_ID p) r0
      in if \<not> added then (sendError conn ''Room is full'' gs0, g)
         else (let n = PlayerCount r1;
                   gs1 = set_player conn (p\<lparr>pl_RoomID := rm_ID r1\<rparr>) (set_room r1 gs0);
                   gs2 = send_to conn (MsgRoomInfo (rm_ID r1) n (pl_ID p)) gs1;
                   gs3 = broadcastToRoom cks (rm_ID r1) (MsgPlayerJoin (pl_ID p) n) (pl_ID p) gs2
               in if IsFull r1
                  then (let gs4 = broadcastToRoom cks (rm_ID r1) (MsgGameStart GridWidth GridHeight) '''' gs3;
                            (r2, g2) = room_Start intn pks r1 g
                        in (set_room r2 gs4, g2))
                  else (gs3, g)))"

definition direction_of :: "string \<Rightarrow> direction option" where
  "direction_of t =
     (if t = ''up'' then Some DirUp else if t = ''down'' then Some DirDown
      else if t = ''left'' then Some DirLeft else if t = ''right'' then Some DirRight else None)"

definition handleDirection :: "player \<Rightarrow> string option \<Rightarrow> game_server \<Rightarrow> game_server" where
  "handleDirection p data gs =
     (if pl_RoomID p = '''' then gs
      else (case GetRoom (pl_RoomID p) (gv_rooms gs) of
              None \<Rightarrow> gs
            | Some r \<Rightarrow>
                (case Option.bind data direction_of of
                   None \<Rightarrow> gs
                 | Some dir \<Rightarrow> set_room (room_SetDirection (pl_ID p) dir r) gs)))"

text \<open>\<open>leaveRoom\<close>; the player it gives back has no room unless the room is unknown.\<close>

definition leaveRoom :: "string list \<Rightarrow> player \<Rightarrow> game_server \<Rightarrow> player \<times> game_server" where
  "leaveRoom cks p gs =
     (if pl_RoomID p = '''' then (p, gs)
      else (case GetRoom (pl_RoomID p) (gv_rooms gs) of
              None \<Rightarrow> (p, gs)
            | Some r \<Rightarrow>
                (let r1 = RemovePlayer (pl_ID p) r; gs1 = set_room r1 gs
                 in (p\<lparr>pl_RoomID := ''''\<rparr>,
                     if PlayerCount r1 = 0 then gs1\<lparr>gv_rooms := snd (RemoveRoom (rm_ID r1) (gv_rooms gs1))\<rparr>
                     else (let gs2 = broadcastToRoom cks (rm_ID r1) (MsgPlayerLeave (pl_ID p)) '''' gs1
                           in set_room (room_Stop r1) gs2)))))"

definition handleLeave :: "string list \<Rightarrow> string \<Rightarrow> player \<Rightarrow> game_server \<Rightarrow> game_server" where
  "handleLeave cks conn p gs =
     (let (p', gs') = leaveRoom cks p gs in send_to conn MsgLeft (set_player conn p' gs'))"

definition onDisconnect :: "string list \<Rightarrow> string \<Rightarrow> game_server \<Rightarrow> game_server" where
  "onDisconnect cks conn gs =
     (case gv_players gs conn of
        None \<Rightarrow> gs
      | Some p \<Rightarrow> snd (leaveRoom cks p (gs\<lparr>gv_players := (gv_players gs)(conn := None), gv_conns := gv_conns gs - {conn}\<rparr>)))"

definition onMessage ::
    "'g rand \<Rightarrow> string \<Rightarrow> string list \<Rightarrow> string list \<Rightarrow> string list \<Rightarrow> string \<Rightarrow> client_msg \<Rightarrow> game_server \<times> 'g \<Rightarrow> game_server \<times> 'g" where
  "onMessage intn new_room rks pks cks conn m gg =
     (let (gs, g) = gg
      in if m = InMalformed then (sendError conn ''Invalid message format'' gs, g)
         else (case gv_players gs conn of
            None \<Rightarrow> (sendError conn ''Player not found'' gs, g)
          | Some p \<Rightarrow>
              (case m of
                 InJoin \<Rightarrow> handleJoin intn new_room rks pks cks conn p (gs, g)
               | InDirection d \<Rightarrow> (handleDirection p d gs, g)
               | InLeave \<Rightarrow> (handleLeave cks conn p gs, g)
               | _ \<Rightarrow> (sendError conn ''Unknown message type'' gs, g))))"

definition broadcastState :: "string list \<Rightarrow> room \<Rightarrow> game_server \<Rightarrow> game_server" where
  "broadcastState cks r gs = broadcastToRoom cks (rm_ID r) (MsgState (GetState r)) '''' gs"

definition broadcastGameEnd :: "string list \<Rightarrow> room \<Rightarrow> string \<Rightarrow> game_server \<Rightarrow> game_server" where
  "broadcastGameEnd cks r winner gs =
     (let gs1 = broadcastToRoom cks (rm_ID r) (MsgGameEnd winner (GetState r)) '''' gs
      in gs1\<lparr>gv_rooms := snd (RemoveRoom (rm_ID r) (gv_rooms gs1))\<rparr>)"

text \<open>
  An update of a room by its loop, with the callbacks.  A tick updates a room whose loop runs.  A loop that has
  received a tick just before \<open>Stop\<close> still makes its update afterwards: a late tick of a stopped room.
\<close>

definition loop_update :: "'g rand \<Rightarrow> string list \<Rightarrow> string list \<Rightarrow> room \<Rightarrow> game_server \<times> 'g \<Rightarrow> game_server \<times> 'g" where
  "loop_update intn pks cks r gg =
     (let (gs, g) = gg; (ev, r1, g1) = room_update intn pks r g; gs1 = set_room r1 gs
      in (case ev of
            NoEvent \<Rightarrow> gs1
          | Updated \<Rightarrow> broadcastState cks r1 gs1
          | Ended winner \<Rightarrow> broadcastGameEnd cks r1 winner gs1, g1))"

definition room_tick :: "'g rand \<Rightarrow> string list \<Rightarrow> string list \<Rightarrow> string \<Rightarrow> game_server \<times> 'g \<Rightarrow> game_server \<times> 'g" where
  "room_tick intn pks cks room_id gg =
     (case gv_rooms (fst gg) room_id of
        None \<Rightarrow> gg
      | Some r \<Rightarrow> if \<not> rm_ticking r \<or> rm_done r then gg else loop_update intn pks cks r gg)"

definition room_late_tick :: "'g rand \<Rightarrow> string list \<Rightarrow> string list \<Rightarrow> string \<Rightarrow> game_server \<times> 'g \<Rightarrow> game_server \<times> 'g" where
  "room_late_tick intn pks cks room_id gg =
     (case gv_rooms (fst gg) room_id of
        None \<Rightarrow> gg
      | Some r \<Rightarrow> if \<not> rm_done r then gg else loop_update intn pks cks r gg)"

definition server_Stop :: "game_server \<Rightarrow> game_server" where
  "server_Stop gs = gs\<lparr>gv_rooms := manager_Stop (gv_rooms gs)\<rparr>"

section \<open>Properties\<close>

lemmas server_defs = NewGameServer_def NewRoomManager_def onConnect_def onMessage_def handleJoin_def send_to_def
  set_player_def set_room_def broadcastToRoom_def FindAvailableRoom_def CreateRoom_def AddPlayer_def PlayerCount_def
  IsFull_def NewRoom_def GetRoom_def

text \<open>A start changes the food, the state and the ticker of a room.\<close>

lemma spawn_tries_frame: "\<exists>fs. fst (spawn_tries intn ks n r g) = r\<lparr>rm_Foods := fs\<rparr>"
proof (induction n arbitrary: g)
  case (Suc n)
  then show ?case by (auto simp: case_prod_beta Let_def)
qed (auto intro: exI [of _ "rm_Foods r"])

lemma room_Start_frame:
  assumes "rm_State r = StateWaiting"
  shows "\<exists>fs. fst (room_Start intn ks r g) = r\<lparr>rm_State := StatePlaying, rm_Foods := fs, rm_ticking := True\<rparr>"
proof -
  obtain r1 g1 r2 g2 r3 g3 where s: "spawnFood intn ks (r\<lparr>rm_State := StatePlaying\<rparr>) g = (r1, g1)"
      "spawnFood intn ks r1 g1 = (r2, g2)" "spawnFood intn ks r2 g2 = (r3, g3)" by (metis prod.exhaust)
  obtain f1 where "r1 = r\<lparr>rm_State := StatePlaying, rm_Foods := f1\<rparr>"
    using spawn_tries_frame [of intn ks 100 "r\<lparr>rm_State := StatePlaying\<rparr>" g] s(1) by (auto simp: spawnFood_def)
  moreover obtain f2 where "r2 = r1\<lparr>rm_Foods := f2\<rparr>"
    using spawn_tries_frame [of intn ks 100 r1 g1] s(2) by (auto simp: spawnFood_def)
  moreover obtain f3 where "r3 = r2\<lparr>rm_Foods := f3\<rparr>"
    using spawn_tries_frame [of intn ks 100 r2 g2] s(3) by (auto simp: spawnFood_def)
  ultimately show ?thesis using s assms by (auto simp: room_Start_def)
qed

text \<open>Two clients connect to a new server and join.\<close>

definition two_joined :: "'g rand \<Rightarrow> string \<times> string \<Rightarrow> string \<times> string \<Rightarrow> string \<Rightarrow> 'g \<Rightarrow> game_server \<times> 'g" where
  "two_joined intn conns ids rid g =
     (let (c1, c2) = conns; (p1, p2) = ids;
          gs = onConnect p2 c2 (onConnect p1 c1 NewGameServer);
          gg = onMessage intn rid [] [] [c1, c2] c1 InJoin (gs, g)
      in onMessage intn ''other'' [rid] [p1, p2] [c1, c2] c2 InJoin gg)"

lemma two_joined_state:
  assumes "c1 \<noteq> c2" and "p1 \<noteq> p2" and "p1 \<noteq> ''''" and "p2 \<noteq> ''''" and "rid \<noteq> ''''"
  shows "\<exists>fs g'. two_joined intn (c1, c2) (p1, p2) rid g =
     (\<lparr>gv_players = [c1 \<mapsto> \<lparr>pl_ID = p1, pl_RoomID = rid\<rparr>, c2 \<mapsto> \<lparr>pl_ID = p2, pl_RoomID = rid\<rparr>],
       gv_rooms = [rid \<mapsto> (NewRoom rid)\<lparr>rm_State := StatePlaying, rm_Foods := fs, rm_ticking := True,
         rm_Players := [p1 \<mapsto> NewSnake 5 (GridHeight div 2) DirRight, p2 \<mapsto> NewSnake (GridWidth - 6) (GridHeight div 2) DirLeft]\<rparr>],
       gv_conns = {c1, c2},
       gv_sent = [(c1, MsgWelcome p1), (c2, MsgWelcome p2), (c1, MsgRoomInfo rid 1 p1), (c2, MsgRoomInfo rid 2 p2),
         (c1, MsgPlayerJoin p2 2), (c1, MsgGameStart GridWidth GridHeight), (c2, MsgGameStart GridWidth GridHeight)]\<rparr>, g')"
proof -
  define r where "r = (NewRoom rid)\<lparr>rm_Players := [p1 \<mapsto> NewSnake 5 (GridHeight div 2) DirRight,
      p2 \<mapsto> NewSnake (GridWidth - 6) (GridHeight div 2) DirLeft]\<rparr>"
  have "rm_State r = StateWaiting" by (simp add: r_def NewRoom_def)
  from room_Start_frame [OF this, of intn "[p1, p2]" g] obtain fs where
    fs: "fst (room_Start intn [p1, p2] r g) = r\<lparr>rm_State := StatePlaying, rm_Foods := fs, rm_ticking := True\<rparr>" by blast
  then obtain g' where st: "room_Start intn [p1, p2] r g = (r\<lparr>rm_State := StatePlaying, rm_Foods := fs, rm_ticking := True\<rparr>, g')"
    by (metis prod.collapse)
  note st [unfolded r_def NewRoom_def, simplified]
  then show ?thesis using assms
    by (auto simp: two_joined_def server_defs card_insert_if Let_def fun_eq_iff intro!: exI [of _ fs])
qed
text \<open>
  Two clients that join a new server are put into one room, each with a snake of its own, and the game
  starts: both are told so, and the room's loop runs.
\<close>

theorem snake_two_clients_play:
  assumes "c1 \<noteq> c2" and "p1 \<noteq> p2" and "p1 \<noteq> ''''" and "p2 \<noteq> ''''" and "rid \<noteq> ''''"
    and "two_joined intn (c1, c2) (p1, p2) rid g = (gs, g')"
  shows "map_option pl_RoomID (gv_players gs c1) = Some rid \<and> map_option pl_RoomID (gv_players gs c2) = Some rid \<and>
     (\<exists>r. gv_rooms gs rid = Some r \<and> dom (rm_Players r) = {p1, p2} \<and> rm_State r = StatePlaying \<and> rm_ticking r) \<and>
     {(c1, MsgGameStart GridWidth GridHeight), (c2, MsgGameStart GridWidth GridHeight)} \<subseteq> set (gv_sent gs)"
  using two_joined_state [OF assms(1-5), of intn g] assms(1,6) by (auto simp: NewRoom_def)

theorem snake_two_clients_play_witness:
  "\<exists>r. gv_rooms (fst (two_joined zero_rand (''c1'', ''c2'') (''p1'', ''p2'') ''room'' ())) ''room'' = Some r \<and> rm_ticking r"
  using snake_two_clients_play [of "''c1''" "''c2''" "''p1''" "''p2''" "''room''" zero_rand "()"]
  by (cases "two_joined zero_rand (''c1'', ''c2'') (''p1'', ''p2'') ''room'' ()") auto

text \<open>
  A player whose opponent leaves is stuck, unless the loop had just received a tick.  The room is stopped but
  stays in play: no further tick updates it, no end of the game is announced, and the player is still a
  member of it.
\<close>

theorem snake_left_behind:
  assumes "c1 \<noteq> c2" and "p1 \<noteq> p2" and "p1 \<noteq> ''''" and "p2 \<noteq> ''''" and "rid \<noteq> ''''"
    and "onMessage intn x [] [] [c1, c2] c1 InLeave (two_joined intn (c1, c2) (p1, p2) rid g) = (gs, g')"
  shows "(\<exists>r. gv_rooms gs rid = Some r \<and> rm_State r = StatePlaying \<and> dom (rm_Players r) = {p2}) \<and>
     map_option pl_RoomID (gv_players gs c2) = Some rid \<and>
     fold (\<lambda>ks. room_tick intn ks [c1, c2] rid) kss (gs, g') = (gs, g') \<and>
     (\<forall>c w st. (c, MsgGameEnd w st) \<notin> set (gv_sent gs))"
proof -
  obtain fs g1 where t: "two_joined intn (c1, c2) (p1, p2) rid g =
     (\<lparr>gv_players = [c1 \<mapsto> \<lparr>pl_ID = p1, pl_RoomID = rid\<rparr>, c2 \<mapsto> \<lparr>pl_ID = p2, pl_RoomID = rid\<rparr>],
       gv_rooms = [rid \<mapsto> (NewRoom rid)\<lparr>rm_State := StatePlaying, rm_Foods := fs, rm_ticking := True,
         rm_Players := [p1 \<mapsto> NewSnake 5 (GridHeight div 2) DirRight, p2 \<mapsto> NewSnake (GridWidth - 6) (GridHeight div 2) DirLeft]\<rparr>],
       gv_conns = {c1, c2},
       gv_sent = [(c1, MsgWelcome p1), (c2, MsgWelcome p2), (c1, MsgRoomInfo rid 1 p1), (c2, MsgRoomInfo rid 2 p2),
         (c1, MsgPlayerJoin p2 2), (c1, MsgGameStart GridWidth GridHeight), (c2, MsgGameStart GridWidth GridHeight)]\<rparr>, g1)"
    using two_joined_state [OF assms(1-5), of intn g] by blast
  have st: "\<exists>r. gv_rooms gs rid = Some r \<and> rm_State r = StatePlaying \<and> dom (rm_Players r) = {p2} \<and> rm_done r"
    and pl: "map_option pl_RoomID (gv_players gs c2) = Some rid"
    and sent: "(c, MsgGameEnd w st) \<notin> set (gv_sent gs)" for c w st
    using assms(6) assms(1-5) unfolding t
    by (auto simp: server_defs handleLeave_def leaveRoom_def RemovePlayer_def room_Stop_def Let_def)
  have "room_tick intn ks [c1, c2] rid (gs, g') = (gs, g')" for ks
    using st by (auto simp: room_tick_def)
  then have "fold (\<lambda>ks. room_tick intn ks [c1, c2] rid) kss (gs, g') = (gs, g')" by (induction kss) simp_all
  with st pl sent show ?thesis by blast
qed

theorem snake_left_behind_witness:
  "\<exists>r. gv_rooms (fst (onMessage zero_rand '''' [] [] [''c1'', ''c2''] ''c1'' InLeave
       (two_joined zero_rand (''c1'', ''c2'') (''p1'', ''p2'') ''room'' ()))) ''room'' = Some r \<and> rm_State r = StatePlaying"
proof -
  define left where "left = onMessage zero_rand '''' [] [] [''c1'', ''c2''] ''c1'' InLeave
      (two_joined zero_rand (''c1'', ''c2'') (''p1'', ''p2'') ''room'' ())"
  have run: "onMessage zero_rand '''' [] [] [''c1'', ''c2''] ''c1'' InLeave
      (two_joined zero_rand (''c1'', ''c2'') (''p1'', ''p2'') ''room'' ()) = (fst left, ())"
    unfolding left_def [symmetric] by (simp add: prod_eq_iff)
  have "''c1'' \<noteq> ''c2''" "''p1'' \<noteq> ''p2''" "''p1'' \<noteq> ''''" "''p2'' \<noteq> ''''" "''room'' \<noteq> ''''" by simp_all
  from snake_left_behind [OF this run] show ?thesis unfolding left_def by blast
qed

text \<open>Sending changes neither the rooms nor the players.\<close>

lemma send_to_parts [simp]:
  "gv_rooms (send_to conn m gs) = gv_rooms gs" "gv_players (send_to conn m gs) = gv_players gs"
  by (simp_all add: send_to_def)

lemma sendError_parts [simp]:
  "gv_rooms (sendError conn err gs) = gv_rooms gs" "gv_players (sendError conn err gs) = gv_players gs"
  by (simp_all add: sendError_def)

lemma broadcastToRoom_parts [simp]:
  "gv_rooms (broadcastToRoom ks rid m ex gs) = gv_rooms gs"
  "gv_players (broadcastToRoom ks rid m ex gs) = gv_players gs"
  unfolding broadcastToRoom_def by (rule fold_invariant [where Q = "\<lambda>_. True"]; simp add: case_prod_beta)+

lemma set_parts [simp]:
  "gv_rooms (set_room r gs) = (gv_rooms gs)(rm_ID r \<mapsto> r)" "gv_players (set_room r gs) = gv_players gs"
  "gv_rooms (set_player conn p gs) = gv_rooms gs" "gv_players (set_player conn p gs) = (gv_players gs)(conn \<mapsto> p)"
  by (simp_all add: set_room_def set_player_def)

text \<open>
  A player who joins again while playing is in two rooms: it gets a snake in a second room and is its
  member, while its snake in the first room plays on without it.
\<close>

theorem snake_joins_twice:
  assumes "c1 \<noteq> c2" and "p1 \<noteq> p2" and "p1 \<noteq> ''''" and "p2 \<noteq> ''''" and "rid \<noteq> ''''" and "rid' \<noteq> rid"
    and "onMessage intn rid' [rid] [] cks c1 InJoin (two_joined intn (c1, c2) (p1, p2) rid g) = (gs, g')"
  shows "map_option pl_RoomID (gv_players gs c1) = Some rid' \<and>
     (\<exists>r. gv_rooms gs rid' = Some r \<and> p1 \<in> dom (rm_Players r)) \<and>
     (\<exists>r. gv_rooms gs rid = Some r \<and> rm_State r = StatePlaying \<and> p1 \<in> dom (rm_Players r))"
proof -
  obtain fs g1 where t: "two_joined intn (c1, c2) (p1, p2) rid g =
     (\<lparr>gv_players = [c1 \<mapsto> \<lparr>pl_ID = p1, pl_RoomID = rid\<rparr>, c2 \<mapsto> \<lparr>pl_ID = p2, pl_RoomID = rid\<rparr>],
       gv_rooms = [rid \<mapsto> (NewRoom rid)\<lparr>rm_State := StatePlaying, rm_Foods := fs, rm_ticking := True,
         rm_Players := [p1 \<mapsto> NewSnake 5 (GridHeight div 2) DirRight, p2 \<mapsto> NewSnake (GridWidth - 6) (GridHeight div 2) DirLeft]\<rparr>],
       gv_conns = {c1, c2},
       gv_sent = [(c1, MsgWelcome p1), (c2, MsgWelcome p2), (c1, MsgRoomInfo rid 1 p1), (c2, MsgRoomInfo rid 2 p2),
         (c1, MsgPlayerJoin p2 2), (c1, MsgGameStart GridWidth GridHeight), (c2, MsgGameStart GridWidth GridHeight)]\<rparr>, g1)"
    using two_joined_state [OF assms(1-5), of intn g] by blast
  show ?thesis
    using assms(7) assms(1,2,6) unfolding t
    by (auto simp: onMessage_def handleJoin_def FindAvailableRoom_def NewRoom_def IsFull_def PlayerCount_def CreateRoom_def
        AddPlayer_def Let_def card_insert_if)
qed

theorem snake_joins_twice_witness:
  "\<exists>r. gv_rooms (fst (onMessage zero_rand ''more'' [''room''] [] [] ''c1'' InJoin
       (two_joined zero_rand (''c1'', ''c2'') (''p1'', ''p2'') ''room'' ()))) ''more'' = Some r \<and> ''p1'' \<in> dom (rm_Players r)"
proof -
  define twice where "twice = onMessage zero_rand ''more'' [''room''] [] [] ''c1'' InJoin
      (two_joined zero_rand (''c1'', ''c2'') (''p1'', ''p2'') ''room'' ())"
  have run: "onMessage zero_rand ''more'' [''room''] [] [] ''c1'' InJoin
      (two_joined zero_rand (''c1'', ''c2'') (''p1'', ''p2'') ''room'' ()) = (fst twice, ())"
    unfolding twice_def [symmetric] by (simp add: prod_eq_iff)
  have "''c1'' \<noteq> ''c2''" "''p1'' \<noteq> ''p2''" "''p1'' \<noteq> ''''" "''p2'' \<noteq> ''''" "''room'' \<noteq> ''''" "''more'' \<noteq> ''room''" by simp_all
  from snake_joins_twice [OF this run] show ?thesis unfolding twice_def by blast
qed

end
