(* ===== verification/SnakeMatchmaking.thy ===== *)
theory SnakeMatchmaking
  imports SnakeServer
begin

text \<open>
  The server of the example game under any sequence of events (\<open>examples/snake_battle/main.go\<close>): clients
  that connect, send whatever they like and disconnect, and ticks of the rooms.  The events are handled one
  after the other.
\<close>

section \<open>Events\<close>

text \<open>
  What the environment adds to an event: fresh identifiers for a player or a room, and the orders of the
  ranges over rooms, the players of a room, and connections.
\<close>

datatype server_event =
    EvConnect string string
  | EvDisconnect "string list" string
  | EvMessage string "string list" "string list" "string list" string client_msg
  | EvTick "string list" "string list" string
  | EvLateTick "string list" "string list" string
  | EvStop

fun server_exec :: "'g rand \<Rightarrow> server_event \<Rightarrow> game_server \<times> 'g \<Rightarrow> game_server \<times> 'g" where
  "server_exec intn (EvConnect new_id conn) (gs, g) = (onConnect new_id conn gs, g)"
| "server_exec intn (EvDisconnect cks conn) (gs, g) = (onDisconnect cks conn gs, g)"
| "server_exec intn (EvMessage new_room rks pks cks conn m) (gs, g) = onMessage intn new_room rks pks cks conn m (gs, g)"
| "server_exec intn (EvTick pks cks rid) (gs, g) = room_tick intn pks cks rid (gs, g)"
| "server_exec intn (EvLateTick pks cks rid) (gs, g) = room_late_tick intn pks cks rid (gs, g)"
| "server_exec intn EvStop (gs, g) = (server_Stop gs, g)"

text \<open>New identifiers are new, and the ranges meet every key once.\<close>

fun event_ok :: "server_event \<Rightarrow> game_server \<Rightarrow> bool" where
  "event_ok (EvConnect new_id conn) gs = (gv_players gs conn = None \<and> (\<forall>p\<in>ran (gv_players gs). pl_ID p \<noteq> new_id))"
| "event_ok (EvMessage new_room rks pks cks conn m) gs =
     (iterates rks (gv_rooms gs) \<and> new_room \<noteq> '''' \<and> gv_rooms gs new_room = None \<and>
      (\<forall>p\<in>ran (gv_players gs). pl_RoomID p \<noteq> new_room))"
| "event_ok (EvTick pks cks rid) gs = (case gv_rooms gs rid of Some r \<Rightarrow> iterates pks (rm_Players r) | None \<Rightarrow> True)"
| "event_ok (EvLateTick pks cks rid) gs = (case gv_rooms gs rid of Some r \<Rightarrow> iterates pks (rm_Players r) | None \<Rightarrow> True)"
| "event_ok (EvDisconnect cks conn) gs = True"
| "event_ok EvStop gs = True"

fun events_ok :: "'g rand \<Rightarrow> server_event list \<Rightarrow> game_server \<times> 'g \<Rightarrow> bool" where
  "events_ok intn [] gg = True"
| "events_ok intn (ev # evs) gg = (event_ok ev (fst gg) \<and> events_ok intn evs (server_exec intn ev gg))"

section \<open>The invariant\<close>

text \<open>
  A room of the manager: a waiting one has one player and no loop; one in play has one or two, and two
  while its loop runs; a finished one is not in the manager.
\<close>

definition room_in :: "string \<Rightarrow> room \<Rightarrow> bool" where
  "room_in rid r \<longleftrightarrow> rm_ID r = rid \<and> rid \<noteq> '''' \<and> room_ok r \<and>
     (case rm_State r of
        StateWaiting \<Rightarrow> PlayerCount r = 1 \<and> \<not> rm_ticking r
      | StatePlaying \<Rightarrow> 1 \<le> PlayerCount r \<and> (rm_ticking r \<longrightarrow> PlayerCount r = 2)
      | StateFinished \<Rightarrow> False)"

definition rooms_ok :: "room_manager \<Rightarrow> bool" where
  "rooms_ok m \<longleftrightarrow> (\<forall>rid r. m rid = Some r \<longrightarrow> room_in rid r) \<and>
     (\<forall>i j r s. m i = Some r \<longrightarrow> m j = Some s \<longrightarrow> rm_State r = StateWaiting \<longrightarrow> rm_State s = StateWaiting \<longrightarrow> i = j)"

text \<open>A player whose room is in the manager has a snake there, and two connections have different players.\<close>

definition members_ok :: "(string \<Rightarrow> player option) \<Rightarrow> room_manager \<Rightarrow> bool" where
  "members_ok ps m \<longleftrightarrow>
     (\<forall>c p r. ps c = Some p \<longrightarrow> m (pl_RoomID p) = Some r \<longrightarrow> pl_ID p \<in> dom (rm_Players r)) \<and>
     (\<forall>c d p q. ps c = Some p \<longrightarrow> ps d = Some q \<longrightarrow> pl_ID p = pl_ID q \<longrightarrow> c = d)"

definition server_ok :: "game_server \<Rightarrow> bool" where
  "server_ok gs \<longleftrightarrow> rooms_ok (gv_rooms gs) \<and> members_ok (gv_players gs) (gv_rooms gs)"

lemma rooms_okD: "rooms_ok m \<Longrightarrow> m rid = Some r \<Longrightarrow> room_in rid r"
  by (simp add: rooms_ok_def)

lemma rooms_ok_nil: "rooms_ok m \<Longrightarrow> m '''' = None"
  by (cases "m ''''") (auto dest: rooms_okD simp: room_in_def)

lemma rooms_ok_set:
  assumes "rooms_ok m" and "room_in rid r"
    and "\<And>j s. rm_State r = StateWaiting \<Longrightarrow> m j = Some s \<Longrightarrow> rm_State s = StateWaiting \<Longrightarrow> j = rid"
  shows "rooms_ok (m(rid \<mapsto> r))"
  using assms unfolding rooms_ok_def by (auto split: if_splits)

lemma rooms_ok_del: "rooms_ok m \<Longrightarrow> rooms_ok (m(rid := None))"
  by (auto simp: rooms_ok_def split: if_splits)

lemma members_ok_set:
  assumes "members_ok ps m" and "\<And>c p. ps c = Some p \<Longrightarrow> pl_RoomID p = rid \<Longrightarrow> pl_ID p \<in> dom (rm_Players r)"
  shows "members_ok ps (m(rid \<mapsto> r))"
  using assms unfolding members_ok_def by (auto split: if_splits)

lemma members_ok_del: "members_ok ps m \<Longrightarrow> members_ok ps (m(rid := None))"
  by (auto simp: members_ok_def split: if_splits)

text \<open>A room whose players and state stay the same.\<close>

lemma rooms_ok_same:
  assumes "rooms_ok m" and "m rid = Some r0" and "room_in rid r" and "rm_State r = StateWaiting \<Longrightarrow> rm_State r0 = StateWaiting"
  shows "rooms_ok (m(rid \<mapsto> r))"
  using assms by (intro rooms_ok_set) (auto simp: rooms_ok_def)

lemma members_ok_same:
  assumes "members_ok ps m" and "m rid = Some r0" and "dom (rm_Players r0) \<subseteq> dom (rm_Players r)"
  shows "members_ok ps (m(rid \<mapsto> r))"
proof (rule members_ok_set [OF assms(1)])
  fix c p assume "ps c = Some p" "pl_RoomID p = rid"
  then have "pl_ID p \<in> dom (rm_Players r0)" using assms(1,2) unfolding members_ok_def by blast
  then show "pl_ID p \<in> dom (rm_Players r)" using assms(3) by blast
qed

section \<open>Every event keeps the invariant\<close>

lemma room_in_ok: "room_in rid r \<Longrightarrow> room_ok r"
  by (simp add: room_in_def)

lemma same_count: "dom (rm_Players r') = dom (rm_Players r) \<Longrightarrow> PlayerCount r' = PlayerCount r"
  by (simp add: PlayerCount_def)

lemma turn_frame: "dom (rm_Players (room_SetDirection i d r)) = dom (rm_Players r)"
    "rm_ID (room_SetDirection i d r) = rm_ID r" "rm_State (room_SetDirection i d r) = rm_State r"
    "rm_ticking (room_SetDirection i d r) = rm_ticking r"
  by (auto simp: room_SetDirection_def split: option.splits)

lemma server_ok_connect:
  assumes "server_ok gs" and "event_ok (EvConnect new_id conn) gs"
  shows "server_ok (onConnect new_id conn gs)"
proof -
  have "members_ok (gv_players gs) (gv_rooms gs)" "gv_rooms gs '''' = None"
    using assms(1) by (simp_all add: server_ok_def rooms_ok_nil)
  moreover have "\<And>c p. gv_players gs c = Some p \<Longrightarrow> pl_ID p \<noteq> new_id" using assms(2) by (auto simp: ran_def)
  ultimately have "members_ok ((gv_players gs)(conn \<mapsto> \<lparr>pl_ID = new_id, pl_RoomID = ''''\<rparr>)) (gv_rooms gs)"
    unfolding members_ok_def by (auto split: if_splits)
  with assms(1) show ?thesis by (simp add: server_ok_def onConnect_def)
qed

lemma server_ok_direction:
  assumes "server_ok gs"
  shows "server_ok (handleDirection p data gs)"
proof (cases "gv_rooms gs (pl_RoomID p)")
  case None
  with assms show ?thesis by (simp add: handleDirection_def GetRoom_def)
next
  case (Some r)
  have rooms: "rooms_ok (gv_rooms gs)" and members: "members_ok (gv_players gs) (gv_rooms gs)"
    using assms by (simp_all add: server_ok_def)
  have r: "room_in (pl_RoomID p) r" by (rule rooms_okD [OF rooms Some])
  have "server_ok (set_room (room_SetDirection (pl_ID p) d r) gs)" for d
  proof -
    let ?r = "room_SetDirection (pl_ID p) d r"
    have in': "room_in (pl_RoomID p) ?r"
      using r room_ok_turn [of r] same_count [OF turn_frame(1)]
      by (cases "rm_State r") (simp_all add: room_in_def turn_frame)
    then have "rm_ID ?r = pl_RoomID p" by (simp add: room_in_def)
    with rooms_ok_same [OF rooms Some in'] members_ok_same [OF members Some, of ?r] show ?thesis
      by (simp add: server_ok_def turn_frame)
  qed
  with assms Some show ?thesis
    by (auto simp: handleDirection_def GetRoom_def split: option.splits)
qed

text \<open>Leaving: of the room that is left, only a member of it knew.\<close>

lemma leaveRoom_ok:
  assumes rooms: "rooms_ok (gv_rooms gs)" and members: "members_ok (gv_players gs) (gv_rooms gs)"
    and others: "\<And>c q. gv_players gs c = Some q \<Longrightarrow> pl_ID q = pl_ID p \<Longrightarrow> c = conn"
    and mine: "\<And>r. gv_rooms gs (pl_RoomID p) = Some r \<Longrightarrow> pl_ID p \<in> dom (rm_Players r)"
    and left: "leaveRoom cks p gs = (p', gs')"
  shows "rooms_ok (gv_rooms gs') \<and> members_ok ((gv_players gs)(conn := None)) (gv_rooms gs') \<and>
     gv_players gs' = gv_players gs \<and> pl_ID p' = pl_ID p \<and> gv_rooms gs' (pl_RoomID p') = None"
proof -
  have away: "members_ok ((gv_players gs)(conn := None)) (gv_rooms gs)"
    using members by (auto simp: members_ok_def split: if_splits)
  show ?thesis
  proof (cases "gv_rooms gs (pl_RoomID p)")
    case None
    with left have "p' = p" "gs' = gs" by (auto simp: leaveRoom_def GetRoom_def split: if_splits)
    with None rooms away show ?thesis by simp
  next
    case (Some r)
    have r: "room_in (pl_RoomID p) r" by (rule rooms_okD [OF rooms Some])
    define r1 where "r1 = RemovePlayer (pl_ID p) r"
    have id: "rm_ID r1 = pl_RoomID p" "pl_RoomID p \<noteq> ''''" using r by (simp_all add: r1_def room_in_def RemovePlayer_def)
    have r1: "room_ok r1" "rm_State r1 = rm_State r" "rm_ticking r1 = rm_ticking r"
      using r room_ok_Remove by (simp_all add: r1_def room_in_def RemovePlayer_def)
    have fin: "finite (dom (rm_Players r))" "PlayerCount r \<le> 2" using r by (simp_all add: room_in_def room_ok_def)
    have dom1: "dom (rm_Players r1) = dom (rm_Players r) - {pl_ID p}" by (auto simp: r1_def RemovePlayer_def)
    have count: "PlayerCount r = Suc (PlayerCount r1)"
      unfolding PlayerCount_def dom1 using card_Suc_Diff1 [OF fin(1) mine [OF Some]] by simp
    have p': "p' = p\<lparr>pl_RoomID := ''''\<rparr>" and players: "gv_players gs' = gv_players gs"
      and gs': "gv_rooms gs' = (gv_rooms gs)(pl_RoomID p := (if PlayerCount r1 = 0 then None else Some (room_Stop r1)))"
      using left Some id by (auto simp: leaveRoom_def GetRoom_def Let_def r1_def [symmetric] RemoveRoom_def fun_upd_def
          room_Stop_def split: if_splits)
    have "rooms_ok (gv_rooms gs')"
    proof (cases "PlayerCount r1 = 0")
      case True
      then show ?thesis using rooms by (simp add: gs' rooms_ok_del)
    next
      case False
      then have "room_in (pl_RoomID p) (room_Stop r1)"
        using r r1 id count fin by (auto simp: room_in_def room_Stop_def room_ok_def players_ok_def foods_ok_def PlayerCount_def
            split: room_state.splits)
      from rooms_ok_same [OF rooms Some this] have "rooms_ok ((gv_rooms gs)(pl_RoomID p \<mapsto> room_Stop r1))"
        by (simp add: room_Stop_def r1)
      then show ?thesis using False by (simp add: gs')
    qed
    moreover have "members_ok ((gv_players gs)(conn := None)) (gv_rooms gs')"
    proof (cases "PlayerCount r1 = 0")
      case True
      then show ?thesis using members_ok_del [OF away] by (simp add: gs')
    next
      case False
      have "pl_ID q \<in> dom (rm_Players (room_Stop r1))"
        if "((gv_players gs)(conn := None)) c = Some q" "pl_RoomID q = pl_RoomID p" for c q
      proof -
        from that have c: "gv_players gs c = Some q" "c \<noteq> conn" by (auto split: if_splits)
        then have "pl_ID q \<in> dom (rm_Players r)" using members Some that(2) unfolding members_ok_def by metis
        with others [OF c(1)] c(2) show ?thesis by (auto simp: room_Stop_def dom1)
      qed
      then show ?thesis using False members_ok_set [OF away] by (simp add: gs')
    qed
    moreover have "gv_rooms gs' '''' = None" by (rule rooms_ok_nil [OF calculation(1)])
    ultimately show ?thesis using p' players by simp
  qed
qed

lemma members_ok_absent:
  assumes "members_ok (ps(conn := None)) m" and "m (pl_RoomID p) = None"
    and "\<And>c q. c \<noteq> conn \<Longrightarrow> ps c = Some q \<Longrightarrow> pl_ID q \<noteq> pl_ID p"
  shows "members_ok (ps(conn \<mapsto> p)) m"
  unfolding members_ok_def
proof (intro conjI allI impI)
  fix c q r assume q: "(ps(conn \<mapsto> p)) c = Some q" "m (pl_RoomID q) = Some r"
  then have "c \<noteq> conn" using assms(2) by auto
  then have "(ps(conn := None)) c = Some q" using q(1) by simp
  then show "pl_ID q \<in> dom (rm_Players r)" using assms(1) q(2) unfolding members_ok_def by blast
next
  fix c d q q' assume q: "(ps(conn \<mapsto> p)) c = Some q" "(ps(conn \<mapsto> p)) d = Some q'" "pl_ID q = pl_ID q'"
  show "c = d"
  proof (cases "c = conn \<or> d = conn")
    case True
    then show ?thesis using q assms(3) [of c q] assms(3) [of d q'] by (auto split: if_splits)
  next
    case False
    then have "(ps(conn := None)) c = Some q" "(ps(conn := None)) d = Some q'" using q by simp_all
    then show ?thesis using assms(1) q(3) unfolding members_ok_def by blast
  qed
qed

lemma server_ok_leave:
  assumes "server_ok gs" and p: "gv_players gs conn = Some p"
  shows "server_ok (handleLeave cks conn p gs)"
proof -
  obtain p' gs' where l: "leaveRoom cks p gs = (p', gs')" by fastforce
  have members: "members_ok (gv_players gs) (gv_rooms gs)" using assms(1) by (simp add: server_ok_def)
  have others: "c = conn" if "gv_players gs c = Some q" "pl_ID q = pl_ID p" for c q
    using members p that unfolding members_ok_def by metis
  have mine: "pl_ID p \<in> dom (rm_Players r)" if "gv_rooms gs (pl_RoomID p) = Some r" for r
    using members p that unfolding members_ok_def by blast
  note ok = leaveRoom_ok [OF _ members others mine l]
  have "members_ok ((gv_players gs)(conn \<mapsto> p')) (gv_rooms gs')"
    by (rule members_ok_absent) (use ok assms(1) others in \<open>auto simp: server_ok_def\<close>)
  with ok assms(1) show ?thesis by (simp add: handleLeave_def l server_ok_def)
qed

lemma server_ok_disconnect:
  assumes "server_ok gs"
  shows "server_ok (onDisconnect cks conn gs)"
proof (cases "gv_players gs conn")
  case None
  with assms show ?thesis by (simp add: onDisconnect_def)
next
  case (Some p)
  define gs0 where "gs0 = gs\<lparr>gv_players := (gv_players gs)(conn := None), gv_conns := gv_conns gs - {conn}\<rparr>"
  obtain p' gs' where l: "leaveRoom cks p gs0 = (p', gs')" by fastforce
  have members: "members_ok (gv_players gs) (gv_rooms gs)" and rooms: "rooms_ok (gv_rooms gs)"
    using assms by (simp_all add: server_ok_def)
  have m0: "members_ok (gv_players gs0) (gv_rooms gs0)"
    using members by (auto simp: members_ok_def gs0_def split: if_splits)
  have "rooms_ok (gv_rooms gs') \<and> members_ok ((gv_players gs0)(conn := None)) (gv_rooms gs') \<and>
      gv_players gs' = gv_players gs0 \<and> pl_ID p' = pl_ID p \<and> gv_rooms gs' (pl_RoomID p') = None"
  proof (rule leaveRoom_ok [OF _ m0 _ _ l])
    show "rooms_ok (gv_rooms gs0)" using rooms by (simp add: gs0_def)
    show "c = conn" if "gv_players gs0 c = Some q" "pl_ID q = pl_ID p" for c q
      using members Some that unfolding members_ok_def gs0_def by (auto split: if_splits)
    show "pl_ID p \<in> dom (rm_Players r)" if "gv_rooms gs0 (pl_RoomID p) = Some r" for r
      using members Some that unfolding members_ok_def gs0_def by simp
  qed
  then show ?thesis using Some l by (simp add: onDisconnect_def gs0_def [symmetric] server_ok_def) (simp add: gs0_def)
qed

subsection \<open>Joining\<close>

definition free_room :: "game_server \<Rightarrow> string \<Rightarrow> room \<Rightarrow> bool" where
  "free_room gs rid r \<longleftrightarrow> rm_ID r = rid \<and> rid \<noteq> '''' \<and> room_ok r \<and> rm_State r = StateWaiting \<and> \<not> rm_ticking r \<and>
     PlayerCount r \<le> 1 \<and> (\<forall>j s. gv_rooms gs j = Some s \<longrightarrow> rm_State s = StateWaiting \<longrightarrow> j = rid) \<and>
     (\<forall>c q. gv_players gs c = Some q \<longrightarrow> pl_RoomID q = rid \<longrightarrow> gv_rooms gs rid = Some r)"

lemma find_SomeD: "find P xs = Some x \<Longrightarrow> x \<in> set xs \<and> P x"
  by (induction xs) (auto split: if_splits)

lemma FindAvailableRoom_Some:
  assumes "FindAvailableRoom rks m = Some r"
  shows "\<exists>i. m i = Some r \<and> rm_State r = StateWaiting"
proof -
  obtain i where "find (\<lambda>(_, r). \<not> IsFull r \<and> rm_State r = StateWaiting) (range_over rks m) = Some (i, r)"
    using assms by (auto simp: FindAvailableRoom_def)
  from find_SomeD [OF this] show ?thesis by (auto simp: in_range_over)
qed

lemma FindAvailableRoom_None:
  assumes "FindAvailableRoom rks m = None" and "iterates rks m" and "m i = Some r"
  shows "IsFull r \<or> rm_State r \<noteq> StateWaiting"
proof -
  have "(i, r) \<in> set (range_over rks m)" using assms(2,3) by simp
  then show ?thesis using assms(1) by (auto simp: FindAvailableRoom_def find_None_iff)
qed

text \<open>The room a player is put into: the waiting one if there is one, else a new one.\<close>

lemma available_room:
  assumes ok: "server_ok gs" and ev: "event_ok (EvMessage new_room rks pks cks conn m) gs"
    and room: "(case FindAvailableRoom rks (gv_rooms gs) of Some r \<Rightarrow> (r, gs)
       | None \<Rightarrow> (NewRoom new_room, gs\<lparr>gv_rooms := CreateRoom new_room (gv_rooms gs)\<rparr>)) = (r0, gs0)"
  shows "free_room gs (rm_ID r0) r0 \<and> gv_players gs0 = gv_players gs \<and>
     (\<forall>r. (gv_rooms gs0)(rm_ID r0 \<mapsto> r) = (gv_rooms gs)(rm_ID r0 \<mapsto> r))"
proof -
  have rooms: "rooms_ok (gv_rooms gs)" using ok by (simp add: server_ok_def)
  have open': "\<not> IsFull s" if "gv_rooms gs j = Some s" "rm_State s = StateWaiting" for j s
    using rooms_okD [OF rooms that(1)] that(2) by (simp add: room_in_def IsFull_def)
  show ?thesis
  proof (cases "FindAvailableRoom rks (gv_rooms gs)")
    case None
    have none: "rm_State s \<noteq> StateWaiting" if "gv_rooms gs j = Some s" for j s
      using FindAvailableRoom_None [OF None _ that] open' [OF that] ev by auto
    have fresh: "pl_RoomID q \<noteq> new_room" if "gv_players gs c = Some q" for c q
      using ev that by (auto simp: ran_def)
    have r0: "r0 = NewRoom new_room" "gs0 = gs\<lparr>gv_rooms := (gv_rooms gs)(new_room \<mapsto> NewRoom new_room)\<rparr>"
      using room unfolding None CreateRoom_def by auto
    have "rm_ID r0 = new_room" "rm_State r0 = StateWaiting" "\<not> rm_ticking r0" "PlayerCount r0 = 0"
      by (simp_all add: r0 NewRoom_def PlayerCount_def)
    then have "free_room gs (rm_ID r0) r0"
      using none fresh ev room_ok_New [of new_room] unfolding free_room_def by (simp add: r0(1))
    then show ?thesis using \<open>rm_ID r0 = new_room\<close> by (simp add: r0(2))
  next
    case (Some r)
    from FindAvailableRoom_Some [OF this] obtain i where r: "gv_rooms gs i = Some r" "rm_State r = StateWaiting" by blast
    have "room_in i r" by (rule rooms_okD [OF rooms r(1)])
    moreover have "j = i" if "gv_rooms gs j = Some s" "rm_State s = StateWaiting" for j s
      using rooms r that unfolding rooms_ok_def by blast
    moreover have "r0 = r" "gs0 = gs" using room unfolding Some by auto
    moreover have "room_ok r" "PlayerCount r \<le> 1" "\<not> rm_ticking r" "rm_ID r = i" "i \<noteq> ''''"
      using \<open>room_in i r\<close> r(2) by (simp_all add: room_in_def)
    ultimately have "free_room gs i r" unfolding free_room_def using r by blast
    then show ?thesis using \<open>r0 = r\<close> \<open>gs0 = gs\<close> \<open>rm_ID r = i\<close> by simp
  qed
qed

lemma AddPlayer_free:
  assumes "free_room gs rid r0" and "AddPlayer i r0 = (added, r1)"
  shows "added \<and> rm_ID r1 = rid \<and> room_ok r1 \<and> rm_State r1 = StateWaiting \<and> \<not> rm_ticking r1 \<and>
     dom (rm_Players r1) = insert i (dom (rm_Players r0)) \<and> 1 \<le> PlayerCount r1 \<and> PlayerCount r1 \<le> 2"
proof -
  have r1: "added" "r1 = snd (AddPlayer i r0)" "room_ok r0" using assms by (auto simp: AddPlayer_def free_room_def Let_def)
  moreover have "room_ok r1" using room_ok_Add [OF r1(3)] r1(2) by simp
  moreover have "dom (rm_Players r1) = insert i (dom (rm_Players r0))" "rm_ID r1 = rid" "rm_State r1 = StateWaiting" "\<not> rm_ticking r1"
    using assms by (auto simp: AddPlayer_def free_room_def Let_def)
  moreover from this have "PlayerCount r1 \<noteq> 0" using \<open>room_ok r1\<close> by (auto simp: PlayerCount_def room_ok_def)
  ultimately show ?thesis by (simp add: room_ok_def)
qed

lemma join_result:
  assumes intn: "intn_ok intn" and "server_ok gs" and "event_ok (EvMessage new_room rks pks cks conn m) gs"
    and join: "handleJoin intn new_room rks pks cks conn p (gs, g) = (gs', g')"
  shows "\<exists>rid r0 r. free_room gs rid r0 \<and> gv_rooms gs' = (gv_rooms gs)(rid \<mapsto> r) \<and>
     gv_players gs' = (gv_players gs)(conn \<mapsto> p\<lparr>pl_RoomID := rid\<rparr>) \<and> room_in rid r \<and>
     dom (rm_Players r) = insert (pl_ID p) (dom (rm_Players r0))"
proof -
  obtain r0 gs0 where room: "(case FindAvailableRoom rks (gv_rooms gs) of Some r \<Rightarrow> (r, gs)
       | None \<Rightarrow> (NewRoom new_room, gs\<lparr>gv_rooms := CreateRoom new_room (gv_rooms gs)\<rparr>)) = (r0, gs0)" by fastforce
  note avail = available_room [OF assms(2,3) room]
  obtain added r1 where add: "AddPlayer (pl_ID p) r0 = (added, r1)" by fastforce
  note r1 = AddPlayer_free [OF conjunct1 [OF avail] add]
  show ?thesis
  proof (cases "IsFull r1")
    case True
    obtain r2 g2 where st: "room_Start intn pks r1 g = (r2, g2)" by fastforce
    obtain fs where "r2 = r1\<lparr>rm_State := StatePlaying, rm_Foods := fs, rm_ticking := True\<rparr>"
      using room_Start_frame [of r1 intn pks g] r1 st by auto
    moreover have "room_ok r2" by (rule room_ok_Start [OF intn _ st]) (simp add: r1)
    moreover have "PlayerCount r1 = 2" using r1 True by (simp add: IsFull_def)
    moreover from calculation have "PlayerCount r2 = 2" by (simp add: PlayerCount_def)
    moreover have "rm_ID r0 \<noteq> ''''" using avail by (simp add: free_room_def)
    ultimately have r2: "room_in (rm_ID r0) r2" "dom (rm_Players r2) = insert (pl_ID p) (dom (rm_Players r0))" "rm_ID r2 = rm_ID r0"
      using r1 unfolding room_in_def by (simp_all del: One_nat_def)
    moreover have "gv_rooms gs' = (gv_rooms gs)(rm_ID r0 \<mapsto> r2)" "gv_players gs' = (gv_players gs)(conn \<mapsto> p\<lparr>pl_RoomID := rm_ID r0\<rparr>)"
      using join avail r1 True r2(3) unfolding handleJoin_def Let_def prod.case room add
      by (auto simp: st)
    ultimately show ?thesis using avail r2 by blast
  next
    case False
    then have "room_in (rm_ID r0) r1" using r1 avail by (simp add: room_in_def IsFull_def free_room_def)
    moreover have "gv_rooms gs' = (gv_rooms gs)(rm_ID r0 \<mapsto> r1)" "gv_players gs' = (gv_players gs)(conn \<mapsto> p\<lparr>pl_RoomID := rm_ID r0\<rparr>)"
      using join avail r1 False unfolding handleJoin_def Let_def prod.case room add by auto
    ultimately show ?thesis using avail r1 by blast
  qed
qed

lemma server_ok_join:
  assumes "intn_ok intn" and ok: "server_ok gs" and "event_ok (EvMessage new_room rks pks cks conn m) gs"
    and p: "gv_players gs conn = Some p" and "handleJoin intn new_room rks pks cks conn p (gs, g) = (gs', g')"
  shows "server_ok gs'"
proof -
  obtain rid r0 r where j: "free_room gs rid r0" "gv_rooms gs' = (gv_rooms gs)(rid \<mapsto> r)"
    "gv_players gs' = (gv_players gs)(conn \<mapsto> p\<lparr>pl_RoomID := rid\<rparr>)" "room_in rid r"
    "dom (rm_Players r) = insert (pl_ID p) (dom (rm_Players r0))"
    using join_result [OF assms(1-3,5)] by blast
  have rooms: "rooms_ok (gv_rooms gs)" and members: "members_ok (gv_players gs) (gv_rooms gs)"
    using ok by (simp_all add: server_ok_def)
  have "rooms_ok (gv_rooms gs')" unfolding j(2)
    by (rule rooms_ok_set [OF rooms j(4)]) (use j(1) in \<open>auto simp: free_room_def\<close>)
  moreover have "members_ok (gv_players gs') (gv_rooms gs')"
    unfolding members_ok_def
  proof (intro conjI allI impI)
    fix c q s assume q: "gv_players gs' c = Some q" "gv_rooms gs' (pl_RoomID q) = Some s"
    show "pl_ID q \<in> dom (rm_Players s)"
    proof (cases "c = conn")
      case True
      with q j(2,3) have "s = r" "pl_ID q = pl_ID p" by auto
      then show ?thesis by (simp only: j(5) insertI1)
    next
      case False
      then have old: "gv_players gs c = Some q" using q(1) j(3) by simp
      show ?thesis
      proof (cases "pl_RoomID q = rid")
        case True
        then have "gv_rooms gs rid = Some r0" using old j(1) by (auto simp: free_room_def)
        then have "pl_ID q \<in> dom (rm_Players r0)" using members old True unfolding members_ok_def by blast
        then show ?thesis using True q(2) j(2,5) by auto
      next
        case False
        then show ?thesis using members old q(2) j(2) unfolding members_ok_def by auto
      qed
    qed
  next
    fix c d q q' assume q: "gv_players gs' c = Some q" "gv_players gs' d = Some q'" "pl_ID q = pl_ID q'"
    have "\<exists>u. gv_players gs c = Some u \<and> pl_ID u = pl_ID q" "\<exists>u. gv_players gs d = Some u \<and> pl_ID u = pl_ID q'"
      using q(1,2) p unfolding j(3) by (auto split: if_splits)
    then show "c = d" using members q(3) unfolding members_ok_def by metis
  qed
  ultimately show ?thesis by (simp add: server_ok_def)
qed

subsection \<open>Ticks, and any event\<close>

lemma check_player_frame:
  assumes "check_player intn ks i (r, g) = (r', g')"
  shows "rm_ID r' = rm_ID r \<and> rm_State r' = rm_State r \<and> rm_ticking r' = rm_ticking r"
proof -
  have food: "rm_ID r2 = rm_ID r1 \<and> rm_State r2 = rm_State r1 \<and> rm_ticking r2 = rm_ticking r1"
    if "spawnFood intn ks r1 g1 = (r2, g2)" for r1 g1 r2 g2
    using spawn_tries_frame [of intn ks 100 r1 g1] that by (auto simp: spawnFood_def)
  show ?thesis
    using assms by (auto simp: check_player_def set_snake_def eat_def Let_def dest!: food split: option.splits if_splits)
qed

lemma check_players_frame:
  "fold (check_player intn ks) is (r, g) = (r', g') \<Longrightarrow>
     rm_ID r' = rm_ID r \<and> rm_State r' = rm_State r \<and> rm_ticking r' = rm_ticking r"
proof (induction "is" arbitrary: r g)
  case (Cons i "is")
  obtain r1 g1 where c: "check_player intn ks i (r, g) = (r1, g1)" by fastforce
  have "fold (check_player intn ks) is (r1, g1) = (r', g')" using Cons.prems c by simp
  from Cons.IH [OF this] check_player_frame [OF c] show ?case by simp
qed simp

lemma update_players:
  assumes "room_update intn ks r g = (ev, r', g')" and "iterates ks (rm_Players r)" and "rm_State r = StatePlaying"
  shows "dom (rm_Players r') = dom (rm_Players r) \<and> rm_ID r' = rm_ID r \<and>
     (case ev of Ended w \<Rightarrow> True | _ \<Rightarrow> rm_State r' = StatePlaying \<and> rm_ticking r' = rm_ticking r)"
proof -
  obtain r1 g1 where f: "fold (check_player intn ks) ks (move_all r, g) = (r1, g1)" by fastforce
  have "set ks = dom (rm_Players (move_all r))" using assms(2) by (auto simp: iterates_def move_all_def)
  from check_players_clear [OF f _ this, of "{}"] have "dom (rm_Players r1) = dom (rm_Players r)"
    using assms(2) by (simp add: clear_def iterates_def)
  moreover have frame: "rm_ID r1 = rm_ID r" "rm_State r1 = rm_State r" "rm_ticking r1 = rm_ticking r"
    using check_players_frame [OF f] by (simp_all add: move_all_def)
  ultimately have r1: "dom (rm_Players r1) = dom (rm_Players r) \<and> rm_ID r1 = rm_ID r" "rm_State r1 = StatePlaying"
    "rm_ticking r1 = rm_ticking r" using assms(3) by simp_all
  show ?thesis
  proof (cases "length (alive_ids ks r1) \<le> 1")
    case True
    then obtain w where "ev = Ended w" "r' = r1\<lparr>rm_State := StateFinished, rm_ticking := False\<rparr>"
      using assms(1) unfolding update_unfold [OF assms(3) f] by auto
    with r1 show ?thesis by simp
  next
    case False
    then have "ev = Updated" "r' = r1" using assms(1) unfolding update_unfold [OF assms(3) f] by auto
    with r1 show ?thesis by simp
  qed
qed

lemma server_ok_loop:
  assumes intn: "intn_ok intn" and ok: "server_ok gs" and r: "gv_rooms gs rid = Some r" and it: "iterates pks (rm_Players r)"
    and tick: "loop_update intn pks cks r (gs, g) = (gs', g')"
  shows "server_ok gs'"
proof (cases "rm_State r = StatePlaying")
  case False
  then have "room_update intn pks r g = (NoEvent, r, g)" by (simp add: room_update_def)
  moreover have "rm_ID r = rid" using ok r by (auto simp: server_ok_def rooms_ok_def room_in_def)
  ultimately have "gs' = gs\<lparr>gv_rooms := (gv_rooms gs)(rid \<mapsto> r)\<rparr>"
    using tick by (auto simp: loop_update_def set_room_def Let_def)
  with ok r show ?thesis by (simp add: fun_upd_idem)
next
  case playing: True
  have rooms: "rooms_ok (gv_rooms gs)" and members: "members_ok (gv_players gs) (gv_rooms gs)"
    using ok by (simp_all add: server_ok_def)
  have rin: "room_in rid r" by (rule rooms_okD [OF rooms r])
  then have id: "rm_ID r = rid" "rid \<noteq> ''''" and rok: "room_ok r"
    and one: "1 \<le> PlayerCount r" and two: "rm_ticking r \<longrightarrow> PlayerCount r = 2"
    using playing by (simp_all add: room_in_def)
  obtain e r1 g1 where u: "room_update intn pks r g = (e, r1, g1)" by (metis prod.exhaust)
  note up = update_players [OF u it playing]
  have rok1: "room_ok r1" using room_ok_update [OF u intn _ rok] it by (simp add: iterates_def)
  have gs': "gv_players gs' = gv_players gs"
    "gv_rooms gs' = (gv_rooms gs)(rid := (case e of Ended w \<Rightarrow> None | _ \<Rightarrow> Some r1))"
    using tick u up id unfolding loop_update_def
    by (auto simp: broadcastState_def broadcastGameEnd_def RemoveRoom_def Let_def split: room_event.splits)
  show ?thesis
  proof (cases "\<exists>w. e = Ended w")
    case True
    then show ?thesis using rooms_ok_del [OF rooms] members_ok_del [OF members] by (auto simp: server_ok_def gs')
  next
    case False
    then have r1: "dom (rm_Players r1) = dom (rm_Players r)" "rm_ID r1 = rid" "rm_State r1 = StatePlaying"
      "rm_ticking r1 = rm_ticking r"
      using up id by (cases e; simp)+
    then have "room_in rid r1" using rok1 id one two same_count [OF r1(1)] by (simp add: room_in_def)
    moreover have "gv_rooms gs' = (gv_rooms gs)(rid \<mapsto> r1)" using False gs'(2) by (cases e) simp_all
    ultimately show ?thesis
      using rooms_ok_same [OF rooms r, of r1] members_ok_same [OF members r, of r1] r1
      by (simp add: server_ok_def gs'(1))
  qed
qed

lemma server_ok_tick:
  assumes "intn_ok intn" and "server_ok gs" and "event_ok (EvTick pks cks rid) gs"
    and "room_tick intn pks cks rid (gs, g) = (gs', g') \<or> room_late_tick intn pks cks rid (gs, g) = (gs', g')"
  shows "server_ok gs'"
  using assms server_ok_loop [OF assms(1,2)]
  by (auto simp: room_tick_def room_late_tick_def split: option.splits if_splits)

lemma server_ok_stop:
  assumes ok: "server_ok gs"
  shows "server_ok (server_Stop gs)"
proof -
  have "room_in i (room_Stop r)" if "room_in i r" for i r
    using that by (cases "rm_State r") (auto simp: room_in_def room_Stop_def room_ok_def players_ok_def foods_ok_def PlayerCount_def)
  then have "rooms_ok (manager_Stop (gv_rooms gs))"
    using ok unfolding server_ok_def rooms_ok_def manager_Stop_def by (auto simp: room_Stop_def)
  moreover have "members_ok (gv_players gs) (manager_Stop (gv_rooms gs))"
    unfolding members_ok_def
  proof (intro conjI allI impI)
    fix c p r assume p: "gv_players gs c = Some p" "manager_Stop (gv_rooms gs) (pl_RoomID p) = Some r"
    then obtain s where "gv_rooms gs (pl_RoomID p) = Some s" "r = room_Stop s" by (auto simp: manager_Stop_def)
    moreover from this p(1) have "pl_ID p \<in> dom (rm_Players s)" using ok unfolding server_ok_def members_ok_def by blast
    ultimately show "pl_ID p \<in> dom (rm_Players r)" by (simp add: room_Stop_def)
  next
    fix c d p q assume "gv_players gs c = Some p" "gv_players gs d = Some q" "pl_ID p = pl_ID q"
    then show "c = d" using ok unfolding server_ok_def members_ok_def by blast
  qed
  ultimately show ?thesis by (simp add: server_ok_def server_Stop_def)
qed

lemma server_ok_exec:
  assumes "intn_ok intn" and "server_ok gs" and "event_ok ev gs"
  shows "server_ok (fst (server_exec intn ev (gs, g)))"
proof (cases ev)
  case (EvMessage new_room rks pks cks conn m)
  show ?thesis
  proof (cases "gv_players gs conn")
    case None
    with assms(2) EvMessage show ?thesis by (simp add: onMessage_def server_ok_def)
  next
    case (Some p)
    obtain gs' g' where j: "handleJoin intn new_room rks pks cks conn p (gs, g) = (gs', g')" by fastforce
    have "server_ok gs'" by (rule server_ok_join [OF assms(1,2) _ Some j]) (use assms(3) EvMessage in simp)
    with j Some EvMessage assms(2) server_ok_leave [OF assms(2) Some] server_ok_direction [OF assms(2)] show ?thesis
      by (cases m) (simp_all add: onMessage_def, simp_all add: server_ok_def)
  qed
next
  case (EvTick pks cks rid)
  obtain gs' g' where t: "room_tick intn pks cks rid (gs, g) = (gs', g')" by fastforce
  from server_ok_tick [OF assms(1,2) _ disjI1 [OF t]] assms(3) EvTick t show ?thesis by simp
next
  case (EvLateTick pks cks rid)
  obtain gs' g' where t: "room_late_tick intn pks cks rid (gs, g) = (gs', g')" by fastforce
  from server_ok_tick [OF assms(1,2) _ disjI2 [OF t]] assms(3) EvLateTick t show ?thesis by simp
qed (use assms server_ok_connect server_ok_disconnect server_ok_stop in simp_all)

lemma server_ok_run: "intn_ok intn \<Longrightarrow> server_ok (fst gg) \<Longrightarrow> events_ok intn evs gg \<Longrightarrow>
    server_ok (fst (fold (server_exec intn) evs gg))"
proof (induction evs arbitrary: gg)
  case (Cons ev evs)
  then show ?case using server_ok_exec [of intn "fst gg" ev "snd gg"] by simp
qed simp

section \<open>Properties\<close>

lemma server_ok_new: "server_ok NewGameServer"
  by (simp add: server_ok_def rooms_ok_def members_ok_def NewGameServer_def NewRoomManager_def)

text \<open>
  C20: Whatever clients connect, send and disconnect, and however the rooms tick, a late tick after
  a stop included: every room the server
  keeps satisfies the invariant of a room, has at least one player, and two while its loop runs; at most
  one room is waiting for a second player, so no two players wait for each other in different rooms; and a
  player whose room is kept has a snake in it (for fresh identifiers, and events handled one at a time).
\<close>

theorem snake_server_invariant:
  assumes "intn_ok intn" and "events_ok intn evs (NewGameServer, g)"
    and "fold (server_exec intn) evs (NewGameServer, g) = (gs, g')"
  shows "(\<forall>rid r. gv_rooms gs rid = Some r \<longrightarrow> rm_ID r = rid \<and> room_ok r \<and> 1 \<le> PlayerCount r \<and>
       rm_State r \<noteq> StateFinished \<and> (rm_ticking r \<longrightarrow> rm_State r = StatePlaying \<and> PlayerCount r = 2)) \<and>
     (\<forall>i j r s. gv_rooms gs i = Some r \<longrightarrow> gv_rooms gs j = Some s \<longrightarrow> rm_State r = StateWaiting \<longrightarrow>
       rm_State s = StateWaiting \<longrightarrow> i = j) \<and>
     (\<forall>c p r. gv_players gs c = Some p \<longrightarrow> gv_rooms gs (pl_RoomID p) = Some r \<longrightarrow> pl_ID p \<in> dom (rm_Players r))"
proof -
  have ok: "server_ok gs" using server_ok_run [OF assms(1) _ assms(2)] server_ok_new assms(3) by simp
  have room: "rm_ID r = rid \<and> room_ok r \<and> 1 \<le> PlayerCount r \<and> rm_State r \<noteq> StateFinished \<and>
      (rm_ticking r \<longrightarrow> rm_State r = StatePlaying \<and> PlayerCount r = 2)" if "room_in rid r" for rid r
    using that by (cases "rm_State r") (simp_all add: room_in_def)
  show ?thesis
    using ok room unfolding server_ok_def rooms_ok_def members_ok_def by blast
qed

text \<open>A client joins a new server, and a second one connects.\<close>

theorem snake_server_invariant_witness:
  "let evs = [EvConnect ''p1'' ''c1'', EvMessage ''room'' [] [] [''c1''] ''c1'' InJoin, EvConnect ''p2'' ''c2''];
       gs = fst (fold (server_exec zero_rand) evs (NewGameServer, ()))
   in \<exists>r. gv_rooms gs ''room'' = Some r \<and> room_ok r \<and> ''p1'' \<in> dom (rm_Players r)"
proof -
  define evs where "evs = [EvConnect ''p1'' ''c1'', EvMessage ''room'' [] [] [''c1''] ''c1'' InJoin, EvConnect ''p2'' ''c2'']"
  obtain gs g' where run: "fold (server_exec zero_rand) evs (NewGameServer, ()) = (gs, g')" by (metis prod.exhaust)
  have "events_ok zero_rand evs (NewGameServer, ())"
    by (simp add: evs_def server_defs iterates_def Let_def)
  moreover have "intn_ok zero_rand" by (simp add: intn_ok_def zero_rand_def)
  ultimately have inv: "\<And>rid r. gv_rooms gs rid = Some r \<Longrightarrow> room_ok r"
    "\<And>c p r. gv_players gs c = Some p \<Longrightarrow> gv_rooms gs (pl_RoomID p) = Some r \<Longrightarrow> pl_ID p \<in> dom (rm_Players r)"
    using snake_server_invariant [of zero_rand evs "()", OF _ _ run] by blast+
  obtain r where r: "gv_rooms gs ''room'' = Some r" and p: "gv_players gs ''c1'' = Some \<lparr>pl_ID = ''p1'', pl_RoomID = ''room''\<rparr>"
    using run by (auto simp: evs_def server_defs Let_def)
  have "''p1'' \<in> dom (rm_Players r)" using inv(2) [OF p] r by simp
  with inv(1) [OF r] r show ?thesis unfolding Let_def evs_def [symmetric] run fst_conv by blast
qed

end
