(* ===== verification/Utilities.thy ===== *)
theory Utilities
  imports GoStrings "HOL-Library.Word"
begin

text \<open>
  The helpers of \<open>util/common.go\<close> and \<open>util/file.go\<close>: arguments of the form \<open>key=value\<close>, addresses, random
  bytes, the directory of the executable.  The calls of the system are arguments.
\<close>

section \<open>Arguments\<close>

text \<open>An argument with exactly one \<open>=\<close>.\<close>

definition key_value_of :: "string \<Rightarrow> (string \<times> string) option" where
  "key_value_of arg = (case split_on CHR ''='' arg of [k, v] \<Rightarrow> Some (k, v) | _ \<Rightarrow> None)"

text \<open>\<open>uint32(v)\<close> keeps the lower 32 bits.\<close>

fun ParseArgumentsUint32 :: "string \<Rightarrow> string list \<Rightarrow> 32 word \<times> bool" where
  "ParseArgumentsUint32 name [] = (0, False)"
| "ParseArgumentsUint32 name (arg # args) =
     (case key_value_of arg of
        None \<Rightarrow> ParseArgumentsUint32 name args
      | Some (k, v) \<Rightarrow>
          if k = name then (case atoi v of Inr i \<Rightarrow> (word_of_int i, True) | Inl _ \<Rightarrow> ParseArgumentsUint32 name args)
          else ParseArgumentsUint32 name args)"

fun ParseArgumentsString :: "string \<Rightarrow> string list \<Rightarrow> string \<times> bool" where
  "ParseArgumentsString name [] = ('''', False)"
| "ParseArgumentsString name (arg # args) =
     (case key_value_of arg of
        None \<Rightarrow> ParseArgumentsString name args
      | Some (k, v) \<Rightarrow> if k = name then (v, True) else ParseArgumentsString name args)"

section \<open>Addresses\<close>

definition GetIPFromIPAddress :: "string \<Rightarrow> string" where
  "GetIPFromIPAddress address = (case split_on CHR '':'' address of [ip, port] \<Rightarrow> ip | _ \<Rightarrow> '''')"

text \<open>The error of \<open>Atoi\<close> is dropped: what comes with it is the port.\<close>

definition GetPortFromIPAddress :: "string \<Rightarrow> int" where
  "GetPortFromIPAddress address = (case split_on CHR '':'' address of [ip, port] \<Rightarrow> atoi_value port | _ \<Rightarrow> 0)"

text \<open>\<open>dial\<close>: whether a connection to the address is made within three seconds.\<close>

definition CheckPortUsage :: "(string \<Rightarrow> bool) \<Rightarrow> int \<Rightarrow> bool" where
  "CheckPortUsage dial port = dial (''127.0.0.1:'' @ itoa port)"

section \<open>Memory and identifiers\<close>

text \<open>\<open>alloc\<close> is the field \<open>Alloc\<close> of the statistics the runtime fills in.\<close>

definition CurrentMalloc :: "64 word \<Rightarrow> int" where
  "CurrentMalloc alloc = sint (alloc div 1024)"

text \<open>The library's identifiers: a generator and their text.\<close>

definition GetUUID :: "('g \<Rightarrow> 'u \<times> 'g) \<Rightarrow> ('u \<Rightarrow> string) \<Rightarrow> 'g \<Rightarrow> string \<times> 'g" where
  "GetUUID uuid_New uuid_String g = (let (u, g') = uuid_New g in (uuid_String u, g'))"

text \<open>The conversion to \<open>int64\<close> loses nothing: after the division the top bits are zero.\<close>

lemma CurrentMalloc_exact: "CurrentMalloc alloc = uint alloc div 1024"
proof -
  have u: "uint (alloc div 1024) = uint alloc div 1024"
    by (simp add: uint_div)
  have "uint alloc < 2 ^ 64" using uint_bounded [of alloc] by simp
  then have up: "uint (alloc div 1024) < 2 ^ 63" unfolding u by simp
  have low: "- (2 ^ 63) \<le> uint (alloc div 1024)"
    by (rule order_trans [OF _ uint_ge_0]) simp
  have "sint (alloc div 1024) = signed_take_bit 63 (uint (alloc div 1024))"
    using sint_uint [of "alloc div 1024"] by simp
  also have "\<dots> = uint (alloc div 1024)"
    by (rule signed_take_bit_int_eq_self [OF low up])
  finally show ?thesis unfolding CurrentMalloc_def u .
qed

section \<open>Random bytes\<close>

definition rand_chars :: string where
  "rand_chars = ''./?%abcdefghijklmnopqrstuvwxyzABCDEFGHIJKLMNOPQRSTUVWXYZ1234567890''"

text \<open>\<open>intn n g\<close>: a number below \<open>n\<close> and the generator after it.  \<open>for range length\<close> runs no times below zero.\<close>

fun rand_bytes :: "(nat \<Rightarrow> 'g \<Rightarrow> nat \<times> 'g) \<Rightarrow> nat \<Rightarrow> 'g \<Rightarrow> string \<times> 'g" where
  "rand_bytes intn 0 g = ([], g)"
| "rand_bytes intn (Suc n) g =
     (let (i, g1) = intn (length rand_chars) g; (s, g2) = rand_bytes intn n g1 in (rand_chars ! i # s, g2))"

definition RandByte :: "(nat \<Rightarrow> 'g \<Rightarrow> nat \<times> 'g) \<Rightarrow> int \<Rightarrow> 'g \<Rightarrow> string \<times> 'g" where
  "RandByte intn len g = rand_bytes intn (nat len) g"

section \<open>The directory of the executable\<close>

text \<open>\<open>look\<close> is \<open>exec.LookPath\<close> of the program's name, \<open>abs_path\<close> is \<open>filepath.Abs\<close>.\<close>

definition up_to_last :: "char \<Rightarrow> string \<Rightarrow> string option" where
  "up_to_last c p = (if c \<in> set p then Some (rev (dropWhile (\<lambda>x. x \<noteq> c) (rev p))) else None)"

definition GetCurrentPath :: "string result \<Rightarrow> (string \<Rightarrow> string result) \<Rightarrow> string result" where
  "GetCurrentPath look abs_path =
     (case look of
        Inl err \<Rightarrow> Inl err
      | Inr file \<Rightarrow>
          (case abs_path file of
             Inl err \<Rightarrow> Inl err
           | Inr p \<Rightarrow>
               (case up_to_last CHR ''/'' p of
                  Some d \<Rightarrow> Inr d
                | None \<Rightarrow>
                    (case up_to_last CHR 0x5C p of
                       Some d \<Rightarrow> Inr d
                     | None \<Rightarrow> Inl (Err (''error: Can'' @ [CHR 39] @ ''t find '' @ [CHR 39] @ ''/'' @ [CHR 39] @ '' or '' @
                                   [CHR 39, CHR 92, CHR 39]))))))"

section \<open>Properties\<close>

lemma key_value_of_pair:
  "CHR ''='' \<notin> set k \<Longrightarrow> CHR ''='' \<notin> set v \<Longrightarrow> key_value_of (k @ ''='' @ v) = Some (k, v)"
  by (simp add: key_value_of_def split_on_append)

lemma equals_not_digit: "CHR ''='' \<notin> set (itoa i)"
  by (rule itoa_digits_no) (simp_all add: digit_chars_def)

lemma colon_not_in_number: "CHR '':'' \<notin> set (itoa i)"
  by (rule itoa_digits_no) (simp_all add: digit_chars_def)

text \<open>
  A number below $2^{32}$ given as \<open>name=number\<close> is read back, whatever the other arguments that are not
  for this name; a larger or a negative one is taken modulo $2^{32}$ and reported as found.
\<close>

theorem args_uint32_round_trip:
  assumes "CHR ''='' \<notin> set name" and "in_int64 i"
    and "\<forall>arg\<in>set before. \<forall>v. key_value_of arg \<noteq> Some (name, v)"
  shows "ParseArgumentsUint32 name (before @ (name @ ''='' @ itoa i) # after) = (word_of_int i, True) \<and>
     (0 \<le> i \<and> i < 2 ^ 32 \<longrightarrow> uint (fst (ParseArgumentsUint32 name (before @ (name @ ''='' @ itoa i) # after))) = i)"
proof -
  have "ParseArgumentsUint32 name (before @ rest) = ParseArgumentsUint32 name rest" for rest
    using assms(3) by (induction before) (auto split: option.splits)
  moreover have "ParseArgumentsUint32 name ((name @ ''='' @ itoa i) # after) = (word_of_int i, True)"
    using key_value_of_pair [OF assms(1) equals_not_digit, of i] atoi_itoa [OF assms(2)]
    by (simp del: append_Cons append.simps)
  ultimately have eq: "ParseArgumentsUint32 name (before @ (name @ ''='' @ itoa i) # after) = (word_of_int i, True)"
    by metis
  have "uint (word_of_int i :: 32 word) = i" if "0 \<le> i" "i < 2 ^ 32"
    using that by (simp add: uint_word_of_int take_bit_int_eq_self)
  then show ?thesis unfolding eq by simp
qed

theorem args_uint32_round_trip_witness:
  "ParseArgumentsUint32 ''port'' ([''host=a'', ''port''] @ (''port'' @ ''='' @ itoa 4294967376) # []) = (80, True)"
proof -
  have "ParseArgumentsUint32 ''port'' ([''host=a'', ''port''] @ (''port'' @ ''='' @ itoa 4294967376) # []) = (word_of_int 4294967376, True)"
    by (rule args_uint32_round_trip [THEN conjunct1]) (simp_all add: in_int64_def key_value_of_def)
  also have "word_of_int 4294967376 = (80 :: 32 word)" by simp
  finally show ?thesis .
qed

text \<open>The two parts of an address \<open>ip:port\<close> are read back.\<close>

theorem ip_address_round_trip:
  assumes "CHR '':'' \<notin> set ip" and "in_int64 p"
  shows "GetIPFromIPAddress (ip @ '':'' @ itoa p) = ip \<and> GetPortFromIPAddress (ip @ '':'' @ itoa p) = p"
  using split_on_append [OF assms(1), of "itoa p"] colon_not_in_number [of p] atoi_itoa [OF assms(2)]
  by (simp add: GetIPFromIPAddress_def GetPortFromIPAddress_def atoi_value_def)

theorem ip_address_round_trip_witness:
  "GetIPFromIPAddress (''10.0.0.1'' @ '':'' @ itoa 8080) = ''10.0.0.1'' \<and>
   GetPortFromIPAddress (''10.0.0.1'' @ '':'' @ itoa 8080) = 8080"
  by (rule ip_address_round_trip) (simp_all add: in_int64_def)

text \<open>Random bytes have the length asked for and come from the alphabet.\<close>

lemma rand_bytes_alphabet:
  assumes "\<And>n g. 0 < n \<Longrightarrow> fst (intn n g) < n"
  shows "length (fst (RandByte intn k g)) = nat k \<and> set (fst (RandByte intn k g)) \<subseteq> set rand_chars"
proof -
  have pos: "0 < length rand_chars" by (simp add: rand_chars_def)
  have "length (fst (rand_bytes intn n g)) = n \<and> set (fst (rand_bytes intn n g)) \<subseteq> set rand_chars" for n
  proof (induction n arbitrary: g)
    case (Suc n)
    have "rand_chars ! fst (intn (length rand_chars) g) \<in> set rand_chars"
      using assms [OF pos] by simp
    with Suc show ?case by (simp add: case_prod_beta Let_def)
  qed simp
  then show ?thesis by (simp add: RandByte_def)
qed

end
