(* ===== verification/WatchReplay.thy ===== *)
theory WatchReplay
  imports MemoryRegistry
begin

text \<open>
  What a watcher of the in-memory registry is good for (\<open>registry/memory.go\<close>): a client that replays
  the events it receives on the services it knew when it called \<open>Watch\<close> follows the registry.  The
  calls are taken one after the other; \<open>memory_events_can_invert\<close> of \<open>MemoryRegistry\<close> shows that two
  calls at once can break this.
\<close>

section \<open>Replaying events\<close>

type_synonym view = "string \<times> string \<Rightarrow> service option"

definition ev_key :: "event \<Rightarrow> string \<times> string" where
  "ev_key ev = (svc_name (ev_service ev), svc_id (ev_service ev))"

definition replay_event :: "event \<Rightarrow> view \<Rightarrow> view" where
  "replay_event ev v = v(ev_key ev := (if ev_type ev = Delete then None else Some (ev_service ev)))"

abbreviation replay :: "event list \<Rightarrow> view \<Rightarrow> view" where
  "replay evs \<equiv> fold replay_event evs"

definition cache_view :: "cache \<Rightarrow> view" where
  "cache_view c = (\<lambda>(n, i). cache_lookup c n i)"

definition registry_view :: "mem_registry \<Rightarrow> view" where
  "registry_view r = cache_view (mr_services r)"

definition delete_event :: "time \<Rightarrow> service \<Rightarrow> event" where
  "delete_event now s = \<lparr>ev_type = Delete, ev_service = s, ev_timestamp = now\<rparr>"

lemma ev_key_delete [simp]: "ev_key (delete_event now s) = (svc_name s, svc_id s)"
  by (simp add: ev_key_def delete_event_def)

lemma replay_deletes:
  "replay (map (delete_event now) l) v k = (if k \<in> (\<lambda>s. (svc_name s, svc_id s)) ` set l then None else v k)"
  by (induction l arbitrary: v) (auto simp: replay_event_def, auto simp: delete_event_def)

section \<open>The events of an operation\<close>

fun op_events :: "mem_op \<Rightarrow> mem_registry \<Rightarrow> event list" where
  "op_events (OpRegister ws t t' s) r = [fst (snd (memory_register_locked t t' s r))]"
| "op_events (OpDeregister ws t s) r =
     (case fst (memory_deregister_locked t s r) of Some ev \<Rightarrow> [ev] | None \<Rightarrow> [])"
| "op_events (OpCleanup (Tick now) ks ws) r =
     (if mr_running r then snd (fold (cleanup_name now) ks (mr_services r, [])) else [])"
| "op_events a r = []"

text \<open>One name of the cleanup announces exactly what it takes away.\<close>

lemma cleanup_name_view:
  assumes "cache_ok c" and "cleanup_name now name (c, evs) = (c', evs')"
  shows "cache_ok c' \<and> (\<exists>new. evs' = evs @ new \<and> replay new (cache_view c) = cache_view c')"
proof -
  let ?expired = "filter (\<lambda>s. \<not> alive now s) (cached c name)"
  have evs': "evs' = evs @ map (delete_event now) ?expired"
    using assms(2) by (auto simp: cleanup_name_def Let_def delete_event_def)
  have c': "cached c' m = (if m = name then filter (alive now) (cached c name) else cached c m)" for m
    using cached_cleanup_name [of now name c evs m] assms(2) by simp
  have ids: "distinct (map svc_id (cached c name))" and names: "\<forall>s\<in>set (cached c name). svc_name s = name"
    using assms(1) by (simp_all add: cache_ok_def)
  define K where "K = (\<lambda>s. (svc_name s, svc_id s)) ` set ?expired"
  have K: "replay (map (delete_event now) ?expired) v k = (if k \<in> K then None else v k)" for v k
    unfolding K_def by (rule replay_deletes)
  have gone: "(name, i) \<in> K \<longleftrightarrow> (\<exists>s. find_key svc_id i (cached c name) = Some s \<and> \<not> alive now s)" for i
    unfolding K_def
  proof
    assume "(name, i) \<in> (\<lambda>s. (svc_name s, svc_id s)) ` set ?expired"
    then obtain s where "s \<in> set (cached c name)" "\<not> alive now s" "i = svc_id s" by auto
    then show "\<exists>s. find_key svc_id i (cached c name) = Some s \<and> \<not> alive now s"
      using find_key_in [OF ids] by auto
  qed (use names in \<open>auto dest!: find_key_SomeD intro: rev_image_eqI\<close>)
  have "replay (map (delete_event now) ?expired) (cache_view c) (m, i) = cache_view c' (m, i)" for m i
  proof (cases "m = name")
    case True
    then show ?thesis
      by (auto simp: K gone cache_view_def cache_lookup_def c' find_key_filter [OF ids] split: option.splits)
  next
    case False
    then have "(m, i) \<notin> K" using names by (auto simp: K_def)
    with False show ?thesis by (simp add: K cache_view_def cache_lookup_def c')
  qed
  then have "replay (map (delete_event now) ?expired) (cache_view c) = cache_view c'" by (intro ext) auto
  moreover have "cache_ok c'"
    by (rule cache_ok_filter [OF assms(1), of c' "alive now"]) (simp add: c')
  ultimately show ?thesis using evs' by blast
qed

lemma cleanup_view:
  "cache_ok c \<Longrightarrow> fold (cleanup_name now) ks (c, evs) = (c', evs') \<Longrightarrow>
     \<exists>new. evs' = evs @ new \<and> replay new (cache_view c) = cache_view c'"
proof (induction ks arbitrary: c evs)
  case (Cons k ks)
  obtain c1 evs1 where one: "cleanup_name now k (c, evs) = (c1, evs1)" by (cases "cleanup_name now k (c, evs)")
  from cleanup_name_view [OF Cons.prems(1) one] obtain new1
    where "cache_ok c1" and evs1: "evs1 = evs @ new1" "replay new1 (cache_view c) = cache_view c1" by auto
  moreover from Cons.prems(2) one have "fold (cleanup_name now) ks (c1, evs1) = (c', evs')" by simp
  ultimately obtain new2 where "evs' = evs1 @ new2" "replay new2 (cache_view c1) = cache_view c'"
    using Cons.IH by blast
  with evs1 show ?case by (intro exI [of _ "new1 @ new2"]) simp
qed simp

text \<open>The events of an operation, replayed, are the change it makes.\<close>

lemma register_view:
  "registry_view (snd (memory_Register ws t t' s r)) =
     replay_event (fst (snd (memory_register_locked t t' s r))) (registry_view r)"
  by (auto simp: registry_view_def cache_view_def cache_lookup_put replay_event_def ev_key_def
      memory_register_locked_def Let_def)

lemma deregister_view:
  assumes "cache_ok (mr_services r)"
  shows "registry_view (memory_Deregister ws t s r) = replay (op_events (OpDeregister ws t s) r) (registry_view r)"
  using assms cache_has_lookup [of "mr_services r" s]
  by (auto simp: registry_view_def cache_view_def cache_lookup_remove replay_event_def ev_key_def
      memory_deregister_locked_def)

lemma fold_notify_services [simp]: "mr_services (fold (memory_notify ws) evs r) = mr_services r"
  by (induction evs arbitrary: r) auto

lemma memory_cleanup_view:
  assumes "cache_ok (mr_services r)"
  shows "registry_view (memory_cleanup wake ks ws r) = replay (op_events (OpCleanup wake ks ws) r) (registry_view r)"
proof (cases wake)
  case (Tick now)
  obtain c evs where f: "fold (cleanup_name now) ks (mr_services r, []) = (c, evs)"
    by (cases "fold (cleanup_name now) ks (mr_services r, [])")
  from cleanup_view [OF assms f] show ?thesis
    by (simp add: memory_cleanup_def Tick f registry_view_def)
qed (simp add: memory_cleanup_def registry_view_def)

section \<open>The buffer of a watcher of all services\<close>

definition received :: "nat \<Rightarrow> mem_registry \<Rightarrow> event list \<Rightarrow> bool" where
  "received w r evs \<longleftrightarrow> w \<in> mr_registered r \<and>
     (\<exists>mw. mr_heap r w = Some mw \<and> mw_service mw = [] \<and> chan_buf (mw_events mw) = evs \<and>
           chan_cap (mw_events mw) = memoryWatcherBufferSize)"

lemma receivedE:
  assumes "received w r evs"
  obtains mw where "w \<in> mr_registered r" "mr_heap r w = Some mw" "mw_service mw = []"
    "chan_buf (mw_events mw) = evs" "chan_cap (mw_events mw) = memoryWatcherBufferSize"
  using assms by (auto simp: received_def)

lemma received_notify:
  assumes "received w r evs" and "distinct ws" and "set ws = mr_registered r"
    and "length evs < memoryWatcherBufferSize"
  shows "received w (memory_notify ws ev r) (evs @ [ev])"
proof -
  obtain mw where mw: "w \<in> mr_registered r" "mr_heap r w = Some mw" "mw_service mw = []"
    "chan_buf (mw_events mw) = evs" "chan_cap (mw_events mw) = memoryWatcherBufferSize"
    using assms(1) by (rule receivedE)
  then have "mr_heap (memory_notify ws ev r) w = Some (mw\<lparr>mw_events := chan_offer ev (mw_events mw)\<rparr>)"
    using assms(2,3) by (simp add: memory_notify_eq watches_def)
  then show ?thesis using mw assms(4) by (simp add: received_def chan_offer_buf)
qed

lemma received_notifies:
  "received w r evs \<Longrightarrow> distinct ws \<Longrightarrow> set ws = mr_registered r \<Longrightarrow>
     length evs + length new \<le> memoryWatcherBufferSize \<Longrightarrow>
     received w (fold (memory_notify ws) new r) (evs @ new)"
proof (induction new arbitrary: r evs)
  case (Cons ev new)
  then have "received w (memory_notify ws ev r) (evs @ [ev])" by (intro received_notify) simp_all
  from Cons.IH [OF this] Cons.prems show ?case by simp
qed simp

lemma received_services [simp]: "received w (r\<lparr>mr_services := c\<rparr>) evs = received w r evs"
  by (simp add: received_def)

text \<open>
  The calls a client that follows the registry may see: the loops over the watchers visit each of them
  once, the registry is not closed and the client does not stop its watcher.
\<close>

fun orderly :: "nat \<Rightarrow> mem_op \<Rightarrow> mem_registry \<Rightarrow> bool" where
  "orderly w (OpRegister ws t t' s) r = (distinct ws \<and> set ws = mr_registered r)"
| "orderly w (OpDeregister ws t s) r = (distinct ws \<and> set ws = mr_registered r)"
| "orderly w (OpCleanup wake ks ws) r = (distinct ws \<and> set ws = mr_registered r)"
| "orderly w (OpClose ws) r = False"
| "orderly w (OpStop v) r = (v \<noteq> w)"
| "orderly w a r = True"

definition reads :: "nat \<Rightarrow> mem_op \<Rightarrow> bool" where
  "reads w a = (case a of OpNext v \<Rightarrow> v = w | _ \<Rightarrow> False)"

lemma exec_received:
  assumes "mem_ok r" and rec: "received w r evs" and "orderly w a r" and "\<not> reads w a"
    and fit: "length evs + length (op_events a r) \<le> memoryWatcherBufferSize"
  shows "received w (mem_exec a r) (evs @ op_events a r)"
proof (cases a)
  case (OpRegister ws t t' s)
  then show ?thesis
    using received_notify [OF rec, of ws] assms(3) fit
      received_notify [of w "r\<lparr>mr_services := cache_put (stamped t s) (mr_services r)\<rparr>" evs ws] rec
    by (simp add: memory_Register_def memory_register_locked_def Let_def)
next
  case (OpDeregister ws t s)
  then show ?thesis
    using assms(3) fit rec received_notify [of w "r\<lparr>mr_services := cache_remove s (mr_services r)\<rparr>" evs ws]
    by (simp add: memory_Deregister_def memory_deregister_locked_def split: if_splits)
next
  case (OpCleanup wake ks ws)
  show ?thesis
  proof (cases wake)
    case (Tick now)
    obtain c new where f: "fold (cleanup_name now) ks (mr_services r, []) = (c, new)"
      by (cases "fold (cleanup_name now) ks (mr_services r, [])")
    show ?thesis
      using assms(3) fit rec received_notifies [of w "r\<lparr>mr_services := c\<rparr>" evs ws new]
      by (auto simp: OpCleanup Tick memory_cleanup_def f received_def)
  qed (use rec OpCleanup in \<open>simp add: memory_cleanup_def received_def\<close>)
next
  case OpWatch
  with rec assms(1) have "w \<le> mr_nextID r" by (auto simp: mem_ok_def elim!: receivedE)
  with rec OpWatch show ?thesis by (auto simp: received_def memory_Watch_def Let_def)
next
  case (OpStop v)
  with rec assms(3) show ?thesis by (simp add: received_def memory_Stop_def close_done_def)
next
  case (OpNext v)
  with assms(4) have "v \<noteq> w" by (simp add: reads_def)
  with rec OpNext show ?thesis
    by (auto simp: received_def memory_Next_def split: option.splits list.splits)
qed (use rec assms(3) in \<open>auto simp: received_def memory_Init_def memory_Connect_def\<close>)

lemma exec_view:
  assumes "mem_ok r" and "orderly w a r"
  shows "registry_view (mem_exec a r) = replay (op_events a r) (registry_view r)"
proof (cases a)
  case (OpRegister ws t t' s)
  then show ?thesis by (simp add: register_view)
next
  case (OpDeregister ws t s)
  then show ?thesis using deregister_view [OF mem_ok_cache [OF assms(1)]] by simp
next
  case (OpCleanup wake ks ws)
  then show ?thesis using memory_cleanup_view [OF mem_ok_cache [OF assms(1)]] by simp
next
  case (OpNext v)
  then show ?thesis by (auto simp: registry_view_def memory_Next_def split: option.splits list.splits)
qed (use assms(2) in \<open>simp_all add: registry_view_def memory_Init_def memory_Connect_def memory_Watch_def
       memory_Stop_def Let_def\<close>)

section \<open>A client that follows the registry\<close>

text \<open>The client's own calls of \<open>Next\<close> collect events; every other call is somebody else's.\<close>

definition next_event :: "nat \<Rightarrow> mem_registry \<Rightarrow> event list" where
  "next_event w r = (case memory_Next w r of (Inr ev, r') # outs \<Rightarrow> [ev] | _ \<Rightarrow> [])"

definition client_step :: "nat \<Rightarrow> mem_op \<Rightarrow> mem_registry \<times> event list \<Rightarrow> mem_registry \<times> event list" where
  "client_step w a st =
     (case st of (r, got) \<Rightarrow> (mem_exec a r, if reads w a then got @ next_event w r else got))"

definition outstanding :: "nat \<Rightarrow> mem_registry \<Rightarrow> event list" where
  "outstanding w r = (case mr_heap r w of Some mw \<Rightarrow> chan_buf (mw_events mw) | None \<Rightarrow> [])"

fun keeps_up :: "nat \<Rightarrow> mem_op list \<Rightarrow> mem_registry \<Rightarrow> bool" where
  "keeps_up w [] r = True"
| "keeps_up w (a # as) r =
     (orderly w a r \<and> length (outstanding w r) + length (op_events a r) \<le> memoryWatcherBufferSize \<and>
      keeps_up w as (mem_exec a r))"

lemma outstanding_received: "received w r evs \<Longrightarrow> outstanding w r = evs"
  by (auto simp: outstanding_def elim: receivedE)

definition follows :: "nat \<Rightarrow> view \<Rightarrow> mem_registry \<times> event list \<Rightarrow> bool" where
  "follows w v st = (case st of (r, got) \<Rightarrow> mem_ok r \<and>
     (\<exists>evs. received w r evs \<and> replay (got @ evs) v = registry_view r))"

lemma read_received:
  assumes "mem_ok r" and "received w r evs"
  shows "\<exists>rest. received w (mem_exec (OpNext w) r) rest \<and> next_event w r @ rest = evs"
proof -
  obtain mw where mw: "w \<in> mr_registered r" "mr_heap r w = Some mw" "mw_service mw = []"
    "chan_buf (mw_events mw) = evs" "chan_cap (mw_events mw) = memoryWatcherBufferSize"
    using assms(2) by (rule receivedE)
  then have "\<not> mw_done mw" using assms(1) by (auto simp: mem_ok_def)
  with mw show ?thesis
    by (cases evs) (auto simp: next_event_def memory_Next_def chan_recv_def received_def)
qed

lemma follows_step:
  assumes "follows w v (r, got)" and "orderly w a r"
    and "length (outstanding w r) + length (op_events a r) \<le> memoryWatcherBufferSize"
  shows "follows w v (client_step w a (r, got))"
proof -
  obtain evs where ok: "mem_ok r" and rec: "received w r evs" and v: "replay (got @ evs) v = registry_view r"
    using assms(1) by (auto simp: follows_def)
  note view = exec_view [OF ok assms(2)]
  show ?thesis
  proof (cases "reads w a")
    case True
    then have a: "a = OpNext w" by (auto simp: reads_def split: mem_op.splits)
    obtain rest where "received w (mem_exec a r) rest" "next_event w r @ rest = evs"
      using read_received [OF ok rec] a by auto
    moreover from this v view a have "replay ((got @ next_event w r) @ rest) v = registry_view (mem_exec a r)"
      by auto
    ultimately show ?thesis using True mem_ok_exec [OF ok, of a] unfolding follows_def client_step_def by auto
  next
    case False
    have "received w (mem_exec a r) (evs @ op_events a r)"
      by (rule exec_received [OF ok rec assms(2) False]) (use assms(3) outstanding_received [OF rec] in simp)
    moreover have "replay (got @ evs @ op_events a r) v = registry_view (mem_exec a r)"
      using v view by simp
    ultimately show ?thesis using False mem_ok_exec [OF ok, of a] by (auto simp: follows_def client_step_def)
  qed
qed

lemma follows_run:
  "follows w v (r, got) \<Longrightarrow> keeps_up w as r \<Longrightarrow> follows w v (fold (client_step w) as (r, got))"
proof (induction as arbitrary: r got)
  case (Cons a as)
  then have "follows w v (client_step w a (r, got))" by (intro follows_step) simp_all
  moreover have "client_step w a (r, got) = (mem_exec a r, snd (client_step w a (r, got)))"
    by (simp add: client_step_def)
  ultimately show ?case using Cons.IH Cons.prems(2) by (metis fold_simps(2) keeps_up.simps(2))
qed simp

lemma follows_Watch:
  assumes "mem_ok r" and "wo_service (ro_watcher_option (mr_opts r)) = []" and "memory_Watch r = (w, r')"
  shows "follows w (registry_view r) (r', [])"
proof -
  have r': "r' = snd (memory_Watch r)" using assms(3) by simp
  have "mem_ok r'" unfolding r' by (rule mem_ok_Watch [OF assms(1)])
  moreover have "received w r' []" "registry_view r' = registry_view r"
    using assms(2,3) by (auto simp: memory_Watch_def Let_def received_def registry_view_def)
  ultimately show ?thesis by (auto simp: follows_def)
qed

text \<open>
  C3: A watcher of all services that keeps up is a faithful copy of the registry, as long as the calls come
  one after the other, the registry is not closed and the watcher itself is not stopped: after any such
  run of registrations, deregistrations, cleanup rounds, other watchers' calls and its own \<open>Next\<close> that
  follows its \<open>Watch\<close>, in which each operation's events fit in the free slots of its buffer and each loop
  over the watchers visits every one of them once, the events it has taken with \<open>Next\<close> and those still in
  its buffer, replayed in this order on the services that were there at \<open>Watch\<close>, give exactly the services
  that are there now; so when its buffer is empty, the client knows the registry.  Without the conditions it
  fails: overlapping calls can deliver a service's events in the opposite order
  (\<open>memory_events_can_invert\<close>), and \<open>Close\<close> drops the services without an event.
\<close>

theorem memory_watch_replays_registry:
  assumes "mem_ok r" and "wo_service (ro_watcher_option (mr_opts r)) = []"
    and "memory_Watch r = (w, r')" and "keeps_up w as r'"
    and "fold (client_step w) as (r', []) = (r'', got)"
  shows "replay (got @ outstanding w r'') (registry_view r) (n, i) = memory_lookup r'' n i"
proof -
  have "follows w (registry_view r) (r'', got)"
    using follows_run [OF follows_Watch [OF assms(1-3)] assms(4)] assms(5) by simp
  then have "replay (got @ outstanding w r'') (registry_view r) = registry_view r''"
    by (auto simp: follows_def outstanding_received)
  then show ?thesis by (simp add: registry_view_def cache_view_def memory_lookup_def)
qed

text \<open>A service is registered, read by the client, and expires.\<close>

definition demo_calls :: "mem_op list" where
  "demo_calls = [OpRegister [1] 5 5 (demo_service ''a'' ''1'' 10), OpNext 1,
     OpRegister [1] 6 6 (demo_service ''b'' ''1'' 0), OpCleanup (Tick 20) [''a'', ''b''] [1]]"

theorem memory_watch_replays_registry_witness:
  "let r = memory_Connect (newMemoryRegistry []); (w, r') = memory_Watch r;
       (r'', got) = fold (client_step w) demo_calls (r', [])
   in length got = 1 \<and> length (outstanding w r'') = 2 \<and>
      replay (got @ outstanding w r'') (registry_view r) (''a'', ''1'') = memory_lookup r'' ''a'' ''1'' \<and>
      memory_lookup r'' ''a'' ''1'' = None \<and> memory_lookup r'' ''b'' ''1'' \<noteq> None"
proof -
  let ?r = "memory_Connect (newMemoryRegistry [])"

  obtain w r' where W: "memory_Watch ?r = (w, r')" by (cases "memory_Watch ?r")
  then have w: "w = 1" and r': "r' = snd (memory_Watch ?r)"
    by (auto simp: memory_Watch_def Let_def memory_Connect_def newMemoryRegistry_def)
  obtain r'' got where run_eq: "fold (client_step w) demo_calls (r', []) = (r'', got)"
    by (cases "fold (client_step w) demo_calls (r', [])")
  have "keeps_up w demo_calls r'" unfolding w r' by code_simp
  moreover have "length got = 1 \<and> length (outstanding w r'') = 2 \<and>
      memory_lookup r'' ''a'' ''1'' = None \<and> memory_lookup r'' ''b'' ''1'' \<noteq> None"
  proof -
    have "(case fold (client_step 1) demo_calls (snd (memory_Watch ?r), []) of (r'', got) \<Rightarrow>
        length got = 1 \<and> length (outstanding 1 r'') = 2 \<and>
        memory_lookup r'' ''a'' ''1'' = None \<and> memory_lookup r'' ''b'' ''1'' \<noteq> None)" by code_simp
    then show ?thesis using run_eq unfolding w r' by simp
  qed
  moreover have "wo_service (ro_watcher_option (mr_opts ?r)) = []"
    by (simp add: memory_Connect_def newMemoryRegistry_def reg_apply_all_def reg_DefaultOptions_def)
  ultimately show ?thesis
    using memory_watch_replays_registry [OF mem_ok_Connect [OF mem_ok_new] _ W _ run_eq, of "''a''" "''1''"]
    unfolding Let_def W prod.case run_eq by blast
qed

end
