(* ===== verification/WsConnection.thy ===== *)
theory WsConnection
  imports GoStrings
begin

text \<open>
  One WebSocket connection (\<open>transport/ws/connection.go\<close>, \<open>options.go\<close>, \<open>errors.go\<close>): its two
  outbound queues, the writer that drains them, the pings and the reader.  The socket is the list
  of the frames written to it; \<open>werr\<close> says which write fails, given the frames written before it.
  The prepared messages \<open>'p\<close> and the codec belong to other packages.  The functions here run
  without interference; the interleavings of the writers are in \<open>WsWriter\<close>.
\<close>

section \<open>Options\<close>

record ws_options =
  wo_ID :: string
  wo_Name :: string
  wo_Version :: string
  wo_Address :: string
  wo_Path :: string
  wo_ReadTimeout :: duration
  wo_WriteTimeout :: duration
  wo_PingInterval :: duration
  wo_PongTimeout :: duration
  wo_MaxMessageSize :: int
  wo_ReadBufferSize :: int
  wo_WriteBufferSize :: int
  wo_MaxConnections :: int
  wo_SendQueueSize :: int
  wo_BroadcastQueueSize :: int
  wo_EnableCompression :: bool
  wo_CheckOrigin :: "(string \<Rightarrow> bool) option"
  wo_Subprotocols :: "string list"
  wo_Metadata :: "string \<Rightarrow> string option"

text \<open>\<open>uuid\<close> is the identifier the uuid package generates.\<close>

definition ws_DefaultOptions :: "string \<Rightarrow> ws_options" where
  "ws_DefaultOptions uuid =
     \<lparr>wo_ID = take 8 uuid, wo_Name = ''ws-service'', wo_Version = [], wo_Address = '':8080'',
      wo_Path = ''/ws'', wo_ReadTimeout = 60 * second, wo_WriteTimeout = 10 * second,
      wo_PingInterval = 30 * second, wo_PongTimeout = 10 * second, wo_MaxMessageSize = 512 * 1024,
      wo_ReadBufferSize = 1024, wo_WriteBufferSize = 1024, wo_MaxConnections = 0,
      wo_SendQueueSize = 64, wo_BroadcastQueueSize = 32, wo_EnableCompression = False,
      wo_CheckOrigin = None, wo_Subprotocols = [], wo_Metadata = (\<lambda>_. None)\<rparr>"

datatype ws_option =
    WsWithName string | WsWithAddress string | WsWithPath string | WsWithTimeout duration duration
  | WsWithPing duration duration | WsWithMaxMessageSize int | WsWithBufferSize int int
  | WsWithConnectionLimits int int int | WsWithCompression bool | WsWithCheckOrigin "string \<Rightarrow> bool"
  | WsWithSubprotocols "string list" | WsWithMetadata "string \<Rightarrow> string option"

fun apply_ws_option :: "ws_option \<Rightarrow> ws_options \<Rightarrow> ws_options" where
  "apply_ws_option (WsWithName n) oo = oo\<lparr>wo_Name := n\<rparr>"
| "apply_ws_option (WsWithAddress a) oo = oo\<lparr>wo_Address := a\<rparr>"
| "apply_ws_option (WsWithPath p) oo = oo\<lparr>wo_Path := p\<rparr>"
| "apply_ws_option (WsWithTimeout r w) oo = oo\<lparr>wo_ReadTimeout := r, wo_WriteTimeout := w\<rparr>"
| "apply_ws_option (WsWithPing i t) oo = oo\<lparr>wo_PingInterval := i, wo_PongTimeout := t\<rparr>"
| "apply_ws_option (WsWithMaxMessageSize n) oo = oo\<lparr>wo_MaxMessageSize := n\<rparr>"
| "apply_ws_option (WsWithBufferSize r w) oo = oo\<lparr>wo_ReadBufferSize := r, wo_WriteBufferSize := w\<rparr>"
| "apply_ws_option (WsWithConnectionLimits m s b) oo =
     oo\<lparr>wo_MaxConnections := m, wo_SendQueueSize := s, wo_BroadcastQueueSize := b\<rparr>"
| "apply_ws_option (WsWithCompression e) oo = oo\<lparr>wo_EnableCompression := e\<rparr>"
| "apply_ws_option (WsWithCheckOrigin f) oo = oo\<lparr>wo_CheckOrigin := Some f\<rparr>"
| "apply_ws_option (WsWithSubprotocols ps) oo = oo\<lparr>wo_Subprotocols := ps\<rparr>"
| "apply_ws_option (WsWithMetadata md) oo = oo\<lparr>wo_Metadata := md\<rparr>"

abbreviation ErrConnectionClosed :: go_error where "ErrConnectionClosed \<equiv> Err ''connection is closed''"
abbreviation ErrBufferFull :: go_error where "ErrBufferFull \<equiv> Err ''send buffer is full''"

definition defaultSendQueueSize :: int where "defaultSendQueueSize = 64"
definition defaultBroadcastQueueSize :: int where "defaultBroadcastQueueSize = 32"
definition defaultBroadcastBatchSize :: nat where "defaultBroadcastBatchSize = 32"
definition defaultDirectDrainBurst :: nat where "defaultDirectDrainBurst = 4"
definition defaultDirectSendPriority :: nat where "defaultDirectSendPriority = 1"
definition broadcastPreemptEvery :: nat where "broadcastPreemptEvery = 8"

section \<open>Messages and connections\<close>

abbreviation BinaryMessage :: int where "BinaryMessage \<equiv> 2"
abbreviation PingMessage :: int where "PingMessage \<equiv> 9"

record 'p outboundMessage =
  om_data :: string
  om_prepared :: "'p option"
  om_messageType :: int

datatype 'p frame = Prepared 'p | Frame int string

text \<open>
  \<open>cn_closed\<close> is also the state of \<open>once\<close>: only \<open>Close\<close> sets either.  \<open>cn_socket\<close> is \<open>False\<close> once
  \<open>Conn.Close\<close> was called.
\<close>

record 'p connection =
  cn_ID :: string
  cn_Metadata :: "(string \<Rightarrow> string option) option"
  cn_send :: "'p outboundMessage chan"
  cn_broadcast :: "'p outboundMessage chan option"
  cn_broadcastCap :: int
  cn_closed :: bool
  cn_writerRunning :: bool
  cn_nextPingAt :: time
  cn_remoteAddr :: string
  cn_requestURI :: string
  cn_rawQuery :: string
  cn_readDeadline :: time
  cn_socket :: bool
  cn_wire :: "'p frame list"

definition newConnection :: "string \<Rightarrow> ws_options option \<Rightarrow> 'p connection" where
  "newConnection i server_opts =
     (let sendQueueSize = (case server_opts of
            Some oo \<Rightarrow> if wo_SendQueueSize oo > 0 then wo_SendQueueSize oo else defaultSendQueueSize
          | None \<Rightarrow> defaultSendQueueSize);
          broadcastQueueSize = (case server_opts of
            Some oo \<Rightarrow> if wo_BroadcastQueueSize oo > 0 then wo_BroadcastQueueSize oo else defaultBroadcastQueueSize
          | None \<Rightarrow> defaultBroadcastQueueSize)
      in \<lparr>cn_ID = i, cn_Metadata = None, cn_send = chan_make (nat sendQueueSize), cn_broadcast = None,
          cn_broadcastCap = broadcastQueueSize, cn_closed = False, cn_writerRunning = False,
          cn_nextPingAt = 0, cn_remoteAddr = [], cn_requestURI = [], cn_rawQuery = [],
          cn_readDeadline = 0, cn_socket = True, cn_wire = []\<rparr>)"

definition conn_IsClosed :: "'p connection \<Rightarrow> bool" where
  "conn_IsClosed c = cn_closed c"

definition conn_RemoteAddr :: "'p connection \<Rightarrow> string" where
  "conn_RemoteAddr c = cn_remoteAddr c"

definition conn_Query :: "'p connection \<Rightarrow> string" where
  "conn_Query c = cn_rawQuery c"

definition conn_GetMeta :: "string \<Rightarrow> 'p connection \<Rightarrow> string" where
  "conn_GetMeta key c =
     (if key = ''RemoteAddr'' then cn_remoteAddr c
      else if key = ''RequestURI'' then cn_requestURI c
      else if key = ''RawQuery'' then cn_rawQuery c
      else (case cn_Metadata c of
          None \<Rightarrow> []
        | Some md \<Rightarrow> (case md key of Some v \<Rightarrow> v | None \<Rightarrow> [])))"

definition conn_SetMeta :: "string \<Rightarrow> string \<Rightarrow> 'p connection \<Rightarrow> 'p connection" where
  "conn_SetMeta key v c =
     (let md = (case cn_Metadata c of None \<Rightarrow> (\<lambda>_. None) | Some md \<Rightarrow> md)
      in c\<lparr>cn_Metadata := Some (md(key \<mapsto> v))\<rparr>)"

section \<open>Sending\<close>

text \<open>\<open>ensureWriter\<close>; the flag says that a new goroutine runs \<open>writePump\<close>.\<close>

definition ensureWriter :: "'p connection \<Rightarrow> bool \<times> 'p connection" where
  "ensureWriter c =
     (if cn_closed c then (False, c)
      else if cn_writerRunning c then (False, c)
      else (True, c\<lparr>cn_writerRunning := True\<rparr>))"

type_synonym 'p send_result = "go_error option \<times> bool \<times> 'p connection"

definition conn_SendRaw :: "string \<Rightarrow> 'p connection \<Rightarrow> 'p send_result" where
  "conn_SendRaw data c =
     (if cn_closed c then (Some ErrConnectionClosed, False, c)
      else (case chan_trysend \<lparr>om_data = data, om_prepared = None, om_messageType = BinaryMessage\<rparr> (cn_send c) of
          Some ch \<Rightarrow> (let (spawn, c') = ensureWriter (c\<lparr>cn_send := ch\<rparr>) in (None, spawn, c'))
        | None \<Rightarrow> (Some ErrBufferFull, False, c)))"

text \<open>The dynamic type switch of \<open>Send\<close> and \<open>preparePayload\<close>.\<close>

datatype 'u ws_data = DBytes string | DString string | DOther 'u

definition ws_payload :: "('u \<Rightarrow> string result) \<Rightarrow> 'u ws_data \<Rightarrow> string result" where
  "ws_payload marshal data =
     (case data of DBytes b \<Rightarrow> Inr b | DString s \<Rightarrow> Inr s | DOther v \<Rightarrow> marshal v)"

definition conn_Send :: "('u \<Rightarrow> string result) \<Rightarrow> 'u ws_data \<Rightarrow> 'p connection \<Rightarrow> 'p send_result" where
  "conn_Send marshal data c =
     (if cn_closed c then (Some ErrConnectionClosed, False, c)
      else (case ws_payload marshal data of
          Inl err \<Rightarrow> (Some err, False, c)
        | Inr msg \<Rightarrow>
            (case chan_trysend \<lparr>om_data = msg, om_prepared = None, om_messageType = BinaryMessage\<rparr> (cn_send c) of
               Some ch \<Rightarrow> (let (spawn, c') = ensureWriter (c\<lparr>cn_send := ch\<rparr>) in (None, spawn, c'))
             | None \<Rightarrow> (Some ErrBufferFull, False, c))))"

definition ensureBroadcastQueue :: "'p connection \<Rightarrow> 'p connection" where
  "ensureBroadcastQueue c =
     (case cn_broadcast c of
        Some ch \<Rightarrow> c
      | None \<Rightarrow>
          (let size = (if cn_broadcastCap c \<le> 0 then defaultBroadcastQueueSize else cn_broadcastCap c)
           in c\<lparr>cn_broadcast := Some (chan_make (nat size))\<rparr>))"

definition conn_enqueueBroadcast :: "'p outboundMessage \<Rightarrow> bool \<Rightarrow> 'p connection \<Rightarrow> 'p send_result" where
  "conn_enqueueBroadcast message startWriter c =
     (if cn_closed c then (Some ErrConnectionClosed, False, c)
      else (let c1 = ensureBroadcastQueue c
            in case chan_trysend message (the (cn_broadcast c1)) of
                 Some ch \<Rightarrow>
                   (let c2 = c1\<lparr>cn_broadcast := Some ch\<rparr>
                    in if startWriter then (let (spawn, c3) = ensureWriter c2 in (None, spawn, c3))
                       else (None, False, c2))
               | None \<Rightarrow> (Some ErrBufferFull, False, c1)))"

definition conn_SendPrepared :: "'p \<Rightarrow> 'p connection \<Rightarrow> 'p send_result" where
  "conn_SendPrepared p c =
     conn_enqueueBroadcast \<lparr>om_data = [], om_prepared = Some p, om_messageType = 0\<rparr> True c"

text \<open>\<open>Close\<close>, without the server's \<open>removeConnection\<close>.\<close>

definition conn_Close :: "'p connection \<Rightarrow> 'p connection" where
  "conn_Close c = (if cn_closed c then c else c\<lparr>cn_closed := True, cn_socket := False\<rparr>)"

section \<open>The writer\<close>

definition frame_of :: "'p outboundMessage \<Rightarrow> 'p frame" where
  "frame_of m =
     (case om_prepared m of
        Some p \<Rightarrow> Prepared p
      | None \<Rightarrow> if om_messageType m = PingMessage then Frame PingMessage [] else Frame BinaryMessage (om_data m))"

type_synonym 'p write_errors = "'p frame list \<Rightarrow> 'p frame \<Rightarrow> go_error option"

definition writeOutbound :: "'p write_errors \<Rightarrow> 'p outboundMessage \<Rightarrow> 'p connection \<Rightarrow> go_error option \<times> 'p connection" where
  "writeOutbound werr m c =
     (case werr (cn_wire c) (frame_of m) of
        Some err \<Rightarrow> (Some err, c)
      | None \<Rightarrow> (None, c\<lparr>cn_wire := cn_wire c @ [frame_of m]\<rparr>))"

text \<open>Nothing closes the queues, so a receive from one never reports a closed channel.\<close>

fun tryWriteDirectBurst :: "'p write_errors \<Rightarrow> nat \<Rightarrow> bool \<Rightarrow> 'p connection \<Rightarrow> (bool \<times> go_error option) \<times> 'p connection" where
  "tryWriteDirectBurst werr 0 wrote c = ((wrote, None), c)"
| "tryWriteDirectBurst werr (Suc n) wrote c =
     (case chan_recv (cn_send c) of
        None \<Rightarrow> ((wrote, None), c)
      | Some (message, ch) \<Rightarrow>
          (case writeOutbound werr message (c\<lparr>cn_send := ch\<rparr>) of
             (Some err, c') \<Rightarrow> ((False, Some err), c')
           | (None, c') \<Rightarrow> tryWriteDirectBurst werr n True c'))"

text \<open>Receiving from the broadcast queue when there is one and it holds a message.\<close>

definition recv_broadcast :: "'p connection \<Rightarrow> ('p outboundMessage \<times> 'p connection) option" where
  "recv_broadcast c =
     (case cn_broadcast c of
        None \<Rightarrow> None
      | Some bc \<Rightarrow> (case chan_recv bc of None \<Rightarrow> None | Some (m, ch) \<Rightarrow> Some (m, c\<lparr>cn_broadcast := Some ch\<rparr>)))"

text \<open>The loop of \<open>writeBroadcastBatch\<close> at index \<open>i\<close>, \<open>n\<close> rounds before its end.\<close>

fun broadcast_loop :: "'p write_errors \<Rightarrow> nat \<Rightarrow> nat \<Rightarrow> 'p connection \<Rightarrow> go_error option \<times> 'p connection" where
  "broadcast_loop werr 0 i c =
     (let ((_, err), c') = tryWriteDirectBurst werr defaultDirectDrainBurst False c in (err, c'))"
| "broadcast_loop werr (Suc n) i c =
     (let ((_, err), c1) = (if i mod broadcastPreemptEvery = 0
                            then tryWriteDirectBurst werr defaultDirectDrainBurst False c
                            else ((False, None), c))
      in case err of
           Some e \<Rightarrow> (Some e, c1)
         | None \<Rightarrow>
             (case recv_broadcast c1 of
                None \<Rightarrow>
                  (let ((_, err), c2) = tryWriteDirectBurst werr defaultDirectDrainBurst False c1 in (err, c2))
              | Some (pending, c2) \<Rightarrow>
                  (case writeOutbound werr pending c2 of
                     (Some e, c3) \<Rightarrow> (Some e, c3)
                   | (None, c3) \<Rightarrow> broadcast_loop werr n (i + 1) c3)))"

definition writeBroadcastBatch :: "'p write_errors \<Rightarrow> 'p outboundMessage \<Rightarrow> 'p connection \<Rightarrow> go_error option \<times> 'p connection" where
  "writeBroadcastBatch werr first c =
     (case writeOutbound werr first c of
        (Some err, c') \<Rightarrow> (Some err, c')
      | (None, c') \<Rightarrow> broadcast_loop werr (defaultBroadcastBatchSize - 1) 1 c')"

definition drainPendingWrites :: "'p write_errors \<Rightarrow> 'p connection \<Rightarrow> (bool \<times> go_error option) \<times> 'p connection" where
  "drainPendingWrites werr c =
     (let ((wrote, err), c1) = tryWriteDirectBurst werr defaultDirectSendPriority False c
      in case err of
           Some e \<Rightarrow> ((False, Some e), c1)
         | None \<Rightarrow>
             if wrote then ((True, None), c1)
             else (case recv_broadcast c1 of
                 None \<Rightarrow> ((False, None), c1)
               | Some (message, c2) \<Rightarrow>
                   (case writeBroadcastBatch werr message c2 of
                      (Some e, c3) \<Rightarrow> ((False, Some e), c3)
                    | (None, c3) \<Rightarrow> ((True, None), c3))))"

definition broadcast_buf :: "'p connection \<Rightarrow> 'p outboundMessage list" where
  "broadcast_buf c = (case cn_broadcast c of Some ch \<Rightarrow> chan_buf ch | None \<Rightarrow> [])"

definition hasPendingMessages :: "'p connection \<Rightarrow> bool" where
  "hasPendingMessages c \<longleftrightarrow>
     (if length (chan_buf (cn_send c)) > 0 then True else length (broadcast_buf c) > 0)"

section \<open>The writer ends\<close>

text \<open>The messages waiting in the two queues: every write takes one of them.\<close>

definition pending :: "'p connection \<Rightarrow> nat" where
  "pending c = length (chan_buf (cn_send c)) + length (broadcast_buf c)"

lemma writeOutbound_pending [simp]:
  "writeOutbound werr m c = (r, c') \<Longrightarrow> pending c' = pending c"
  by (auto simp: writeOutbound_def pending_def broadcast_buf_def split: option.splits)

lemma recv_broadcast_pending: "recv_broadcast c = Some (m, c') \<Longrightarrow> pending c = Suc (pending c')"
  by (auto simp: recv_broadcast_def pending_def broadcast_buf_def chan_simps split: option.splits)

lemma burst_pending:
  "tryWriteDirectBurst werr n wrote c = ((w, err), c') \<Longrightarrow>
     pending c' \<le> pending c \<and> (w \<and> \<not> wrote \<longrightarrow> pending c' < pending c)"
proof (induction werr n wrote c rule: tryWriteDirectBurst.induct)
  case (2 werr n wrote c)
  show ?case
  proof (cases "chan_recv (cn_send c)")
    case None
    then show ?thesis using "2.prems" by simp
  next
    case (Some p)
    obtain m ch where p: "p = (m, ch)" by (cases p)
    have less: "pending c = Suc (pending (c\<lparr>cn_send := ch\<rparr>))"
      using Some unfolding p by (auto simp: pending_def broadcast_buf_def chan_recv_Some)
    obtain r c1 where w: "writeOutbound werr m (c\<lparr>cn_send := ch\<rparr>) = (r, c1)" by fastforce
    then have c1: "pending c1 = pending (c\<lparr>cn_send := ch\<rparr>)" by simp
    show ?thesis
    proof (cases r)
      case None
      then show ?thesis using "2.IH" [OF Some p [symmetric] w [symmetric] None] "2.prems" Some p w less c1 by auto
    next
      case (Some e)
      then show ?thesis using "2.prems" \<open>chan_recv (cn_send c) = _\<close> p w less c1 by simp
    qed
  qed
qed simp

lemma broadcast_loop_pending: "broadcast_loop werr n i c = (err, c') \<Longrightarrow> pending c' \<le> pending c"
proof (induction werr n i c rule: broadcast_loop.induct)
  case (1 werr i c)
  then show ?case by (auto split: prod.splits dest: burst_pending)
next
  case (2 werr n i c)
  obtain w e c1 where b: "(if i mod broadcastPreemptEvery = 0
      then tryWriteDirectBurst werr defaultDirectDrainBurst False c else ((False, None), c)) = ((w, e), c1)"
    by (metis prod.exhaust)
  then have c1: "pending c1 \<le> pending c" by (auto split: if_splits dest: burst_pending)
  show ?case
  proof (cases e)
    case (Some x)
    then show ?thesis using "2.prems" b c1 by (simp split: if_splits)
  next
    case None
    show ?thesis
    proof (cases "recv_broadcast c1")
      case None
      then show ?thesis using "2.prems" b c1 \<open>e = None\<close>
        by (fastforce split: if_splits prod.splits dest: burst_pending)
    next
      case (Some q)
      obtain m c2 where q: "q = (m, c2)" by (cases q)
      obtain r c3 where w: "writeOutbound werr m c2 = (r, c3)" by fastforce
      have "pending c3 \<le> pending c1" using w recv_broadcast_pending [OF Some [unfolded q]] by simp
      moreover have "pending c' \<le> pending c3" if "r = None"
        using "2.prems" b \<open>e = None\<close> Some q w that
        by (intro "2.IH" [OF b [symmetric] refl refl \<open>e = None\<close> Some q [symmetric] w [symmetric] that])
          (simp split: if_splits)
      ultimately show ?thesis
        using "2.prems" b c1 \<open>e = None\<close> Some q w by (cases r) (auto split: if_splits)
    qed
  qed
qed

lemma drain_pending:
  assumes "drainPendingWrites werr c = ((w, err), c')"
  shows "w \<Longrightarrow> pending c' < pending c" and "\<not> w \<Longrightarrow> err = None \<Longrightarrow> pending c' = 0"
proof -
  obtain w1 e1 c1 where b: "tryWriteDirectBurst werr defaultDirectSendPriority False c = ((w1, e1), c1)"
    by (metis prod.exhaust)
  note le = burst_pending [OF b]
  have empty: "pending c1 = 0" if "\<not> w1" "e1 = None" "recv_broadcast c1 = None"
  proof -
    have "chan_buf (cn_send c1) = []" using b that(1,2)
      by (auto simp: defaultDirectSendPriority_def chan_simps split: option.splits prod.splits)
    moreover have "broadcast_buf c1 = []"
      using that(3) by (auto simp: recv_broadcast_def broadcast_buf_def chan_simps split: option.splits)
    ultimately show ?thesis by (simp add: pending_def)
  qed
  show "pending c' < pending c" if w
  proof (cases "e1 = None \<and> \<not> w1")
    case True
    with assms b that obtain m c2 where r: "recv_broadcast c1 = Some (m, c2)"
      by (auto simp: drainPendingWrites_def split: option.splits)
    with True assms b that have "writeBroadcastBatch werr m c2 = (None, c')"
      by (auto simp: drainPendingWrites_def split: prod.splits option.splits)
    then have "pending c' \<le> pending c2"
      by (auto simp: writeBroadcastBatch_def split: prod.splits option.splits dest: broadcast_loop_pending)
    then show ?thesis using le recv_broadcast_pending [OF r] by simp
  next
    case False
    with assms b that le show ?thesis by (auto simp: drainPendingWrites_def split: option.splits if_splits)
  qed
  show "pending c' = 0" if "\<not> w" "err = None"
    using assms b that empty
    by (auto simp: drainPendingWrites_def split: option.splits if_splits prod.splits)
qed

text \<open>\<open>writePump\<close>, the deferred \<open>writerRunning.Store(false)\<close> included.\<close>

function (domintros) writePump :: "'p write_errors \<Rightarrow> 'p connection \<Rightarrow> 'p connection" where
  "writePump werr c =
     (case drainPendingWrites werr c of
        ((wrote, Some err), c1) \<Rightarrow> (conn_Close c1)\<lparr>cn_writerRunning := False\<rparr>
      | ((True, None), c1) \<Rightarrow> writePump werr c1
      | ((False, None), c1) \<Rightarrow>
          (let c2 = c1\<lparr>cn_writerRunning := False\<rparr>
           in if \<not> cn_closed c2 \<and> hasPendingMessages c2 \<and> \<not> cn_writerRunning c2
              then writePump werr (c2\<lparr>cn_writerRunning := True\<rparr>)
              else c2\<lparr>cn_writerRunning := False\<rparr>))"
  by pat_completeness auto

lemma drained_not_pending: "pending c = 0 \<Longrightarrow> \<not> hasPendingMessages c"
  by (simp add: hasPendingMessages_def pending_def)

lemma flag_pending [simp]:
  "pending (c\<lparr>cn_writerRunning := b\<rparr>) = pending c"
  "hasPendingMessages (c\<lparr>cn_writerRunning := b\<rparr>) = hasPendingMessages c"
  by (simp_all add: pending_def hasPendingMessages_def broadcast_buf_def)

termination writePump
proof (relation "measure (\<lambda>(werr, c). pending c)", goal_cases)
  case (2 werr c x c1 xa ya)
  then show ?case using drain_pending(1) [of werr c True None c1] by simp
next
  case (3 werr c x c1 xa ya c2)
  then show ?case using drain_pending(2) [of werr c False None c1] by (auto dest: drained_not_pending)
qed simp

section \<open>Serving the writer in the caller\<close>

text \<open>\<open>tryServeWriterInline\<close>: the caller runs \<open>writePump\<close> itself when no writer runs.\<close>

definition tryServeWriterInline :: "'p write_errors \<Rightarrow> 'p connection \<Rightarrow> go_error option \<times> 'p connection" where
  "tryServeWriterInline werr c =
     (if cn_closed c then (Some ErrConnectionClosed, c)
      else if cn_writerRunning c then (None, c)
      else (None, writePump werr (c\<lparr>cn_writerRunning := True\<rparr>)))"

section \<open>Pings\<close>

text \<open>\<open>schedulePing\<close> without interference: its compare-and-swaps succeed. The last component is \<open>spawn\<close>.\<close>

definition schedulePing :: "time \<Rightarrow> duration \<Rightarrow> 'p connection \<Rightarrow> bool \<times> bool \<times> 'p connection" where
  "schedulePing now interval c =
     (if interval \<le> 0 \<or> cn_closed c then (False, False, c)
      else (let c1 = (if cn_nextPingAt c = 0 then c\<lparr>cn_nextPingAt := now + interval\<rparr> else c);
                deadline = cn_nextPingAt c1
            in if now < deadline then (False, False, c1)
               else (let c2 = c1\<lparr>cn_nextPingAt := now + interval\<rparr>
                     in case chan_trysend \<lparr>om_data = [], om_prepared = None, om_messageType = PingMessage\<rparr> (cn_send c2) of
                          Some ch \<Rightarrow> (let (spawn, c3) = ensureWriter (c2\<lparr>cn_send := ch\<rparr>) in (True, spawn, c3))
                        | None \<Rightarrow> (False, False, c2\<lparr>cn_nextPingAt := deadline\<rparr>))))"

definition bumpNextPing :: "time \<Rightarrow> duration \<Rightarrow> 'p connection \<Rightarrow> 'p connection" where
  "bumpNextPing now interval c = (if interval \<le> 0 then c else c\<lparr>cn_nextPingAt := now + interval\<rparr>)"

section \<open>The reader\<close>

text \<open>
  What the socket delivers to \<open>ReadMessage\<close>, with the time it arrives; the pong handler runs inside
  it.  Nothing that arrives after the read deadline is delivered: \<open>ReadMessage\<close> fails then.
\<close>

datatype read_event = RMessage int string | RPong | RError go_error

text \<open>The handler is a function on a world; the reader ends with the close of the connection.\<close>

fun readLoop ::
    "ws_options \<Rightarrow> (int \<Rightarrow> string \<Rightarrow> 'w \<Rightarrow> go_error option \<times> 'w) option \<Rightarrow> (time \<times> read_event) list \<Rightarrow>
     'p connection \<Rightarrow> 'w \<Rightarrow> 'p connection \<times> 'w" where
  "readLoop opts handler [] c w = (c, w)"
| "readLoop opts handler ((t, ev) # evs) c w =
     (if cn_readDeadline c < t then (conn_Close c, w)
      else (case ev of
          RError err \<Rightarrow> (conn_Close c, w)
        | RPong \<Rightarrow>
            readLoop opts handler evs
              (bumpNextPing t (wo_PingInterval opts) (c\<lparr>cn_readDeadline := t + wo_ReadTimeout opts\<rparr>)) w
        | RMessage ty data \<Rightarrow>
            (case handler of
               None \<Rightarrow> readLoop opts handler evs c w
             | Some h \<Rightarrow> (let (err, w') = h ty data w in readLoop opts handler evs c w'))))"

definition readPump ::
    "ws_options \<Rightarrow> (int \<Rightarrow> string \<Rightarrow> 'w \<Rightarrow> go_error option \<times> 'w) option \<Rightarrow> time \<Rightarrow> (time \<times> read_event) list \<Rightarrow>
     'p connection \<Rightarrow> 'w \<Rightarrow> 'p connection \<times> 'w" where
  "readPump opts handler now evs c w =
     readLoop opts handler evs
       (bumpNextPing now (wo_PingInterval opts) (c\<lparr>cn_readDeadline := now + wo_ReadTimeout opts\<rparr>)) w"

section \<open>What the writer writes\<close>

text \<open>
  \<open>moved c c'\<close>: from \<open>c\<close> to \<open>c'\<close> messages went from the fronts of the queues to the wire, each queue
  in its order, and nothing else about them changed.
\<close>

definition moved :: "'p connection \<Rightarrow> 'p connection \<Rightarrow> bool" where
  "moved c c' \<longleftrightarrow> (\<exists>as bs fs.
     chan_buf (cn_send c) = as @ chan_buf (cn_send c') \<and> broadcast_buf c = bs @ broadcast_buf c' \<and>
     cn_wire c' = cn_wire c @ fs \<and> fs \<in> shuffles (map frame_of as) (map frame_of bs) \<and> cn_closed c' = cn_closed c \<and>
     cn_ID c' = cn_ID c)"

lemma shuffles_append:
  "xs \<in> shuffles as bs \<Longrightarrow> ys \<in> shuffles cs ds \<Longrightarrow> xs @ ys \<in> shuffles (as @ cs) (bs @ ds)"
proof (induction as bs arbitrary: xs rule: shuffles.induct)
  case (1 bs)
  then show ?case by (induction bs arbitrary: xs) (auto intro: Cons_in_shuffles_rightI)
next
  case (2 as)
  then show ?case by (induction as arbitrary: xs) (auto intro: Cons_in_shuffles_leftI)
next
  case (3 a as b bs)
  then show ?case by (auto intro: Cons_in_shuffles_leftI Cons_in_shuffles_rightI)
qed

lemma moved_refl [simp]: "moved c c"
  by (simp add: moved_def)

lemma moved_trans: "moved c c' \<Longrightarrow> moved c' c'' \<Longrightarrow> moved c c''"
  unfolding moved_def
  by (elim exE conjE) (rule exI, rule exI, rule exI, auto dest: shuffles_append)

lemma moved_flag [simp]: "moved c (c'\<lparr>cn_writerRunning := b\<rparr>) = moved c c'"
  "moved (c\<lparr>cn_writerRunning := b\<rparr>) c' = moved c c'"
  by (simp_all add: moved_def broadcast_buf_def)

abbreviation no_errors :: "'p write_errors" where "no_errors \<equiv> \<lambda>_ _. None"

lemma writeOutbound_no_errors:
  "writeOutbound no_errors m c = (None, c\<lparr>cn_wire := cn_wire c @ [frame_of m]\<rparr>)"
  by (simp add: writeOutbound_def)

lemma moved_direct:
  "chan_recv (cn_send c) = Some (m, ch) \<Longrightarrow> moved c (c\<lparr>cn_send := ch, cn_wire := cn_wire c @ [frame_of m]\<rparr>)"
  unfolding moved_def
  by (rule exI [of _ "[m]"], rule exI [of _ "[]"]) (auto simp: chan_recv_Some broadcast_buf_def)

lemma moved_broadcast:
  "recv_broadcast c = Some (m, c') \<Longrightarrow> moved c (c'\<lparr>cn_wire := cn_wire c' @ [frame_of m]\<rparr>)"
  unfolding moved_def
  by (rule exI [of _ "[]"], rule exI [of _ "[m]"])
    (auto simp: recv_broadcast_def broadcast_buf_def chan_recv_Some split: option.splits)

lemma moved_burst:
  "tryWriteDirectBurst no_errors n wrote c = ((w, err), c') \<Longrightarrow> moved c c' \<and> err = None"
proof (induction n arbitrary: wrote c)
  case (Suc n)
  then show ?case
    by (auto simp: writeOutbound_no_errors split: option.splits dest!: moved_direct intro: moved_trans)
qed simp

lemma moved_loop: "broadcast_loop no_errors n i c = (err, c') \<Longrightarrow> moved c c' \<and> err = None"
proof (induction n arbitrary: i c)
  case 0
  then show ?case by (auto split: prod.splits dest: moved_burst)
next
  case (Suc n)
  obtain w e c1 where b: "(if i mod broadcastPreemptEvery = 0
      then tryWriteDirectBurst no_errors defaultDirectDrainBurst False c else ((False, None), c)) = ((w, e), c1)"
    by (metis prod.exhaust)
  then have c1: "moved c c1" "e = None" by (auto split: if_splits dest: moved_burst)
  show ?case
  proof (cases "recv_broadcast c1")
    case None
    with Suc.prems b c1 have "(\<lambda>((_, err), c2). (err, c2)) (tryWriteDirectBurst no_errors defaultDirectDrainBurst False c1) = (err, c')"
      by (simp split: if_splits)
    then have "moved c1 c' \<and> err = None" by (auto split: prod.splits dest: moved_burst)
    with c1 show ?thesis by (auto intro: moved_trans)
  next
    case (Some q)
    obtain m c2 where q: "q = (m, c2)" by (cases q)
    have "broadcast_loop no_errors n (i + 1) (c2\<lparr>cn_wire := cn_wire c2 @ [frame_of m]\<rparr>) = (err, c')"
      using Suc.prems b c1 Some q by (simp add: writeOutbound_no_errors split: if_splits)
    with Suc.IH have "moved (c2\<lparr>cn_wire := cn_wire c2 @ [frame_of m]\<rparr>) c' \<and> err = None" by blast
    with c1 moved_broadcast [OF Some [unfolded q]] show ?thesis by (blast intro: moved_trans)
  qed
qed

lemma moved_drain:
  assumes "drainPendingWrites no_errors c = ((w, err), c')"
  shows "moved c c' \<and> err = None"
proof -
  obtain w1 e1 c1 where b: "tryWriteDirectBurst no_errors defaultDirectSendPriority False c = ((w1, e1), c1)"
    by (metis prod.exhaust)
  with moved_burst have c1: "moved c c1" "e1 = None" by blast+
  show ?thesis
  proof (cases "w1 \<or> recv_broadcast c1 = None")
    case True
    with assms b c1 show ?thesis by (auto simp: drainPendingWrites_def split: if_splits)
  next
    case False
    then obtain m c2 where r: "recv_broadcast c1 = Some (m, c2)" by auto
    obtain e3 c3 where l: "broadcast_loop no_errors (defaultBroadcastBatchSize - 1) 1
        (c2\<lparr>cn_wire := cn_wire c2 @ [frame_of m]\<rparr>) = (e3, c3)" by fastforce
    then have e3: "e3 = None" "moved (c2\<lparr>cn_wire := cn_wire c2 @ [frame_of m]\<rparr>) c3"
      using moved_loop by blast+
    with assms b c1 False r l have "err = None" "c' = c3"
      by (auto simp: drainPendingWrites_def writeBroadcastBatch_def writeOutbound_no_errors)
    with c1 e3 moved_broadcast [OF r] show ?thesis by (blast intro: moved_trans)
  qed
qed

lemma moved_writePump: "moved c (writePump no_errors c)"
proof (induction "pending c" arbitrary: c rule: less_induct)
  case less
  obtain w err c1 where d: "drainPendingWrites no_errors c = ((w, err), c1)" by (metis prod.exhaust)
  from moved_drain [OF d] have c1: "moved c c1" "err = None" by simp_all
  show ?case
  proof (cases w)
    case True
    then have "moved c1 (writePump no_errors c1)" using less drain_pending(1) [OF d] by simp
    with c1 True d show ?thesis by (subst writePump.simps) (auto intro: moved_trans)
  next
    case False
    with d c1 drain_pending(2) [OF d] have "pending c1 = 0" by simp
    with c1 False d show ?thesis by (subst writePump.simps) (simp add: Let_def drained_not_pending)
  qed
qed

lemma writePump_drains: "pending (writePump no_errors c) = 0 \<and> \<not> cn_writerRunning (writePump no_errors c)"
proof (induction "pending c" arbitrary: c rule: less_induct)
  case less
  obtain w err c1 where d: "drainPendingWrites no_errors c = ((w, err), c1)" by (metis prod.exhaust)
  from moved_drain [OF d] have e: "err = None" by simp
  show ?case
  proof (cases w)
    case True
    then have "pending (writePump no_errors c1) = 0 \<and> \<not> cn_writerRunning (writePump no_errors c1)"
      using less drain_pending(1) [OF d] by simp
    with True d e show ?thesis by (subst (1 2) writePump.simps) simp
  next
    case False
    with d e drain_pending(2) [OF d] have "pending c1 = 0" by simp
    with False d e show ?thesis by (subst (1 2) writePump.simps) (simp add: Let_def drained_not_pending)
  qed
qed

section \<open>Properties\<close>

lemma pending_0: "pending c = 0 \<longleftrightarrow> chan_buf (cn_send c) = [] \<and> broadcast_buf c = []"
  by (simp add: pending_def)

text \<open>
  C15: A writer whose writes succeed returns with both queues empty and its flag reset; what it
  wrote is an interleaving of the direct messages and of the broadcasts, each in the order they
  were queued, none lost and none twice.
\<close>

theorem ws_writer_delivers:
  "\<exists>fs. cn_wire (writePump no_errors c) = cn_wire c @ fs \<and>
     fs \<in> shuffles (map frame_of (chan_buf (cn_send c))) (map frame_of (broadcast_buf c)) \<and>
     chan_buf (cn_send (writePump no_errors c)) = [] \<and> broadcast_buf (writePump no_errors c) = [] \<and>
     \<not> cn_writerRunning (writePump no_errors c)"
proof -
  have e: "chan_buf (cn_send (writePump no_errors c)) = []" "broadcast_buf (writePump no_errors c) = []"
    "\<not> cn_writerRunning (writePump no_errors c)"
    using writePump_drains [of c] by (simp_all add: pending_0)
  with moved_writePump [of c] show ?thesis unfolding moved_def e append_Nil2 by (elim exE conjE) (simp add: e)
qed

text \<open>Whatever writes fail, \<open>writePump\<close> ends with nothing pending or the connection closed.\<close>

lemma writePump_ends: "pending (writePump werr c) = 0 \<or> cn_closed (writePump werr c)"
proof (induction "pending c" arbitrary: c rule: less_induct)
  case less
  obtain w err c1 where d: "drainPendingWrites werr c = ((w, err), c1)" by (metis prod.exhaust)
  consider e where "err = Some e" | "err = None" "w" | "err = None" "\<not> w" by (cases err) auto
  then show ?case
  proof cases
    case 1
    then show ?thesis using d by (subst (1 2) writePump.simps) (cases w; simp add: conn_Close_def)
  next
    case 2
    then have "pending (writePump werr c1) = 0 \<or> cn_closed (writePump werr c1)"
      using less drain_pending(1) [OF d] by simp
    with 2 d show ?thesis by (subst (1 2) writePump.simps) simp
  next
    case 3
    then have "pending c1 = 0" using drain_pending(2) [OF d] by simp
    with 3 d show ?thesis by (subst (1 2) writePump.simps) (simp add: Let_def drained_not_pending)
  qed
qed

text \<open>The times at which pings are sent; between two calls the queue changes in any way.\<close>

fun ping_run :: "duration \<Rightarrow> (time \<times> 'p outboundMessage chan) list \<Rightarrow> 'p connection \<Rightarrow> time list" where
  "ping_run interval [] c = []"
| "ping_run interval ((now, queue) # ticks) c =
     (case schedulePing now interval (c\<lparr>cn_send := queue\<rparr>) of
        (sent, _, c') \<Rightarrow> (if sent then [now] else []) @ ping_run interval ticks c')"

lemma schedulePing_sent:
  assumes "schedulePing now interval c = (sent, spawn, c')" and "0 < interval" and "0 < now"
  shows "sent \<Longrightarrow> cn_nextPingAt c \<le> now \<and> cn_nextPingAt c' = now + interval"
    and "\<not> sent \<Longrightarrow> cn_nextPingAt c' = (if cn_nextPingAt c = 0 \<and> \<not> cn_closed c then now + interval else cn_nextPingAt c)"
  using assms
  by (auto simp: schedulePing_def Let_def ensureWriter_def split: if_splits option.splits prod.splits)

lemma ping_run_after:
  assumes "0 < interval" and "list_all (\<lambda>p. 0 < fst p) ticks" and "cn_nextPingAt c \<noteq> 0" and "t \<in> set (ping_run interval ticks c)"
    and "sorted (map fst ticks)" and "0 < cn_nextPingAt c"
  shows "cn_nextPingAt c \<le> t"
  using assms
proof (induction ticks arbitrary: c)
  case (Cons p ticks)
  obtain now q where p: "p = (now, q)" by (cases p)
  obtain sent spawn c' where s: "schedulePing now interval (c\<lparr>cn_send := q\<rparr>) = (sent, spawn, c')" by (metis prod.exhaust)
  have pos: "0 < now" using Cons.prems p by simp
  note sp = schedulePing_sent [OF s Cons.prems(1) pos]
  show ?case
  proof (cases sent)
    case True
    with sp have c': "cn_nextPingAt c \<le> now" "cn_nextPingAt c' = now + interval" by simp_all
    have "t = now \<or> cn_nextPingAt c' \<le> t"
      using Cons.IH [of c'] Cons.prems True p s c' pos by auto
    with c' Cons.prems(1) show ?thesis by auto
  next
    case False
    with sp Cons.prems have "cn_nextPingAt c' = cn_nextPingAt c" by simp
    with Cons.IH [of c'] Cons.prems False p s show ?thesis by simp
  qed
qed simp

text \<open>
  However often the scheduler runs and however full the queue is, two pings sent on a
  connection are at least one ping interval apart.
\<close>

theorem ws_ping_spacing:
  assumes "0 < interval" and "sorted (map fst ticks)" and "list_all (\<lambda>p. 0 < fst p) ticks"
  shows "sorted_wrt (\<lambda>s t. s + interval \<le> t) (ping_run interval ticks c)"
  using assms
proof (induction ticks arbitrary: c)
  case (Cons p ticks)
  obtain now q where p: "p = (now, q)" by (cases p)
  obtain sent spawn c' where s: "schedulePing now interval (c\<lparr>cn_send := q\<rparr>) = (sent, spawn, c')" by (metis prod.exhaust)
  have pos: "0 < now" using Cons.prems p by simp
  have "sent \<Longrightarrow> cn_nextPingAt c' = now + interval" using schedulePing_sent(1) [OF s Cons.prems(1) pos] by simp
  then have "sent \<Longrightarrow> t \<in> set (ping_run interval ticks c') \<Longrightarrow> now + interval \<le> t" for t
    using ping_run_after [of interval ticks c' t] Cons.prems pos by simp
  with Cons.IH [of c'] Cons.prems p s show ?case by auto
qed simp

theorem ws_ping_spacing_witness:
  "ping_run 10 [(1, chan_make 1), (11, chan_make 1), (15, chan_make 1), (21, chan_make 0), (25, chan_make 1)]
     (newConnection ''a'' None :: unit connection) = [11, 25] \<and>
   sorted_wrt (\<lambda>s t. s + 10 \<le> t) (ping_run 10 [(1, chan_make 1), (11, chan_make 1), (15, chan_make 1)]
     (newConnection ''a'' None :: unit connection))"
proof
  show "ping_run 10 [(1, chan_make 1), (11, chan_make 1), (15, chan_make 1), (21, chan_make 0), (25, chan_make 1)]
     (newConnection ''a'' None :: unit connection) = [11, 25]"
    by (simp add: newConnection_def schedulePing_def Let_def chan_trysend_def ensureWriter_def chan_make_def)
qed (rule ws_ping_spacing; simp)

definition noting_message :: "int \<Rightarrow> string \<Rightarrow> string list \<Rightarrow> go_error option \<times> string list" where
  "noting_message ty data w = (None, w @ [data])"

lemma readLoop_messages:
  fixes c :: "'p connection" and opts :: ws_options
  assumes "\<not> cn_closed c"
  defines "run \<equiv> \<lambda>ms w. readLoop opts (Some noting_message) (map (\<lambda>m. (fst m, RMessage 1 (snd m))) ms) c w"
  shows "snd (run ms w) = w @ map snd (takeWhile (\<lambda>m. fst m \<le> cn_readDeadline c) ms) \<and>
     cn_closed (fst (run ms w)) = (takeWhile (\<lambda>m. fst m \<le> cn_readDeadline c) ms \<noteq> ms)"
  unfolding run_def using assms(1)
  by (induction ms arbitrary: w) (auto simp: noting_message_def conn_Close_def)

text \<open>
  Only pongs extend the read deadline.  A peer that sends data messages without a pause, and
  whose pongs do not come, has its connection closed when the read timeout has passed since the
  reader started: what it sends later is never handled.
\<close>

theorem ws_data_does_not_extend_deadline:
  "let in_time = takeWhile (\<lambda>m. fst m \<le> now + wo_ReadTimeout opts) ms;
       (c, w) = readPump opts (Some noting_message) now (map (\<lambda>m. (fst m, RMessage 1 (snd m))) ms) (newConnection i o' :: 'p connection) []
   in w = map snd in_time \<and> cn_closed c = (in_time \<noteq> ms)"
proof -
  define c where "c = bumpNextPing now (wo_PingInterval opts)
    ((newConnection i o' :: 'p connection)\<lparr>cn_readDeadline := now + wo_ReadTimeout opts\<rparr>)"
  have c: "\<not> cn_closed c" "cn_readDeadline c = now + wo_ReadTimeout opts"
    by (simp_all add: c_def bumpNextPing_def newConnection_def Let_def)
  show ?thesis
    using readLoop_messages [OF c(1), of opts ms "[]"]
    unfolding readPump_def c_def [symmetric] c(2) Let_def by (simp add: case_prod_unfold)
qed

end
