(* ===== verification/WsServer.thy ===== *)
theory WsServer
  imports WsConnection "HOL-Library.Word"
begin

text \<open>
  The WebSocket server (\<open>transport/ws/ws.go\<close>): admission of connections, the sharded table they are
  kept in, broadcasting, heartbeats and shutdown, as the functions of one goroutine.  A connection is
  reached through its pointer; an update of it is written back under its identifier, and a closed one
  is taken out of the table, as \<open>Close\<close> does.  Interleaved handshakes are in \<open>WsAdmission\<close>.
\<close>

section \<open>The table of connections\<close>

text \<open>\<open>fnv.New32a\<close>.\<close>

definition fnv32a :: "string \<Rightarrow> 32 word" where
  "fnv32a s = foldl (\<lambda>h c. (xor h (of_nat (of_char c))) * 16777619) 2166136261 s"

definition parallelBroadcastThreshold :: nat where "parallelBroadcastThreshold = 256"
definition connectionShardCount :: nat where "connectionShardCount = 32"

type_synonym 'p shard = "string \<Rightarrow> 'p connection option"

text \<open>
  \<open>sv_started\<close>: \<open>server\<close> is not nil; \<open>sv_hbStop\<close> and \<open>sv_hbDone\<close>: the channel is closed;
  \<open>sv_schedulers\<close>: the heartbeat goroutines that run.
\<close>

record 'p ws_server =
  sv_opts :: ws_options
  sv_started :: bool
  sv_shards :: "'p shard list"
  sv_activeCount :: int
  sv_ready :: bool
  sv_nextConnID :: "64 word"
  sv_stopping :: bool
  sv_hbStop :: bool
  sv_hbDone :: bool
  sv_schedulers :: nat

definition newConnectionShards :: "'p shard list" where
  "newConnectionShards = replicate connectionShardCount (\<lambda>_. None)"

definition ws_NewServer :: "ws_option list \<Rightarrow> string \<Rightarrow> 'p ws_server" where
  "ws_NewServer os uuid =
     \<lparr>sv_opts = fold apply_ws_option os (ws_DefaultOptions uuid), sv_started = False,
      sv_shards = newConnectionShards, sv_activeCount = 0, sv_ready = False, sv_nextConnID = 0,
      sv_stopping = False, sv_hbStop = False, sv_hbDone = False, sv_schedulers = 0\<rparr>"

definition ws_server_ID :: "'p ws_server \<Rightarrow> string" where
  "ws_server_ID s = wo_ID (sv_opts s)"

definition ws_server_Metadata :: "'p ws_server \<Rightarrow> string \<Rightarrow> string option" where
  "ws_server_Metadata s = wo_Metadata (sv_opts s)"

definition ws_server_Version :: "'p ws_server \<Rightarrow> string" where
  "ws_server_Version s = wo_Version (sv_opts s)"

definition ws_server_Name :: "'p ws_server \<Rightarrow> string" where
  "ws_server_Name s = wo_Name (sv_opts s)"

text \<open>\<open>addr\<close> is set once, from the options.\<close>

definition ws_server_Addr :: "'p ws_server \<Rightarrow> string" where
  "ws_server_Addr s = wo_Address (sv_opts s)"

text \<open>The upgrader's origin check: without one every origin is accepted.\<close>

definition ws_checkOrigin :: "ws_options \<Rightarrow> string \<Rightarrow> bool" where
  "ws_checkOrigin opts origin = (case wo_CheckOrigin opts of Some f \<Rightarrow> f origin | None \<Rightarrow> True)"

definition shard_index :: "string \<Rightarrow> 'p ws_server \<Rightarrow> nat" where
  "shard_index i s = unat (fnv32a i mod of_nat (length (sv_shards s)))"

definition in_shard :: "nat \<Rightarrow> ('p shard \<Rightarrow> 'p shard) \<Rightarrow> 'p ws_server \<Rightarrow> 'p ws_server" where
  "in_shard k f s = s\<lparr>sv_shards := (sv_shards s)[k := f (sv_shards s ! k)]\<rparr>"

definition storeConnection :: "'p connection \<Rightarrow> 'p ws_server \<Rightarrow> 'p ws_server" where
  "storeConnection c s = in_shard (shard_index (cn_ID c) s) (\<lambda>m. m(cn_ID c \<mapsto> c)) s"

definition GetConnection :: "string \<Rightarrow> 'p ws_server \<Rightarrow> 'p connection option" where
  "GetConnection i s = (sv_shards s ! shard_index i s) i"

definition removeConnection :: "string \<Rightarrow> 'p ws_server \<Rightarrow> 'p ws_server" where
  "removeConnection i s =
     (case (sv_shards s ! shard_index i s) i of
        Some c \<Rightarrow> (in_shard (shard_index i s) (\<lambda>m. m(i := None)) s)\<lparr>sv_activeCount := sv_activeCount s - 1\<rparr>
      | None \<Rightarrow> s)"

text \<open>A range over the maps of the shards, in turn: \<open>orders k\<close> lists the keys of shard \<open>k\<close>.\<close>

definition snapshotConnections :: "(nat \<Rightarrow> string list) \<Rightarrow> 'p ws_server \<Rightarrow> 'p connection list" where
  "snapshotConnections orders s =
     concat (map (\<lambda>k. map snd (range_over (orders k) (sv_shards s ! k))) [0..<length (sv_shards s)])"

definition Connections :: "(nat \<Rightarrow> string list) \<Rightarrow> 'p ws_server \<Rightarrow> string \<Rightarrow> 'p connection option" where
  "Connections orders s = fold (\<lambda>c m. m(cn_ID c \<mapsto> c)) (snapshotConnections orders s) (\<lambda>_. None)"

definition ConnectionCount :: "'p ws_server \<Rightarrow> int" where
  "ConnectionCount s = sv_activeCount s"

text \<open>Closing a connection: \<open>Close\<close> removes it from the table, once.\<close>

definition closeConnection :: "'p connection \<Rightarrow> 'p ws_server \<Rightarrow> 'p connection \<times> 'p ws_server" where
  "closeConnection c s = (if cn_closed c then (c, s) else (conn_Close c, removeConnection (cn_ID c) s))"

definition write_back :: "'p connection \<Rightarrow> 'p ws_server \<Rightarrow> 'p ws_server" where
  "write_back c s = (if cn_closed c then removeConnection (cn_ID c) s else storeConnection c s)"

section \<open>Admission\<close>

definition tryAcquireConnectionSlot :: "'p ws_server \<Rightarrow> bool \<times> 'p ws_server" where
  "tryAcquireConnectionSlot s =
     (let maxConnections = wo_MaxConnections (sv_opts s)
      in if maxConnections \<le> 0 then (True, s\<lparr>sv_activeCount := sv_activeCount s + 1\<rparr>)
         else if sv_activeCount s \<ge> maxConnections then (False, s)
         else (True, s\<lparr>sv_activeCount := sv_activeCount s + 1\<rparr>))"

definition releaseConnectionSlot :: "'p ws_server \<Rightarrow> 'p ws_server" where
  "releaseConnectionSlot s = s\<lparr>sv_activeCount := sv_activeCount s - 1\<rparr>"

definition nextConnectionID :: "'p ws_server \<Rightarrow> string \<times> 'p ws_server" where
  "nextConnectionID s =
     (let n = sv_nextConnID s + 1 in (format_base 36 (unat n), s\<lparr>sv_nextConnID := n\<rparr>))"

text \<open>
  What the client of a handshake gets: a refusal with its status, a failed upgrade, or a connection,
  on which the connect handler and the reader run next.  \<open>upgraded\<close> is the result of \<open>Upgrade\<close>.
\<close>

datatype 'p handshake = Refused int string | UpgradeFailed | Accepted "'p connection"

definition handleWebSocket ::
    "bool \<Rightarrow> string \<times> string \<times> string \<Rightarrow> 'p ws_server \<Rightarrow> 'p handshake \<times> 'p ws_server" where
  "handleWebSocket upgraded req s =
     (if sv_stopping s then (Refused 503 ''Server is shutting down'', s)
      else (let (ok, s1) = tryAcquireConnectionSlot s
            in if \<not> ok then (Refused 503 ''Too many connections'', s1)
               else if \<not> upgraded then (UpgradeFailed, releaseConnectionSlot s1)
               else (let (i, s2) = nextConnectionID s1;
                         (remoteAddr, requestURI, rawQuery) = req;
                         c = (newConnection i (Some (sv_opts s)))\<lparr>cn_remoteAddr := remoteAddr,
                               cn_requestURI := requestURI, cn_rawQuery := rawQuery\<rparr>
                     in (Accepted c, storeConnection c s2))))"

section \<open>Broadcasting\<close>

text \<open>The same switch on the type of the data as in \<open>Connection.Send\<close>.\<close>

fun preparePayload :: "('u \<Rightarrow> string result) \<Rightarrow> 'u ws_data \<Rightarrow> string result" where
  "preparePayload marshal (DBytes b) = Inr b"
| "preparePayload marshal (DString s) = Inr s"
| "preparePayload marshal (DOther v) = marshal v"

lemma preparePayload_eq: "preparePayload marshal data = ws_payload marshal data"
  by (cases data) (simp_all add: ws_payload_def)

text \<open>\<open>prepare\<close> is \<open>websocket.NewPreparedMessage\<close>, \<open>None\<close> when it fails.\<close>

definition prepareBroadcastMessage ::
    "('u \<Rightarrow> string result) \<Rightarrow> (string \<Rightarrow> 'p option) \<Rightarrow> 'u ws_data \<Rightarrow> (string \<times> 'p option) result" where
  "prepareBroadcastMessage marshal prepare data =
     (case preparePayload marshal data of Inl err \<Rightarrow> Inl err | Inr payload \<Rightarrow> Inr (payload, prepare payload))"

definition sendBroadcastMessage ::
    "(string \<Rightarrow> 'p write_errors) \<Rightarrow> string \<times> 'p option \<Rightarrow> 'p connection \<Rightarrow> 'p ws_server \<Rightarrow> go_error option \<times> 'p ws_server" where
  "sendBroadcastMessage werr msg c s =
     (let (payload, prepared) = msg;
          message = \<lparr>om_data = payload, om_prepared = prepared, om_messageType = BinaryMessage\<rparr>
      in case conn_enqueueBroadcast message False c of
           (Some err, _, c1) \<Rightarrow> (Some err, if cn_closed c1 then s else write_back c1 s)
         | (None, _, c1) \<Rightarrow>
             (let (err, c2) = tryServeWriterInline (werr (cn_ID c1)) c1 in (err, write_back c2 s)))"

text \<open>The loop over the connections: the last error is kept.\<close>

fun broadcast_conns ::
    "(string \<Rightarrow> 'p write_errors) \<Rightarrow> string \<times> 'p option \<Rightarrow> 'p connection list \<Rightarrow> go_error option \<Rightarrow>
     'p ws_server \<Rightarrow> go_error option \<times> 'p ws_server" where
  "broadcast_conns werr msg [] lastErr s = (lastErr, s)"
| "broadcast_conns werr msg (c # cs) lastErr s =
     (case sendBroadcastMessage werr msg c s of
        (Some err, s') \<Rightarrow> broadcast_conns werr msg cs (Some err) s'
      | (None, s') \<Rightarrow> broadcast_conns werr msg cs lastErr s')"

text \<open>\<open>procs\<close> is \<open>runtime.GOMAXPROCS(0)\<close>.\<close>

definition broadcastWorkerCount :: "int \<Rightarrow> int \<Rightarrow> int" where
  "broadcastWorkerCount procs connectionCount =
     (if connectionCount \<le> 1 then connectionCount
      else (let w1 = procs * 4; w2 = (if w1 < 1 then 1 else w1)
            in if w2 > connectionCount then connectionCount else w2))"

text \<open>\<open>for start := 0; start < len(conns); start += chunkSize\<close>.\<close>

function chunks :: "nat \<Rightarrow> 'a list \<Rightarrow> 'a list list" where
  "chunks k xs = (if k = 0 \<or> xs = [] then [] else take k xs # chunks k (drop k xs))"
  by pat_completeness auto
termination by (relation "measure (\<lambda>(k, xs). length xs)") auto

declare chunks.simps [simp del]

definition broadcast_parts :: "int \<Rightarrow> 'a list \<Rightarrow> 'a list list" where
  "broadcast_parts procs conns =
     (if conns = [] then []
      else (let n = int (length conns); workers = broadcastWorkerCount procs n;
                chunkSize = nat ((n + workers - 1) div workers)
            in chunks chunkSize conns))"

text \<open>
  \<open>broadcastParallel\<close>: one goroutine per part.  The parts share no connection, so their order does
  not matter to the connections; of the errors the parts leave in the channel the last is returned.
\<close>

fun broadcast_each ::
    "(string \<Rightarrow> 'p write_errors) \<Rightarrow> string \<times> 'p option \<Rightarrow> 'p connection list list \<Rightarrow> go_error option \<Rightarrow>
     'p ws_server \<Rightarrow> go_error option \<times> 'p ws_server" where
  "broadcast_each werr msg [] lastErr s = (lastErr, s)"
| "broadcast_each werr msg (part # parts) lastErr s =
     (case broadcast_conns werr msg part None s of
        (Some err, s') \<Rightarrow> broadcast_each werr msg parts (Some err) s'
      | (None, s') \<Rightarrow> broadcast_each werr msg parts lastErr s')"

definition broadcastParallel ::
    "int \<Rightarrow> (string \<Rightarrow> 'p write_errors) \<Rightarrow> string \<times> 'p option \<Rightarrow> 'p connection list \<Rightarrow> 'p ws_server \<Rightarrow>
     go_error option \<times> 'p ws_server" where
  "broadcastParallel procs werr msg conns s = broadcast_each werr msg (broadcast_parts procs conns) None s"

definition broadcast_to ::
    "int \<Rightarrow> (string \<Rightarrow> 'p write_errors) \<Rightarrow> string \<times> 'p option \<Rightarrow> bool \<Rightarrow> 'p connection list \<Rightarrow> 'p ws_server \<Rightarrow>
     go_error option \<times> 'p ws_server" where
  "broadcast_to procs werr msg few conns s =
     (if few then broadcast_conns werr msg conns None s else broadcastParallel procs werr msg conns s)"

definition Broadcast ::
    "int \<Rightarrow> (nat \<Rightarrow> string list) \<Rightarrow> (string \<Rightarrow> 'p write_errors) \<Rightarrow> ('u \<Rightarrow> string result) \<Rightarrow> (string \<Rightarrow> 'p option) \<Rightarrow>
     'u ws_data \<Rightarrow> 'p ws_server \<Rightarrow> go_error option \<times> 'p ws_server" where
  "Broadcast procs orders werr marshal prepare data s =
     (case prepareBroadcastMessage marshal prepare data of
        Inl err \<Rightarrow> (Some err, s)
      | Inr msg \<Rightarrow>
          (let conns = snapshotConnections orders s
           in broadcast_to procs werr msg (length conns < parallelBroadcastThreshold) conns s))"

definition BroadcastExcept ::
    "int \<Rightarrow> (nat \<Rightarrow> string list) \<Rightarrow> (string \<Rightarrow> 'p write_errors) \<Rightarrow> ('u \<Rightarrow> string result) \<Rightarrow> (string \<Rightarrow> 'p option) \<Rightarrow>
     'u ws_data \<Rightarrow> string list \<Rightarrow> 'p ws_server \<Rightarrow> go_error option \<times> 'p ws_server" where
  "BroadcastExcept procs orders werr marshal prepare data excludeIDs s =
     (case prepareBroadcastMessage marshal prepare data of
        Inl err \<Rightarrow> (Some err, s)
      | Inr msg \<Rightarrow>
          (let conns = snapshotConnections orders s
           in broadcast_to procs werr msg (length conns < parallelBroadcastThreshold)
                (filter (\<lambda>c. cn_ID c \<notin> set excludeIDs) conns) s))"

section \<open>Heartbeats\<close>

text \<open>The period of the scheduler; \<open>None\<close>: no ticker, pings are off.\<close>

definition heartbeat_interval :: "duration \<Rightarrow> duration option" where
  "heartbeat_interval ping =
     (if ping \<le> 0 then None
      else (let i1 = ping div 4; i2 = (if i1 \<le> 0 then ping else i1)
            in Some (if i2 > second then second else i2)))"

text \<open>One tick: the identifiers are those of the connections a new writer is started for.\<close>

fun heartbeat_conns :: "time \<Rightarrow> duration \<Rightarrow> 'p connection list \<Rightarrow> 'p ws_server \<Rightarrow> string list \<times> 'p ws_server" where
  "heartbeat_conns now interval [] s = ([], s)"
| "heartbeat_conns now interval (c # cs) s =
     (let (_, spawn, c') = schedulePing now interval c;
          (ids, s') = heartbeat_conns now interval cs (if cn_closed c then s else storeConnection c' s)
      in ((if spawn then [cn_ID c] else []) @ ids, s'))"

definition dispatchHeartbeats :: "(nat \<Rightarrow> string list) \<Rightarrow> time \<Rightarrow> 'p ws_server \<Rightarrow> string list \<times> 'p ws_server" where
  "dispatchHeartbeats orders now s =
     heartbeat_conns now (wo_PingInterval (sv_opts s)) (snapshotConnections orders s) s"

section \<open>Starting and stopping\<close>

text \<open>
  \<open>Start\<close> launches the goroutine that listens, whose failure is only logged (\<open>HttpServer\<close> has the same goroutine
  as a step), and the one that sends heartbeats.
\<close>

definition ws_Start :: "'p ws_server \<Rightarrow> go_error option \<times> 'p ws_server" where
  "ws_Start s = (None, s\<lparr>sv_started := True, sv_ready := True, sv_schedulers := sv_schedulers s + 1\<rparr>)"

text \<open>
  The heartbeat goroutines see \<open>heartbeatStop\<close> closed and return: each closes \<open>heartbeatDone\<close> then,
  and closing a closed channel panics.
\<close>

definition schedulers_exit :: "'p ws_server \<Rightarrow> unit outcome \<times> 'p ws_server" where
  "schedulers_exit s =
     (if \<not> sv_hbStop s \<or> sv_schedulers s = 0 then (Ret (), s)
      else if sv_hbDone s \<or> 1 < sv_schedulers s
      then (Panicked ''close of closed channel'', s\<lparr>sv_hbDone := True\<rparr>)
      else (Ret (), s\<lparr>sv_hbDone := True, sv_schedulers := 0\<rparr>))"

text \<open>\<open>shutdown\<close> and \<open>close\<close> are the results of the HTTP server's \<open>Shutdown\<close> and \<open>Close\<close>.\<close>

definition ws_Stop ::
    "(nat \<Rightarrow> string list) \<Rightarrow> go_error option \<Rightarrow> go_error option \<Rightarrow> 'p ws_server \<Rightarrow>
     go_error option outcome \<times> 'p ws_server" where
  "ws_Stop orders shutdown close s =
     (if \<not> sv_started s then (Ret None, s)
      else (let s1 = s\<lparr>sv_ready := False, sv_stopping := True\<rparr>;
                s2 = fold (\<lambda>c s. snd (closeConnection c s)) (snapshotConnections orders s1) s1
            in if sv_hbStop s2 then (Panicked ''close of closed channel'', s2)
               else (case schedulers_exit (s2\<lparr>sv_hbStop := True\<rparr>) of
                   (Panicked p, s3) \<Rightarrow> (Panicked p, s3)
                 | (Ret _, s3) \<Rightarrow> (Ret (case shutdown of None \<Rightarrow> None | Some err \<Rightarrow> close), s3))))"

section \<open>The table is a map\<close>

definition table_ok :: "'p ws_server \<Rightarrow> bool" where
  "table_ok s \<longleftrightarrow> length (sv_shards s) = connectionShardCount \<and>
     (\<forall>k i c. k < length (sv_shards s) \<longrightarrow> (sv_shards s ! k) i = Some c \<longrightarrow> k = shard_index i s \<and> cn_ID c = i)"

lemma shard_index_less: "table_ok s \<Longrightarrow> shard_index i s < length (sv_shards s)"
proof -
  assume "table_ok s"
  then have n: "length (sv_shards s) = 32" by (simp add: table_ok_def connectionShardCount_def)
  have "fnv32a i mod 32 < (32 :: 32 word)" by (rule word_mod_less_divisor) simp
  then have "unat (fnv32a i mod 32) < unat (32 :: 32 word)" by (simp only: word_less_nat_alt)
  then show ?thesis by (simp add: shard_index_def n)
qed

lemma in_shard_simps [simp]:
  "length (sv_shards (in_shard k f s)) = length (sv_shards s)" "shard_index i (in_shard k f s) = shard_index i s"
  "sv_opts (in_shard k f s) = sv_opts s" "sv_activeCount (in_shard k f s) = sv_activeCount s"
  by (simp_all add: in_shard_def shard_index_def)

lemma in_shard_nth: "k < length (sv_shards s) \<Longrightarrow> j < length (sv_shards s) \<Longrightarrow>
    sv_shards (in_shard k f s) ! j = (if j = k then f (sv_shards s ! k) else sv_shards s ! j)"
  by (auto simp: in_shard_def nth_list_update)

lemma table_ok_new: "table_ok (ws_NewServer os uuid)"
  by (simp add: table_ok_def ws_NewServer_def newConnectionShards_def)

lemma table_okD:
  "table_ok s \<Longrightarrow> k < length (sv_shards s) \<Longrightarrow> (sv_shards s ! k) i = Some c \<Longrightarrow> k = shard_index i s \<and> cn_ID c = i"
  unfolding table_ok_def by blast

lemma table_okI:
  assumes "table_ok s" and "length (sv_shards s') = length (sv_shards s)"
    and "\<And>k i c. k < length (sv_shards s) \<Longrightarrow> (sv_shards s' ! k) i = Some c \<Longrightarrow>
           (sv_shards s ! k) i = Some c \<or> k = shard_index i s \<and> cn_ID c = i"
  shows "table_ok s'"
proof -
  have "shard_index i s' = shard_index i s" for i using assms(2) by (simp add: shard_index_def)
  then show ?thesis
    using assms(1,2) assms(3) table_okD [OF assms(1)] unfolding table_ok_def by metis
qed

lemma table_ok_store [inv_intros]: "table_ok s \<Longrightarrow> table_ok (storeConnection c s)"
  by (rule table_okI [of s]) (auto simp: storeConnection_def in_shard_nth shard_index_less split: if_splits)

lemma table_ok_active [simp]: "table_ok (s\<lparr>sv_activeCount := n\<rparr>) = table_ok s"
  by (simp add: table_ok_def shard_index_def)

lemma table_ok_remove [inv_intros]: "table_ok s \<Longrightarrow> table_ok (removeConnection i s)"
  by (rule table_okI [of s])
    (auto simp: removeConnection_def in_shard_nth shard_index_less split: if_splits option.splits)

lemma GetConnection_store:
  "table_ok s \<Longrightarrow> GetConnection i (storeConnection c s) = (if i = cn_ID c then Some c else GetConnection i s)"
  using shard_index_less [of s i] shard_index_less [of s "cn_ID c"]
  by (simp add: GetConnection_def storeConnection_def in_shard_nth)

lemma GetConnection_remove:
  "table_ok s \<Longrightarrow> GetConnection i (removeConnection j s) = (if i = j then None else GetConnection i s)"
  using shard_index_less [of s i] shard_index_less [of s j]
  by (auto simp: GetConnection_def removeConnection_def in_shard_nth shard_index_def split: option.splits)

section \<open>The table as a contract\<close>

text \<open>
  A table of objects that carry their keys, under a well-formedness \<open>wf\<close> its operations keep.
\<close>

locale object_table =
  fixes wf :: "'t \<Rightarrow> bool" and key :: "'o \<Rightarrow> 'k"
    and get :: "'k \<Rightarrow> 't \<Rightarrow> 'o option" and put :: "'o \<Rightarrow> 't \<Rightarrow> 't" and del :: "'k \<Rightarrow> 't \<Rightarrow> 't"
  assumes wf_put: "wf t \<Longrightarrow> wf (put x t)"
    and wf_del: "wf t \<Longrightarrow> wf (del k t)"
    and get_put: "wf t \<Longrightarrow> get k (put x t) = (if k = key x then Some x else get k t)"
    and get_del: "wf t \<Longrightarrow> get k (del k' t) = (if k = k' then None else get k t)"
    and get_key: "wf t \<Longrightarrow> get k t = Some x \<Longrightarrow> key x = k"
begin

text \<open>Updating objects that are there, each in turn, and nothing else.\<close>

definition put_or_del :: "('o \<Rightarrow> bool) \<Rightarrow> 'o \<Rightarrow> 't \<Rightarrow> 't" where
  "put_or_del gone x t = (if gone x then del (key x) t else put x t)"

lemma put_or_del_wf: "wf t \<Longrightarrow> wf (put_or_del gone x t)"
  by (simp add: put_or_del_def wf_put wf_del)

lemma put_or_del_get:
  "wf t \<Longrightarrow> get k (put_or_del gone x t) = (if k = key x then (if gone x then None else Some x) else get k t)"
  by (simp add: put_or_del_def get_put get_del)

lemma update_all:
  assumes "wf t" and "distinct (map key xs)" and "\<And>x. key (f x) = key x"
  shows "wf (fold (\<lambda>x. put_or_del gone (f x)) xs t) \<and>
     get k (fold (\<lambda>x. put_or_del gone (f x)) xs t) =
       (case find (\<lambda>x. key x = k) xs of
          Some x \<Rightarrow> if gone (f x) then None else Some (f x)
        | None \<Rightarrow> get k t)"
  using assms(1,2)
proof (induction xs arbitrary: t)
  case (Cons x xs)
  have "find (\<lambda>y. key y = key x) xs = None" using Cons.prems by (auto simp: find_None_iff image_iff)
  then show ?case
    using Cons.IH [OF put_or_del_wf [OF Cons.prems(1)], of gone "f x"] Cons.prems
    by (auto simp: put_or_del_get assms(3) split: option.splits)
qed simp

end

interpretation conn_table: object_table table_ok cn_ID GetConnection storeConnection removeConnection
proof unfold_locales
  fix s :: "'p ws_server" and i c
  assume "table_ok s" and "GetConnection i s = Some c"
  then show "cn_ID c = i" using table_okD [of s "shard_index i s" i c] shard_index_less [of s i]
    by (simp add: GetConnection_def)
qed (auto intro: table_ok_store table_ok_remove simp: GetConnection_store GetConnection_remove)

lemma write_back_table: "write_back c = conn_table.put_or_del cn_closed c"
  by (simp add: write_back_def conn_table.put_or_del_def fun_eq_iff)

section \<open>Snapshots\<close>

definition table_orders :: "(nat \<Rightarrow> string list) \<Rightarrow> 'p ws_server \<Rightarrow> bool" where
  "table_orders orders s \<longleftrightarrow> (\<forall>k<length (sv_shards s). iterates (orders k) (sv_shards s ! k))"

lemma snapshot_set:
  assumes "table_ok s" and "table_orders orders s"
  shows "c \<in> set (snapshotConnections orders s) \<longleftrightarrow> GetConnection (cn_ID c) s = Some c"
proof
  assume "c \<in> set (snapshotConnections orders s)"
  then obtain k i where k: "k < length (sv_shards s)" "(i, c) \<in> set (range_over (orders k) (sv_shards s ! k))"
    by (auto simp: snapshotConnections_def)
  then have "(sv_shards s ! k) i = Some c" by (auto simp: in_range_over)
  with table_okD [OF assms(1) k(1) this] show "GetConnection (cn_ID c) s = Some c"
    by (simp add: GetConnection_def)
next
  assume g: "GetConnection (cn_ID c) s = Some c"
  define k where "k = shard_index (cn_ID c) s"
  have k: "k < length (sv_shards s)" using shard_index_less [OF assms(1)] by (simp add: k_def)
  with assms(2) g have "(cn_ID c, c) \<in> set (range_over (orders k) (sv_shards s ! k))"
    by (simp add: table_orders_def GetConnection_def k_def)
  with k show "c \<in> set (snapshotConnections orders s)" by (force simp: snapshotConnections_def)
qed

lemma snapshot_distinct:
  assumes "table_ok s" and "table_orders orders s"
  shows "distinct (map cn_ID (snapshotConnections orders s))"
proof -
  have part: "map (cn_ID \<circ> snd) (range_over (orders k) (sv_shards s ! k)) = orders k"
    if k: "k < length (sv_shards s)" for k
  proof -
    have it: "iterates (orders k) (sv_shards s ! k)" using assms(2) k by (simp add: table_orders_def)
    have "map (cn_ID \<circ> snd) (range_over (orders k) (sv_shards s ! k)) =
        map fst (range_over (orders k) (sv_shards s ! k))"
      using table_okD [OF assms(1) k] by (auto simp: in_range_over)
    then show ?thesis using it by simp
  qed
  have "map cn_ID (snapshotConnections orders s) =
      concat (map (\<lambda>k. map (cn_ID \<circ> snd) (range_over (orders k) (sv_shards s ! k))) [0..<length (sv_shards s)])"
    by (simp add: snapshotConnections_def map_concat comp_def)
  also have "\<dots> = concat (map orders [0..<length (sv_shards s)])"
    by (rule arg_cong [of _ _ concat], rule map_cong) (simp_all add: part)
  also have "distinct \<dots>"
  proof (rule distinct_concat_upt)
    fix k assume "k < length (sv_shards s)"
    then show "distinct (orders k)" using assms(2) by (simp add: table_orders_def iterates_def)
  next
    fix j k x assume jk: "j < length (sv_shards s)" "k < length (sv_shards s)" "x \<in> set (orders j)" "x \<in> set (orders k)"
    then obtain c d where "(sv_shards s ! j) x = Some c" "(sv_shards s ! k) x = Some d"
      using assms(2) by (force simp: table_orders_def iterates_def)
    then show "j = k" using table_okD [OF assms(1)] jk(1,2) by metis
  qed
  finally show ?thesis .
qed

section \<open>Broadcasts\<close>

text \<open>What one send of a broadcast does to its connection.\<close>

definition send_one :: "'p write_errors \<Rightarrow> string \<times> 'p option \<Rightarrow> 'p connection \<Rightarrow> go_error option \<times> 'p connection" where
  "send_one werr msg c =
     (case conn_enqueueBroadcast \<lparr>om_data = fst msg, om_prepared = snd msg, om_messageType = BinaryMessage\<rparr> False c of
        (Some err, _, c1) \<Rightarrow> (Some err, c1)
      | (None, _, c1) \<Rightarrow> tryServeWriterInline werr c1)"

text \<open>A connection at rest: open, nothing waiting, no writer, and room for a broadcast.\<close>

definition at_rest :: "'p connection \<Rightarrow> bool" where
  "at_rest c \<longleftrightarrow> \<not> cn_closed c \<and> \<not> cn_writerRunning c \<and> pending c = 0 \<and>
     (case cn_broadcast c of Some ch \<Rightarrow> 0 < chan_cap ch | None \<Rightarrow> True)"

definition broadcast_frame :: "string \<times> 'p option \<Rightarrow> 'p frame" where
  "broadcast_frame msg = (case snd msg of Some p \<Rightarrow> Prepared p | None \<Rightarrow> Frame BinaryMessage (fst msg))"

lemma send_one_at_rest:
  assumes "at_rest c"
  shows "fst (send_one no_errors msg c) = None \<and> cn_ID (snd (send_one no_errors msg c)) = cn_ID c \<and>
     \<not> cn_closed (snd (send_one no_errors msg c)) \<and>
     cn_wire (snd (send_one no_errors msg c)) = cn_wire c @ [broadcast_frame msg]"
proof -
  define m where "m = \<lparr>om_data = fst msg, om_prepared = snd msg, om_messageType = BinaryMessage\<rparr>"
  obtain ch where ch: "cn_broadcast (ensureBroadcastQueue c) = Some ch" "0 < chan_cap ch" "chan_buf ch = []"
    using assms
    by (auto simp: at_rest_def pending_def broadcast_buf_def ensureBroadcastQueue_def Let_def
        defaultBroadcastQueueSize_def chan_make_def split: option.splits)
  define c2 where "c2 = (ensureBroadcastQueue c)\<lparr>cn_broadcast := Some (ch\<lparr>chan_buf := [m]\<rparr>)\<rparr>"
  have keep: "cn_closed c2 = cn_closed c" "cn_writerRunning c2 = cn_writerRunning c" "cn_ID c2 = cn_ID c"
    "cn_wire c2 = cn_wire c" "cn_send c2 = cn_send c"
    by (simp_all add: c2_def ensureBroadcastQueue_def Let_def split: option.splits)
  have "send_one no_errors msg c = (None, writePump no_errors (c2\<lparr>cn_writerRunning := True\<rparr>))"
    using assms ch keep
    by (simp add: send_one_def conn_enqueueBroadcast_def Let_def chan_trysend_def m_def [symmetric]
        tryServeWriterInline_def at_rest_def c2_def [symmetric])
  moreover have "moved c2 (writePump no_errors (c2\<lparr>cn_writerRunning := True\<rparr>))"
    using moved_writePump [of "c2\<lparr>cn_writerRunning := True\<rparr>"] by simp
  moreover have "broadcast_buf c2 = [m]" by (simp add: c2_def broadcast_buf_def)
  moreover have "chan_buf (cn_send c2) = []" using assms keep(5) by (simp add: at_rest_def pending_def)
  moreover have "frame_of m = broadcast_frame msg" by (cases "snd msg") (simp_all add: m_def frame_of_def broadcast_frame_def)
  ultimately show ?thesis
    using writePump_drains [of "c2\<lparr>cn_writerRunning := True\<rparr>"] assms keep
    by (auto simp: moved_def pending_0 at_rest_def)
qed

lemma sendBroadcastMessage_at_rest:
  "at_rest c \<Longrightarrow> sendBroadcastMessage (\<lambda>_. no_errors) msg c s = (None, write_back (snd (send_one no_errors msg c)) s)"
  using send_one_at_rest [of c msg]
  by (auto simp: sendBroadcastMessage_def send_one_def Let_def case_prod_unfold split: prod.splits option.splits)

lemma broadcast_conns_at_rest:
  "list_all at_rest cs \<Longrightarrow> broadcast_conns (\<lambda>_. no_errors) msg cs e s =
     (e, fold (\<lambda>c. write_back (snd (send_one no_errors msg c))) cs s)"
  by (induction cs arbitrary: s) (simp_all add: sendBroadcastMessage_at_rest)

lemma broadcast_each_at_rest:
  "list_all at_rest (concat parts) \<Longrightarrow> broadcast_each (\<lambda>_. no_errors) msg parts e s =
     (e, fold (\<lambda>c. write_back (snd (send_one no_errors msg c))) (concat parts) s)"
  by (induction parts arbitrary: s) (simp_all add: broadcast_conns_at_rest)

lemma concat_chunks: "0 < k \<Longrightarrow> concat (chunks k xs) = xs"
  by (induction k xs rule: chunks.induct) (subst chunks.simps, auto)

lemma length_chunks: "0 < k \<Longrightarrow> length (chunks k xs) = (length xs + k - 1) div k"
proof (induction k xs rule: chunks.induct)
  case (1 k xs)
  show ?case
  proof (cases "xs = []")
    case True
    then show ?thesis using 1 by (subst chunks.simps) simp
  next
    case False
    then have "length (chunks k (drop k xs)) = (length xs - k + k - 1) div k" using 1 by simp
    moreover have "Suc ((length xs - k + k - 1) div k) = (length xs + k - 1) div k"
    proof -
      have "length xs + k - 1 = (length xs - 1) + k" using False by (cases xs) simp_all
      then have "(length xs + k - 1) div k = Suc ((length xs - 1) div k)" using 1 by (simp only: div_add_self2)
      moreover have "length xs - 1 < k" if "\<not> k \<le> length xs" using that by linarith
      ultimately show ?thesis using 1 by (cases "k \<le> length xs") simp_all
    qed
    ultimately show ?thesis using False 1 by (subst chunks.simps) simp
  qed
qed

lemma ws_broadcast_partition:
  "concat (broadcast_parts procs conns) = conns \<and> [] \<notin> set (broadcast_parts procs conns) \<and>
     int (length (broadcast_parts procs conns)) \<le> broadcastWorkerCount procs (int (length conns))"
proof (cases "conns = []")
  case False
  define n where "n = int (length conns)"
  define w where "w = broadcastWorkerCount procs n"
  define k where "k = nat ((n + w - 1) div w)"
  have n: "1 \<le> n" using False by (cases conns) (simp_all add: n_def)
  have w: "1 \<le> w" "w \<le> n" using n by (auto simp: w_def broadcastWorkerCount_def Let_def)
  have "1 \<le> (n + w - 1) div w" using n w by (simp add: pos_imp_zdiv_pos_iff zdiv_mono1 [of w] int_one_le_iff_zero_less)
  then have k: "0 < k" "int k = (n + w - 1) div w" by (simp_all add: k_def)
  have parts: "broadcast_parts procs conns = chunks k conns"
    using False by (simp add: broadcast_parts_def Let_def n_def w_def k_def)
  have nonempty: "[] \<notin> set (chunks k xs)" for xs :: "'a list"
    using k(1) by (induction k xs rule: chunks.induct) (subst chunks.simps, auto)
  have "w * ((n + w - 1) div w) + (n + w - 1) mod w = n + w - 1" by simp
  moreover have "(n + w - 1) mod w \<le> w - 1" using w by (simp add: zle_diff1_eq)
  ultimately have "n \<le> w * int k" unfolding k(2) by linarith
  then have "n + int k - 1 < (w + 1) * int k" using k(1) by (simp add: algebra_simps)
  moreover have "(n + int k - 1) div int k * int k \<le> n + int k - 1"
    using div_mult_mod_eq [of "n + int k - 1" "int k"] pos_mod_sign [of "int k" "n + int k - 1"] k(1) by linarith
  ultimately have "(n + int k - 1) div int k * int k < (w + 1) * int k" by linarith
  then have "(n + int k - 1) div int k < w + 1" using k(1) by (simp only: mult_less_cancel_right)
  moreover have "int (length (chunks k conns)) = (n + int k - 1) div int k"
    using length_chunks [OF k(1), of conns] k(1) by (simp add: n_def zdiv_int of_nat_diff)
  ultimately show ?thesis
    using concat_chunks [OF k(1)] nonempty by (simp add: parts w_def [symmetric] n_def [symmetric])
qed (simp add: broadcast_parts_def broadcastWorkerCount_def)

section \<open>Properties\<close>

text \<open>
  The parallel broadcast sends to every connection once and never blocks on its error channel:
  its parts, put together, are the connections in their order, none is empty, and there are at most
  as many as the channel holds.
\<close>

theorem ws_broadcast_parts:
  "concat (broadcast_parts procs conns) = conns \<and> [] \<notin> set (broadcast_parts procs conns) \<and>
     int (length (broadcast_parts procs conns)) \<le> broadcastWorkerCount procs (int (length conns))"
  by (rule ws_broadcast_partition)

text \<open>
  C16: A broadcast of a value that can be encoded reaches every connection: when all connections
  are at rest and their writes succeed, it returns nil, each connection has been written exactly one
  more frame, that of the value, and the set of connections is unchanged; this on both the
  sequential path and the parallel one.
\<close>

theorem ws_broadcast_reaches_all:
  assumes "table_ok s" and "table_orders orders s"
    and "\<forall>i c. GetConnection i s = Some c \<longrightarrow> at_rest c"
    and "prepareBroadcastMessage marshal prepare data = Inr msg"
  shows "\<exists>s'. Broadcast procs orders (\<lambda>_. no_errors) marshal prepare data s = (None, s') \<and>
     (\<forall>i. map_option cn_wire (GetConnection i s') =
          map_option (\<lambda>c. cn_wire c @ [broadcast_frame msg]) (GetConnection i s))"
proof -
  define cs where "cs = snapshotConnections orders s"
  define f where "f = (\<lambda>c. snd (send_one no_errors msg c))"
  have mem: "c \<in> set cs \<longleftrightarrow> GetConnection (cn_ID c) s = Some c" for c
    unfolding cs_def by (rule snapshot_set [OF assms(1,2)])
  have rest: "list_all at_rest cs" using assms(3) mem by (auto simp: list_all_iff)
  define g where "g = (\<lambda>c. if at_rest c then f c else c)"
  have key: "cn_ID (g c) = cn_ID c" for c using send_one_at_rest [of c msg] by (simp add: g_def f_def)
  define s' where "s' = fold (\<lambda>c. conn_table.put_or_del cn_closed (g c)) cs s"
  have dist: "distinct (map cn_ID cs)" unfolding cs_def by (rule snapshot_distinct [OF assms(1,2)])
  have "fold (\<lambda>c. write_back (snd (send_one no_errors msg c))) cs s = s'"
    unfolding s'_def by (rule fold_cong) (use rest in \<open>auto simp: write_back_table g_def f_def list_all_iff\<close>)
  then have "Broadcast procs orders (\<lambda>_. no_errors) marshal prepare data s = (None, s')"
    using rest assms(4) conjunct1 [OF ws_broadcast_partition [of procs cs]]
    by (simp add: Broadcast_def Let_def cs_def [symmetric] broadcast_to_def broadcastParallel_def
        broadcast_conns_at_rest broadcast_each_at_rest)
  moreover have "map_option cn_wire (GetConnection i s') =
      map_option (\<lambda>c. cn_wire c @ [broadcast_frame msg]) (GetConnection i s)" for i
  proof -
    have get: "GetConnection i s' = (case find (\<lambda>c. cn_ID c = i) cs of
        Some c \<Rightarrow> if cn_closed (g c) then None else Some (g c) | None \<Rightarrow> GetConnection i s)"
      unfolding s'_def using conn_table.update_all [OF assms(1) dist key] by blast
    show ?thesis
    proof (cases "GetConnection i s")
      case None
      then have "find (\<lambda>c. cn_ID c = i) cs = None" using mem by (auto simp: find_None_iff)
      with None get show ?thesis by simp
    next
      case (Some c)
      then have id: "cn_ID c = i" using conn_table.get_key [OF assms(1)] by blast
      then have c: "c \<in> set cs" using Some mem by simp
      then have "find (\<lambda>c. cn_ID c = i) cs = Some c"
        using find_key_in [OF dist c] id by (simp add: find_key_def)
      moreover have "at_rest c" using rest c by (simp add: list_all_iff)
      ultimately show ?thesis
        using Some get send_one_at_rest [of c msg] by (simp add: g_def f_def)
    qed
  qed
  ultimately show ?thesis by blast
qed

definition server1 :: "unit ws_server" where
  "server1 = storeConnection (newConnection ''1'' None) (ws_NewServer [] ''0123456789'')"

definition orders1 :: "nat \<Rightarrow> string list" where
  "orders1 k = (if k = shard_index ''1'' server1 then [''1''] else [])"

lemma newConnection_ID [simp]: "cn_ID (newConnection i oo) = i"
  by (simp add: newConnection_def Let_def)

lemma GetConnection_new [simp]: "GetConnection i (ws_NewServer os uuid :: 'p ws_server) = None"
  using shard_index_less [of "ws_NewServer os uuid :: 'p ws_server" i, OF table_ok_new]
  by (simp add: GetConnection_def ws_NewServer_def newConnectionShards_def)

lemma server1_ok: "table_ok server1" "table_orders orders1 server1"
proof -
  show ok: "table_ok server1" unfolding server1_def by (intro table_ok_store table_ok_new)
  have "shard_index ''1'' server1 < length (sv_shards server1)" by (rule shard_index_less [OF ok])
  then show "table_orders orders1 server1"
    by (auto simp: table_orders_def orders1_def iterates_def server1_def storeConnection_def in_shard_nth
        ws_NewServer_def newConnectionShards_def shard_index_def)
qed

theorem ws_broadcast_reaches_all_witness:
  "\<exists>s'. Broadcast 4 orders1 (\<lambda>_. no_errors) (\<lambda>v :: unit. Inl ErrRange) (\<lambda>_. None) (DString ''hi'') server1 = (None, s') \<and>
     map_option cn_wire (GetConnection ''1'' s') = Some [Frame BinaryMessage ''hi'']"
proof -
  have get: "GetConnection i server1 = (if i = ''1'' then Some (newConnection ''1'' None) else None)" for i
    unfolding server1_def by (simp add: GetConnection_store [OF table_ok_new])
  have rest: "\<forall>i c. GetConnection i server1 = Some c \<longrightarrow> at_rest c"
    by (simp add: get at_rest_def newConnection_def Let_def pending_def broadcast_buf_def)
  have "prepareBroadcastMessage (\<lambda>v :: unit. Inl ErrRange) (\<lambda>_. None :: unit option) (DString ''hi'') = Inr (''hi'', None)"
    by (simp add: prepareBroadcastMessage_def)
  from ws_broadcast_reaches_all [OF server1_ok rest this, of 4]
  obtain s' where "Broadcast 4 orders1 (\<lambda>_. no_errors) (\<lambda>v :: unit. Inl ErrRange) (\<lambda>_. None) (DString ''hi'') server1 = (None, s')"
    and "map_option cn_wire (GetConnection ''1'' s') =
      map_option (\<lambda>c. cn_wire c @ [broadcast_frame (''hi'', None)]) (GetConnection ''1'' server1)"
    by blast
  then show ?thesis by (simp add: get broadcast_frame_def newConnection_def Let_def)
qed

lemma stopped_fields:
  "\<exists>s'. ws_Stop orders shutdown close (snd (ws_Start (ws_NewServer os uuid))) = (Ret (case shutdown of None \<Rightarrow> None | Some err \<Rightarrow> close), s') \<and>
     sv_started s' \<and> sv_stopping s' \<and> sv_hbStop s' \<and> sv_hbDone s' \<and> sv_schedulers s' = 0"
proof -
  have closed: "sv_hbStop (fold (\<lambda>c s. snd (closeConnection c s)) cs s) = sv_hbStop s"
    "sv_hbDone (fold (\<lambda>c s. snd (closeConnection c s)) cs s) = sv_hbDone s"
    "sv_started (fold (\<lambda>c s. snd (closeConnection c s)) cs s) = sv_started s"
    "sv_stopping (fold (\<lambda>c s. snd (closeConnection c s)) cs s) = sv_stopping s"
    "sv_schedulers (fold (\<lambda>c s. snd (closeConnection c s)) cs s) = sv_schedulers s"
    for cs and s :: "'p ws_server"
    by (induction cs arbitrary: s)
      (simp_all add: closeConnection_def removeConnection_def in_shard_def split: option.splits)
  show ?thesis
    by (simp add: ws_Stop_def ws_Start_def ws_NewServer_def Let_def schedulers_exit_def closed)
qed

lemma hbStop_fold: "sv_hbStop (fold (\<lambda>c s. snd (closeConnection c s)) cs s) = sv_hbStop s"
  by (induction cs arbitrary: s)
    (simp_all add: closeConnection_def removeConnection_def in_shard_def split: option.splits)

text \<open>
  A server cannot be stopped twice, nor used again after a stop.  A second \<open>Stop\<close> closes a
  closed channel and panics; after a restart every handshake is refused, and the new heartbeat
  goroutine panics as soon as it runs.
\<close>

theorem ws_stop_is_final:
  "\<exists>s. ws_Stop orders None None (snd (ws_Start (ws_NewServer os uuid :: 'p ws_server))) = (Ret None, s) \<and>
     fst (ws_Stop orders' shutdown close s) = Panicked ''close of closed channel'' \<and>
     fst (handleWebSocket True req (snd (ws_Start s))) = Refused 503 ''Server is shutting down'' \<and>
     fst (schedulers_exit (snd (ws_Start s))) = Panicked ''close of closed channel''"
proof -
  obtain s :: "'p ws_server" where s: "ws_Stop orders None None (snd (ws_Start (ws_NewServer os uuid))) = (Ret None, s)"
      "sv_started s" "sv_stopping s" "sv_hbStop s" "sv_hbDone s" "sv_schedulers s = 0"
    using stopped_fields [of orders None None os uuid] by auto
  have "fst (ws_Stop orders' shutdown close s) = Panicked ''close of closed channel''"
    using s by (simp add: ws_Stop_def Let_def hbStop_fold)
  moreover have "fst (handleWebSocket True req (snd (ws_Start s))) = Refused 503 ''Server is shutting down''"
    using s by (simp add: handleWebSocket_def ws_Start_def)
  moreover have "fst (schedulers_exit (snd (ws_Start s))) = Panicked ''close of closed channel''"
    using s by (simp add: schedulers_exit_def ws_Start_def)
  ultimately show ?thesis using s(1) by blast
qed

end
