(* ===== verification/WsAdmission.thy ===== *)
theory WsAdmission
  imports WsServer
begin

text \<open>
  Admission to the WebSocket server under every interleaving (\<open>handleWebSocket\<close>,
  \<open>tryAcquireConnectionSlot\<close>, \<open>nextConnectionID\<close>, \<open>removeConnection\<close>, \<open>snapshotConnections\<close> and \<open>Stop\<close> of
  \<open>transport/ws/ws.go\<close>): one step is one action on shared memory of one handshake, of a closing connection
  or of the stopping goroutine.  The table is the set of the identifiers stored, a store or a removal in
  it one step under the shard's lock; the counter is read and written without any lock, so that the removal
  of an entry and the decrement that follows it are two steps.  That the lock also keeps other users of the
  shard out between the two is left out, which only adds interleavings.
\<close>

section \<open>The steps\<close>

text \<open>Where a handshake is.\<close>

datatype hs_pc =
    AtStopping          \<comment> \<open>about to load \<open>stopping\<close>\<close>
  | AtLoad              \<comment> \<open>about to load \<open>activeCount\<close>\<close>
  | AtSwap "64 word"    \<comment> \<open>about to compare-and-swap it\<close>
  | Upgrading           \<comment> \<open>holds a slot\<close>
  | Releasing           \<comment> \<open>the upgrade failed\<close>
  | Numbering           \<comment> \<open>about to take a number\<close>
  | Storing "64 word"   \<comment> \<open>about to store the connection of that number\<close>

text \<open>
  Where \<open>Stop\<close> is: the flag is set; \<open>StopSnap k ns\<close> has read the first \<open>k\<close> shards, \<open>StopSweep ns\<close> has still to
  close the connections \<open>ns\<close> of its snapshot, \<open>StopCount ns\<close> has taken an entry out and has still to count it.
\<close>

datatype stop_pc =
    NotStopped
  | StopSnap nat "64 word list"
  | StopSweep "64 word list"
  | StopCount "64 word list"
  | Stopped

text \<open>
  \<open>ad_removing\<close>: the goroutines in \<open>removeConnection\<close> that have deleted their entry and not yet decremented
  the counter.  \<open>ad_given\<close> is no variable of the program: it counts the numbers handed out, beyond the
  64 bits of \<open>nextConnID\<close>.
\<close>

record admission =
  ad_max :: "64 word"
  ad_active :: "64 word"
  ad_stopping :: bool
  ad_next :: "64 word"
  ad_table :: "64 word set"
  ad_hs :: "hs_pc list"
  ad_removing :: nat
  ad_stop :: stop_pc
  ad_given :: nat

definition admission_init :: "64 word \<Rightarrow> admission" where
  "admission_init m = \<lparr>ad_max = m, ad_active = 0, ad_stopping = False, ad_next = 0, ad_table = {},
     ad_hs = [], ad_removing = 0, ad_stop = NotStopped, ad_given = 0\<rparr>"

text \<open>The identifier of a connection is its number in base 36; it decides on the shard.\<close>

definition conn_id :: "64 word \<Rightarrow> string" where
  "conn_id n = format_base 36 (unat n)"

definition conn_shard :: "64 word \<Rightarrow> nat" where
  "conn_shard n = unat (fnv32a (conn_id n) mod of_nat connectionShardCount)"

text \<open>One action of a handshake: where it is next, \<open>None\<close> when it has ended.  \<open>up\<close>: \<open>Upgrade\<close> succeeds.\<close>

fun hs_act :: "bool \<Rightarrow> hs_pc \<Rightarrow> admission \<Rightarrow> hs_pc option \<times> admission" where
  "hs_act up AtStopping s = (if ad_stopping s then (None, s) else (Some AtLoad, s))"
| "hs_act up AtLoad s =
     (if sint (ad_max s) \<le> 0 then (Some Upgrading, s\<lparr>ad_active := ad_active s + 1\<rparr>)
      else if sint (ad_active s) \<ge> sint (ad_max s) then (None, s)
      else (Some (AtSwap (ad_active s)), s))"
| "hs_act up (AtSwap current) s =
     (if ad_active s = current then (Some Upgrading, s\<lparr>ad_active := current + 1\<rparr>)
      else (Some AtLoad, s))"
| "hs_act up Upgrading s = (Some (if up then Numbering else Releasing), s)"
| "hs_act up Releasing s = (None, s\<lparr>ad_active := ad_active s - 1\<rparr>)"
| "hs_act up Numbering s =
     (Some (Storing (ad_next s + 1)), s\<lparr>ad_next := ad_next s + 1, ad_given := Suc (ad_given s)\<rparr>)"
| "hs_act up (Storing n) s = (None, s\<lparr>ad_table := insert n (ad_table s)\<rparr>)"

text \<open>One action of \<open>Stop\<close>; \<open>ns\<close> is how the range over the next shard's map lists it.\<close>

fun stop_act :: "64 word list \<Rightarrow> stop_pc \<Rightarrow> admission \<Rightarrow> stop_pc \<times> admission" where
  "stop_act ns NotStopped s = (StopSnap 0 [], s\<lparr>ad_stopping := True\<rparr>)"
| "stop_act ns (StopSnap k ids) s =
     (if k < connectionShardCount then (StopSnap (Suc k) (ids @ ns), s) else (StopSweep ids, s))"
| "stop_act ns (StopSweep []) s = (Stopped, s)"
| "stop_act ns (StopSweep (n # ids)) s =
     (if n \<in> ad_table s then (StopCount ids, s\<lparr>ad_table := ad_table s - {n}\<rparr>) else (StopSweep ids, s))"
| "stop_act ns (StopCount ids) s = (StopSweep ids, s\<lparr>ad_active := ad_active s - 1\<rparr>)"
| "stop_act ns Stopped s = (Stopped, s)"

fun shard_listed :: "64 word list \<Rightarrow> stop_pc \<Rightarrow> admission \<Rightarrow> bool" where
  "shard_listed ns (StopSnap k ids) s = (distinct ns \<and> set ns = {n \<in> ad_table s. conn_shard n = k})"
| "shard_listed ns _ s = True"

inductive ad_step :: "admission \<Rightarrow> admission \<Rightarrow> bool" where
  ad_arrive: "ad_step s (s\<lparr>ad_hs := ad_hs s @ [AtStopping]\<rparr>)"
| ad_handshake: "ad_hs s = as @ pc # bs \<Longrightarrow> hs_act up pc s = (pc', s') \<Longrightarrow>
     ad_step s (s'\<lparr>ad_hs := as @ opt_list pc' @ bs\<rparr>)"
| ad_delete: "n \<in> ad_table s \<Longrightarrow>
     ad_step s (s\<lparr>ad_table := ad_table s - {n}, ad_removing := Suc (ad_removing s)\<rparr>)"
| ad_decrement: "ad_removing s = Suc k \<Longrightarrow>
     ad_step s (s\<lparr>ad_removing := k, ad_active := ad_active s - 1\<rparr>)"
| ad_stops: "shard_listed ns (ad_stop s) s \<Longrightarrow> stop_act ns (ad_stop s) s = (pc', s') \<Longrightarrow>
     ad_step s (s'\<lparr>ad_stop := pc'\<rparr>)"

inductive_cases ad_stepE: "ad_step s s'"

section \<open>The invariant\<close>

fun holds_slot :: "hs_pc \<Rightarrow> bool" where
  "holds_slot Upgrading = True" | "holds_slot Releasing = True" | "holds_slot Numbering = True"
| "holds_slot (Storing n) = True" | "holds_slot _ = False"

definition storing :: "hs_pc list \<Rightarrow> 64 word list" where
  "storing hs = List.map_filter (\<lambda>pc. case pc of Storing n \<Rightarrow> Some n | _ \<Rightarrow> None) hs"

lemma storing_simps [simp]:
  "storing [] = []" "storing (as @ bs) = storing as @ storing bs" "storing (Storing n # hs) = n # storing hs"
  "storing (AtStopping # hs) = storing hs" "storing (AtLoad # hs) = storing hs"
  "storing (AtSwap c # hs) = storing hs" "storing (Upgrading # hs) = storing hs"
  "storing (Releasing # hs) = storing hs" "storing (Numbering # hs) = storing hs"
  by (simp_all add: storing_def List.map_filter_def)

text \<open>The removals that have still to be counted.\<close>

definition uncounted :: "admission \<Rightarrow> nat" where
  "uncounted s = ad_removing s + (case ad_stop s of StopCount ids \<Rightarrow> 1 | _ \<Rightarrow> 0)"

text \<open>
  What holds a slot: a stored connection, a handshake that acquired one, and an entry that was taken out of the
  table but not yet counted.
\<close>

definition slots :: "admission \<Rightarrow> nat" where
  "slots s = card (ad_table s) + length (filter holds_slot (ad_hs s)) + uncounted s"

text \<open>
  The counter is the number of slots taken, at its width; the limit is kept; a compare-and-swap can only
  succeed below the limit; no two connections have one number.
\<close>

definition count_ok :: "admission \<Rightarrow> bool" where
  "count_ok s \<longleftrightarrow> finite (ad_table s) \<and> ad_active s = of_nat (slots s)"

definition limit_ok :: "admission \<Rightarrow> bool" where
  "limit_ok s \<longleftrightarrow> (0 < sint (ad_max s) \<longrightarrow> int (slots s) \<le> sint (ad_max s)) \<and>
     (\<forall>c. AtSwap c \<in> set (ad_hs s) \<longrightarrow> sint c < sint (ad_max s))"

definition ids_ok :: "admission \<Rightarrow> bool" where
  "ids_ok s \<longleftrightarrow> distinct (storing (ad_hs s)) \<and> ad_table s \<inter> set (storing (ad_hs s)) = {} \<and>
     ad_next s = of_nat (ad_given s) \<and> (\<forall>n\<in>ad_table s \<union> set (storing (ad_hs s)). unat n \<le> ad_given s)"

definition ad_ok :: "admission \<Rightarrow> bool" where
  "ad_ok s \<longleftrightarrow> count_ok s \<and> limit_ok s \<and> ids_ok s"

lemma ad_ok_init: "ad_ok (admission_init m)"
  by (simp add: ad_ok_def admission_init_def count_ok_def limit_ok_def ids_ok_def slots_def uncounted_def)

lemma sint_of_nat_below:
  assumes "int k \<le> sint (m :: 64 word)"
  shows "sint (of_nat k :: 64 word) = int k"
proof -
  have "int k < 2 ^ (LENGTH(64) - 1)" using sint_lt [of m] assms by linarith
  then have "signed_take_bit (LENGTH(64) - 1) (int k) = int k"
    by (intro signed_take_bit_int_eq_self) simp_all
  with sint_sbintrunc' [of "int k", where 'a = 64] have "sint (word_of_int (int k) :: 64 word) = int k" by metis
  then show ?thesis by simp
qed

text \<open>A counter that equals one below the limit leaves room for one more.\<close>

lemma slot_free:
  assumes "count_ok s" and "limit_ok s" and "0 < sint (ad_max s)" and "sint (ad_active s) < sint (ad_max s)"
  shows "int (slots s) < sint (ad_max s)"
  using assms sint_of_nat_below [of "slots s" "ad_max s"] by (simp add: count_ok_def limit_ok_def)

lemma slots_hs: "slots (s\<lparr>ad_hs := hs\<rparr>) = card (ad_table s) + length (filter holds_slot hs) + uncounted s"
  by (simp add: slots_def uncounted_def)

lemma limit_ok_hs:
  assumes "hs_act up pc s = (pc', s')" and "ad_hs s = as @ pc # bs" and "count_ok s" and "limit_ok s" and "ids_ok s"
  shows "limit_ok (s'\<lparr>ad_hs := as @ opt_list pc' @ bs\<rparr>)"
proof (cases pc)
  case (AtSwap c)
  have c: "sint c < sint (ad_max s)" using assms(2,4) AtSwap by (simp add: limit_ok_def)
  show ?thesis
  proof (cases "ad_active s = c")
    case True
    with slot_free [OF assms(3,4)] c have "0 < sint (ad_max s) \<Longrightarrow> int (slots s) < sint (ad_max s)" by simp
    then show ?thesis using assms AtSwap True by (auto simp: limit_ok_def slots_def uncounted_def)
  next
    case False
    then show ?thesis using assms AtSwap by (auto simp: limit_ok_def slots_def uncounted_def)
  qed
next
  case (Storing n)
  then have "n \<notin> ad_table s" "finite (ad_table s)" using assms(2,3,5) by (auto simp: ids_ok_def count_ok_def)
  then show ?thesis using assms Storing by (auto simp: limit_ok_def slots_def uncounted_def)
qed (use assms in \<open>auto simp: limit_ok_def slots_def uncounted_def split: if_splits\<close>)

lemma count_ok_hs:
  "hs_act up pc s = (pc', s') \<Longrightarrow> ad_hs s = as @ pc # bs \<Longrightarrow> ids_ok s \<Longrightarrow> count_ok s \<Longrightarrow>
     count_ok (s'\<lparr>ad_hs := as @ opt_list pc' @ bs\<rparr>)"
  by (cases pc) (auto simp: count_ok_def ids_ok_def slots_def uncounted_def algebra_simps split: if_splits)

lemma ids_ok_hs:
  assumes "hs_act up pc s = (pc', s')" and "ad_hs s = as @ pc # bs" and "ids_ok s"
    and "ad_given s' < 2 ^ 64"
  shows "ids_ok (s'\<lparr>ad_hs := as @ opt_list pc' @ bs\<rparr>)"
proof (cases pc)
  case Numbering
  then have s': "s' = s\<lparr>ad_next := ad_next s + 1, ad_given := Suc (ad_given s)\<rparr>" "pc' = Some (Storing (ad_next s + 1))"
    using assms(1) by simp_all
  define new where "new = ad_next s + 1"
  have "new = of_nat (Suc (ad_given s))" using assms(3) by (simp add: new_def ids_ok_def)
  then have new: "unat new = Suc (ad_given s)"
    using assms(4) s' unat_of_nat [of "Suc (ad_given s)", where 'a = 64] by simp
  have le: "unat n \<le> ad_given s" if "n \<in> ad_table s \<or> n \<in> set (storing as) \<or> n \<in> set (storing bs)" for n
    using assms(2,3) that Numbering by (auto simp: ids_ok_def)
  then have "new \<notin> ad_table s" "new \<notin> set (storing as)" "new \<notin> set (storing bs)"
    using new Suc_n_not_le_n by fastforce+
  moreover have "n \<in> ad_table s \<or> n \<in> set (storing as) \<or> n \<in> set (storing bs) \<Longrightarrow> unat n \<le> Suc (ad_given s)" for n
    using le le_SucI by blast
  moreover have "ad_next s + 1 = of_nat (Suc (ad_given s))" using assms(3) by (simp add: ids_ok_def)
  ultimately show ?thesis using assms(2,3) Numbering new unfolding s' new_def [symmetric] by (auto simp: ids_ok_def)
qed (use assms in \<open>simp_all add: ids_ok_def split: if_splits, auto\<close>)

lemma card_taken: "finite T \<Longrightarrow> n \<in> T \<Longrightarrow> card T = Suc (card (T - {n}))"
  by (rule card.remove)

lemma ad_ok_taken:
  assumes "ad_ok s" and "n \<in> ad_table s" and "ad_table s' = ad_table s - {n}" and "uncounted s' = Suc (uncounted s)"
    and "ad_hs s' = ad_hs s" "ad_max s' = ad_max s" "ad_active s' = ad_active s" "ad_next s' = ad_next s" "ad_given s' = ad_given s"
  shows "ad_ok s'"
proof -
  have fin: "finite (ad_table s)" using assms(1) by (simp add: ad_ok_def count_ok_def)
  have "card (ad_table s) = Suc (card (ad_table s'))" using card_taken [OF fin assms(2)] assms(3) by simp
  then have "slots s' = slots s" using assms(4,5) by (simp add: slots_def)
  then show ?thesis using assms fin by (auto simp: ad_ok_def count_ok_def limit_ok_def ids_ok_def)
qed

lemma ad_ok_counted:
  assumes "ad_ok s" and "uncounted s = Suc (uncounted s')" and "ad_active s' = ad_active s - 1"
    and "ad_table s' = ad_table s" "ad_hs s' = ad_hs s" "ad_max s' = ad_max s" "ad_next s' = ad_next s" "ad_given s' = ad_given s"
  shows "ad_ok s'"
proof -
  have "slots s = Suc (slots s')" using assms(2,4,5) by (simp add: slots_def)
  then show ?thesis using assms by (auto simp: ad_ok_def count_ok_def limit_ok_def ids_ok_def)
qed

lemma ad_ok_same:
  assumes "ad_ok s" and "uncounted s' = uncounted s" and "ad_active s' = ad_active s"
    and "ad_table s' = ad_table s" "ad_hs s' = ad_hs s" "ad_max s' = ad_max s" "ad_next s' = ad_next s" "ad_given s' = ad_given s"
  shows "ad_ok s'"
  using assms by (auto simp: ad_ok_def count_ok_def limit_ok_def ids_ok_def slots_def)

lemma ad_ok_stops:
  assumes "ad_ok s" and "stop_act ns (ad_stop s) s = (pc', s')"
  shows "ad_ok (s'\<lparr>ad_stop := pc'\<rparr>)"
proof (cases "ad_stop s")
  case (StopSweep ids)
  show ?thesis
  proof (cases ids)
    case Nil
    then show ?thesis using assms StopSweep by (auto intro: ad_ok_same simp: uncounted_def)
  next
    case (Cons n rest)
    show ?thesis
    proof (cases "n \<in> ad_table s")
      case True
      then show ?thesis using assms(2) StopSweep Cons
        by (intro ad_ok_taken [OF assms(1) True]) (auto simp: uncounted_def)
    next
      case False
      then show ?thesis using assms StopSweep Cons by (auto intro: ad_ok_same simp: uncounted_def)
    qed
  qed
next
  case (StopCount ids)
  then show ?thesis using assms(2) by (intro ad_ok_counted [OF assms(1)]) (auto simp: uncounted_def)
qed (use assms in \<open>auto intro!: ad_ok_same [OF assms(1)] simp: uncounted_def split: if_splits\<close>)

lemma given_mono: "ad_step s s' \<Longrightarrow> ad_given s \<le> ad_given s'"
proof (induction rule: ad_step.induct)
  case (ad_handshake s as pc bs up pc' s')
  then show ?case by (cases pc) (auto split: if_splits)
next
  case (ad_stops ns s pc' s')
  then show ?case by (cases "(ns, ad_stop s, s)" rule: stop_act.cases) (auto split: if_splits)
qed simp_all

lemma ad_ok_step: "ad_step s s' \<Longrightarrow> ad_ok s \<Longrightarrow> ad_given s' < 2 ^ 64 \<Longrightarrow> ad_ok s'"
proof (induction rule: ad_step.induct)
  case (ad_arrive s)
  then show ?case by (auto simp: ad_ok_def count_ok_def limit_ok_def ids_ok_def slots_def uncounted_def)
next
  case (ad_handshake s as pc bs up pc' s')
  then show ?case
    unfolding ad_ok_def by (intro conjI limit_ok_hs count_ok_hs ids_ok_hs) auto
next
  case (ad_delete n s)
  then show ?case by (intro ad_ok_taken [OF ad_delete(2,1)]) (simp_all add: uncounted_def)
next
  case (ad_decrement s k)
  then show ?case by (intro ad_ok_counted [OF ad_decrement(2)]) (simp_all add: uncounted_def)
next
  case (ad_stops ns s pc' s')
  then show ?case by (intro ad_ok_stops)
qed

lemma ad_ok_reachable: "ad_step\<^sup>*\<^sup>* (admission_init m) s \<Longrightarrow> ad_given s < 2 ^ 64 \<Longrightarrow> ad_ok s"
proof (induction rule: rtranclp_induct)
  case (step s s')
  then show ?case using given_mono [OF step(2)] ad_ok_step [OF step(2)] by simp
qed (rule ad_ok_init)

lemma conn_id_eq [simp]: "conn_id m = conn_id n \<longleftrightarrow> m = n"
proof
  assume "conn_id m = conn_id n"
  then have "unat m = unat n" using format_base_inj [of 36 "unat m" "unat n"] by (simp add: conn_id_def)
  then show "m = n" by (rule unsigned_word_eqI)
qed simp

section \<open>Runs\<close>

text \<open>A schedule that lets one handshake run: how often it moves, and whether its upgrade succeeds.\<close>

fun hs_run :: "nat \<Rightarrow> bool \<Rightarrow> admission \<Rightarrow> admission" where
  "hs_run 0 up s = s"
| "hs_run (Suc n) up s =
     (case ad_hs s of
        [] \<Rightarrow> s
      | pc # bs \<Rightarrow> (let (pc', s') = hs_act up pc s in hs_run n up (s'\<lparr>ad_hs := opt_list pc' @ bs\<rparr>)))"

lemma hs_run_steps: "ad_step\<^sup>*\<^sup>* s (hs_run n up s)"
proof (induction n arbitrary: s)
  case (Suc n)
  show ?case
  proof (cases "ad_hs s")
    case (Cons pc bs)
    obtain pc' s' where a: "hs_act up pc s = (pc', s')" by fastforce
    have "ad_step s (s'\<lparr>ad_hs := opt_list pc' @ bs\<rparr>)"
      using ad_handshake [of s "[]" pc bs, OF _ a] Cons by simp
    with Suc.IH [of "s'\<lparr>ad_hs := opt_list pc' @ bs\<rparr>"] Cons a show ?thesis
      by (auto intro: converse_rtranclp_into_rtranclp)
  qed simp
qed simp

definition arrived :: "admission \<Rightarrow> admission" where
  "arrived s = s\<lparr>ad_hs := ad_hs s @ [AtStopping]\<rparr>"

lemma arrived_run: "ad_step\<^sup>*\<^sup>* s (hs_run n up (arrived s))"
  unfolding arrived_def using ad_arrive hs_run_steps by (rule converse_rtranclp_into_rtranclp)

text \<open>The steps of a \<open>Stop\<close> that finds an empty table, with nothing in between.\<close>

fun stop_run :: "nat \<Rightarrow> admission \<Rightarrow> admission" where
  "stop_run 0 s = s"
| "stop_run (Suc n) s = (let (pc', s') = stop_act [] (ad_stop s) s in stop_run n (s'\<lparr>ad_stop := pc'\<rparr>))"

lemma stop_run_steps: "ad_table s = {} \<Longrightarrow> ad_step\<^sup>*\<^sup>* s (stop_run n s)"
proof (induction n arbitrary: s)
  case (Suc n)
  obtain pc' s' where a: "stop_act [] (ad_stop s) s = (pc', s')" by fastforce
  have "shard_listed [] (ad_stop s) s" using Suc.prems by (cases "ad_stop s") simp_all
  from ad_stops [OF this a] have "ad_step s (s'\<lparr>ad_stop := pc'\<rparr>)" .
  moreover have "ad_table s' = {}"
    using a Suc.prems by (cases "([] :: 64 word list, ad_stop s, s)" rule: stop_act.cases) (auto split: if_splits)
  ultimately show ?case using Suc.IH [of "s'\<lparr>ad_stop := pc'\<rparr>"] a by (auto intro: converse_rtranclp_into_rtranclp)
qed simp

section \<open>Properties\<close>

text \<open>
  C9: Whatever handshakes, closings and a stop run at once, the counter of active connections is, at its 64
  bits, the number of slots taken: of the stored connections, of the handshakes that hold a slot, and of
  the connections taken out of the table whose removal has not been counted yet.  With a limit set the slots
  taken, and so the connections stored, never exceed it, and a connection is never stored under the
  identifier of another one, nor do two handshakes under way have the same (as long as fewer than \<open>2 ^ 64\<close>
  numbers have been handed out, after which \<open>nextConnID\<close> wraps).
\<close>

theorem ws_admission_invariant:
  assumes "ad_step\<^sup>*\<^sup>* (admission_init m) s" and "ad_given s < 2 ^ 64"
  shows "ad_active s = of_nat (card (ad_table s) + length (filter holds_slot (ad_hs s)) + uncounted s) \<and>
     (if 0 < sint (ad_max s)
      then int (card (ad_table s) + length (filter holds_slot (ad_hs s)) + uncounted s) \<le> sint (ad_max s) else True) \<and>
     (\<nexists>n k. Storing n \<in> set (ad_hs s) \<and> k \<in> ad_table s \<and> conn_id n = conn_id k) \<and>
     distinct (map conn_id (storing (ad_hs s)))"
proof -
  have ok: "count_ok s" "limit_ok s" "ids_ok s" using ad_ok_reachable [OF assms] by (simp_all add: ad_ok_def)
  have "Storing n \<in> set hs \<Longrightarrow> n \<in> set (storing hs)" for n hs
    by (force simp: storing_def List.map_filter_def)
  then have "\<nexists>n k. Storing n \<in> set (ad_hs s) \<and> k \<in> ad_table s \<and> conn_id n = conn_id k"
    using ok(3) by (fastforce simp: ids_ok_def)
  moreover have "distinct (map conn_id (storing (ad_hs s)))"
    using ok(3) by (simp add: ids_ok_def distinct_map inj_on_def)
  ultimately show ?thesis using ok(1,2) unfolding count_ok_def limit_ok_def slots_def by simp
qed

theorem ws_admission_invariant_witness:
  "(let s = hs_run 4 False (arrived (hs_run 6 True (arrived (admission_init 1))))
    in ad_table s = {1} \<and> ad_active s = of_nat (1 + length (filter holds_slot (ad_hs s)) + uncounted s))"
proof -
  define s where "s = hs_run 4 False (arrived (hs_run 6 True (arrived (admission_init 1))))"
  have "ad_step\<^sup>*\<^sup>* (admission_init 1) s" unfolding s_def using arrived_run arrived_run by (rule rtranclp_trans)
  moreover have t: "ad_table s = {1}" "ad_given s = 1"
    by (simp_all add: s_def arrived_def admission_init_def numeral_eq_Suc)
  ultimately have "ad_active s = of_nat (card (ad_table s) + length (filter holds_slot (ad_hs s)) + uncounted s)"
    using ws_admission_invariant [of 1 s] by simp
  then show ?thesis using t unfolding s_def [symmetric] by (simp add: Let_def)
qed

text \<open>
  The counter is not the number of stored connections at every moment: between the removal of an entry and the
  decrement a handshake that reads it is refused although the table has room.
\<close>

theorem ws_count_lags_behind_table:
  "\<exists>s. ad_step\<^sup>*\<^sup>* (admission_init 1) s \<and> ad_table s = {} \<and> ad_hs s = [] \<and> ad_active s = 1 \<and>
     hs_act up AtLoad s = (None, s)"
proof -
  define s where "s = hs_run 6 True (arrived (admission_init 1))"
  define t where "t = s\<lparr>ad_table := ad_table s - {1}, ad_removing := Suc (ad_removing s)\<rparr>"
  have s: "ad_table s = {1}" "ad_hs s = []" "ad_active s = 1" "ad_max s = 1"
    by (simp_all add: s_def arrived_def admission_init_def numeral_eq_Suc)
  have "ad_step s t" unfolding t_def by (rule ad_delete) (simp add: s)
  moreover have "ad_step\<^sup>*\<^sup>* (admission_init 1) s" unfolding s_def by (rule arrived_run)
  ultimately have "ad_step\<^sup>*\<^sup>* (admission_init 1) t" by simp
  moreover have "ad_table t = {}" "ad_hs t = []" "ad_active t = 1" "ad_max t = 1" by (simp_all add: t_def s)
  moreover from this have "hs_act up AtLoad t = (None, t)" by simp
  ultimately show ?thesis by blast
qed

text \<open>
  A connection can outlive \<open>Stop\<close>: a handshake that read the flag before \<open>Stop\<close> set it stores its
  connection after \<open>Stop\<close> has closed all it knew of, and nothing closes it any more.
\<close>

theorem ws_connection_outlives_stop:
  "\<exists>s. ad_step\<^sup>*\<^sup>* (admission_init 0) s \<and> ad_stop s = Stopped \<and> ad_table s = {1} \<and> ad_hs s = []"
proof -
  define s1 where "s1 = hs_run 1 True (arrived (admission_init 0))"
  define s2 where "s2 = stop_run 35 s1"
  have s1: "ad_table s1 = {}" by (simp add: s1_def arrived_def admission_init_def)
  have "ad_step\<^sup>*\<^sup>* (admission_init 0) s1" unfolding s1_def by (rule arrived_run)
  also have "ad_step\<^sup>*\<^sup>* s1 s2" unfolding s2_def by (rule stop_run_steps [OF s1])
  also have "ad_step\<^sup>*\<^sup>* s2 (hs_run 4 True s2)" by (rule hs_run_steps)
  finally have "ad_step\<^sup>*\<^sup>* (admission_init 0) (hs_run 4 True s2)" .
  moreover have "s2 = s1\<lparr>ad_stopping := True, ad_stop := Stopped\<rparr>"
    by (simp add: s2_def s1_def arrived_def admission_init_def connectionShardCount_def numeral_eq_Suc)
  then have "ad_stop (hs_run 4 True s2) = Stopped \<and> ad_table (hs_run 4 True s2) = {1} \<and> ad_hs (hs_run 4 True s2) = []"
    by (simp add: s1_def arrived_def admission_init_def numeral_eq_Suc)
  ultimately show ?thesis by blast
qed

end
