(* ===== verification/WsClient.thy ===== *)
theory WsClient
  imports HttpBase
begin

text \<open>
  The WebSocket client (\<open>client/ws\<close>): its options, sending, and the life of its connection under every
  interleaving of its goroutines (\<open>Connect\<close>, \<open>Close\<close>, the read and the write pump of every connection it
  made, the reconnect loop).  One step is one access to the shared state, or one section under its
  lock.  The dialer and the socket are the environment: each step's choice says what they answer.
\<close>

section \<open>Options\<close>

record wc_options =
  wc_URL :: string
  wc_Headers :: "string \<Rightarrow> string option"
  wc_DialTimeout :: duration
  wc_ReadTimeout :: duration
  wc_WriteTimeout :: duration
  wc_PingInterval :: duration
  wc_PongTimeout :: duration
  wc_MaxMessageSize :: int
  wc_ReadBufferSize :: int
  wc_WriteBufferSize :: int
  wc_EnableCompression :: bool
  wc_AutoReconnect :: bool
  wc_ReconnectInterval :: duration
  wc_MaxReconnectAttempts :: int
  wc_Subprotocols :: "string list"

definition wc_DefaultOptions :: wc_options where
  "wc_DefaultOptions =
     \<lparr>wc_URL = ''ws://localhost:8080/ws'', wc_Headers = (\<lambda>_. None), wc_DialTimeout = second * 10,
      wc_ReadTimeout = second * 60, wc_WriteTimeout = second * 10, wc_PingInterval = second * 30,
      wc_PongTimeout = second * 10, wc_MaxMessageSize = 512 * 1024, wc_ReadBufferSize = 1024,
      wc_WriteBufferSize = 1024, wc_EnableCompression = False, wc_AutoReconnect = True,
      wc_ReconnectInterval = second * 5, wc_MaxReconnectAttempts = 10, wc_Subprotocols = []\<rparr>"

datatype wc_option =
    WcURL string | WcHeaders "string \<Rightarrow> string option" | WcHeader string string | WcDialTimeout duration
  | WcTimeout duration duration | WcPing duration duration | WcMaxMessageSize int | WcBufferSize int int
  | WcCompression bool | WcAutoReconnect bool duration int | WcSubprotocols "string list"



fun apply_wc_option :: "wc_option \<Rightarrow> wc_options \<Rightarrow> wc_options" where
  "apply_wc_option (WcURL url) oo = oo\<lparr>wc_URL := url\<rparr>"
| "apply_wc_option (WcHeaders h) oo = oo\<lparr>wc_Headers := h\<rparr>"
| "apply_wc_option (WcHeader k v) oo = oo\<lparr>wc_Headers := (wc_Headers oo)(canonical_key k \<mapsto> v)\<rparr>"
| "apply_wc_option (WcDialTimeout d) oo = oo\<lparr>wc_DialTimeout := d\<rparr>"
| "apply_wc_option (WcTimeout r w) oo = oo\<lparr>wc_ReadTimeout := r, wc_WriteTimeout := w\<rparr>"
| "apply_wc_option (WcPing i t) oo = oo\<lparr>wc_PingInterval := i, wc_PongTimeout := t\<rparr>"
| "apply_wc_option (WcMaxMessageSize n) oo = oo\<lparr>wc_MaxMessageSize := n\<rparr>"
| "apply_wc_option (WcBufferSize r w) oo = oo\<lparr>wc_ReadBufferSize := r, wc_WriteBufferSize := w\<rparr>"
| "apply_wc_option (WcCompression b) oo = oo\<lparr>wc_EnableCompression := b\<rparr>"
| "apply_wc_option (WcAutoReconnect b d n) oo =
     oo\<lparr>wc_AutoReconnect := b, wc_ReconnectInterval := d, wc_MaxReconnectAttempts := n\<rparr>"
| "apply_wc_option (WcSubprotocols ps) oo = oo\<lparr>wc_Subprotocols := ps\<rparr>"

section \<open>State\<close>

definition WcErrNotConnected :: go_error where
  "WcErrNotConnected = Err ''not connected''"

definition WcErrClosed :: go_error where
  "WcErrClosed = Err ''client is closed''"

text \<open>
  Where a goroutine is.  A write pump holds a message, or \<open>None\<close> for a ping; a read pump holds the
  connection its \<open>ReadMessage\<close> is blocked on.  \<open>DropErr\<close> is the call of \<open>handleDisconnect\<close> after a read
  error, \<open>DropDefer\<close> the deferred one.
\<close>

datatype wc_pc =
    ConnectCheck | ConnectDial
  | WcCloseFlag | WcCloseChan | WcCloseConn
  | ReadInit | Reading | Blocked nat | DropErr | AfterErr | DropDefer | AfterDefer
  | Writing | Deadline "string option" | WriteNow "string option"
  | RecStart | RecLoop | RecCount | RecDialing | RecDone

record wc_sys =
  wy_conn :: "nat option"
  wy_live :: "nat set"  \<comment> \<open>sockets not closed\<close>
  wy_next :: nat
  wy_send :: "string chan"
  wy_done :: bool
  wy_closed :: bool
  wy_connected :: bool
  wy_reconnecting :: bool
  wy_count :: int
  wy_threads :: "wc_pc list"
  wy_panicked :: bool
  wy_failed :: int  \<comment> \<open>reconnect dials that failed since the last connection was made\<close>

definition wc_NewClient :: wc_sys where
  "wc_NewClient = \<lparr>wy_conn = None, wy_live = {}, wy_next = 0, wy_send = chan_make 256, wy_done = False,
     wy_closed = False, wy_connected = False, wy_reconnecting = False, wy_count = 0, wy_threads = [],
     wy_panicked = False, wy_failed = 0\<rparr>"

section \<open>Sending\<close>

datatype 'u wc_data = WcBytes string | WcText string | WcOther 'u

text \<open>The result of the \<open>select\<close>: a send on a channel with room, or the closed \<open>done\<close>, in any order.\<close>

definition wc_SendRaw :: "string \<Rightarrow> wc_sys \<Rightarrow> (go_error option \<times> wc_sys) list" where
  "wc_SendRaw m s =
     (if \<not> wy_connected s then [(Some WcErrNotConnected, s)]
      else (let ready = (case chan_trysend m (wy_send s) of Some c \<Rightarrow> [(None, s\<lparr>wy_send := c\<rparr>)] | None \<Rightarrow> [])
                  @ (if wy_done s then [(Some WcErrClosed, s)] else [])
            in if ready = [] then [(Some (Err ''send buffer full''), s)] else ready))"

definition wc_Send :: "('u \<Rightarrow> string result) \<Rightarrow> 'u wc_data \<Rightarrow> wc_sys \<Rightarrow> (go_error option \<times> wc_sys) list" where
  "wc_Send marshal d s =
     (if \<not> wy_connected s then [(Some WcErrNotConnected, s)]
      else (case (case d of WcBytes v \<Rightarrow> Inr v | WcText v \<Rightarrow> Inr v | WcOther u \<Rightarrow> marshal u) of
              Inl err \<Rightarrow> [(Some err, s)]
            | Inr msg \<Rightarrow>
                (let ready = (case chan_trysend msg (wy_send s) of Some c \<Rightarrow> [(None, s\<lparr>wy_send := c\<rparr>)] | None \<Rightarrow> [])
                       @ (if wy_done s then [(Some WcErrClosed, s)] else [])
                 in if ready = [] then [(Some (Err ''send buffer full''), s)] else ready)))"

definition wc_IsConnected :: "wc_sys \<Rightarrow> bool" where
  "wc_IsConnected s = wy_connected s"

section \<open>The goroutines\<close>

text \<open>What the environment answers, and which case a \<open>select\<close> takes.\<close>

datatype wc_choice = Succeed | Break | TakeMessage | TakeTick | TakeDone

definition wc_panic :: "wc_sys \<Rightarrow> (wc_pc list \<times> wc_sys) option" where
  "wc_panic s = Some ([], s\<lparr>wy_panicked := True\<rparr>)"

definition wc_dialled :: "wc_sys \<Rightarrow> wc_sys" where
  "wc_dialled s = s\<lparr>wy_conn := Some (wy_next s), wy_live := insert (wy_next s) (wy_live s), wy_next := wy_next s + 1,
     wy_connected := True, wy_count := 0, wy_failed := 0\<rparr>"

text \<open>The first section of \<open>handleDisconnect\<close>.\<close>

definition wc_drop :: "wc_sys \<Rightarrow> wc_sys" where
  "wc_drop s = s\<lparr>wy_connected := False, wy_live := wy_live s - set_option (wy_conn s), wy_conn := None\<rparr>"

text \<open>
  One action of a goroutine: the goroutines that go on (itself, if it does, and those it starts), or
  \<open>None\<close> when the choice is not possible there.
\<close>

fun wc_act :: "wc_options \<Rightarrow> wc_choice \<Rightarrow> wc_pc \<Rightarrow> wc_sys \<Rightarrow> (wc_pc list \<times> wc_sys) option" where
  "wc_act oo ch ConnectCheck s = Some (if wy_closed s then [] else [ConnectDial], s)"
| "wc_act oo ch ConnectDial s =
     (if wy_connected s then Some ([], s)
      else case ch of Succeed \<Rightarrow> Some ([ReadInit, Writing], wc_dialled s) | Break \<Rightarrow> Some ([], s) | _ \<Rightarrow> None)"
| "wc_act oo ch WcCloseFlag s = (if wy_closed s then Some ([], s) else Some ([WcCloseChan], s\<lparr>wy_closed := True\<rparr>))"
| "wc_act oo ch WcCloseChan s =
     (if wy_done s then wc_panic s else Some ([WcCloseConn], s\<lparr>wy_done := True\<rparr>))"
| "wc_act oo ch WcCloseConn s =
     Some ([], s\<lparr>wy_live := wy_live s - set_option (wy_conn s), wy_connected := False\<rparr>)"
| "wc_act oo ch ReadInit s = (if wy_conn s = None then wc_panic s else Some ([Reading], s))"
| "wc_act oo ch Reading s = (case wy_conn s of None \<Rightarrow> wc_panic s | Some c \<Rightarrow> Some ([Blocked c], s))"
| "wc_act oo ch (Blocked c) s =
     (case ch of Succeed \<Rightarrow> if c \<in> wy_live s then Some ([Reading], s) else None
      | Break \<Rightarrow> Some ([DropErr], s) | _ \<Rightarrow> None)"
| "wc_act oo ch DropErr s = Some ([if wy_connected s then AfterErr else DropDefer], wc_drop s)"
| "wc_act oo ch AfterErr s =
     Some (DropDefer # (if \<not> wy_closed s \<and> wc_AutoReconnect oo then [RecStart] else []), s)"
| "wc_act oo ch DropDefer s = Some (if wy_connected s then [AfterDefer] else [], wc_drop s)"
| "wc_act oo ch AfterDefer s = Some (if \<not> wy_closed s \<and> wc_AutoReconnect oo then [RecStart] else [], s)"
| "wc_act oo ch Writing s =
     (case ch of
        TakeMessage \<Rightarrow> (case chan_recv (wy_send s) of Some (m, c) \<Rightarrow> Some ([Deadline (Some m)], s\<lparr>wy_send := c\<rparr>) | None \<Rightarrow> None)
      | TakeTick \<Rightarrow> Some ([Deadline None], s)
      | TakeDone \<Rightarrow> if wy_done s then Some ([], s) else None
      | _ \<Rightarrow> None)"
| "wc_act oo ch (Deadline m) s = (if wy_conn s = None then wc_panic s else Some ([WriteNow m], s))"
| "wc_act oo ch (WriteNow m) s =
     (case wy_conn s of
        None \<Rightarrow> wc_panic s
      | Some c \<Rightarrow> (case ch of Succeed \<Rightarrow> if c \<in> wy_live s then Some ([Writing], s) else None
                   | Break \<Rightarrow> Some ([], s) | _ \<Rightarrow> None))"
| "wc_act oo ch RecStart s =
     (if wy_reconnecting s \<or> wy_closed s then Some ([], s) else Some ([RecLoop], s\<lparr>wy_reconnecting := True\<rparr>))"
| "wc_act oo ch RecLoop s =
     Some (if wy_closed s then [RecDone]
           else if wc_MaxReconnectAttempts oo > 0 \<and> wy_count s \<ge> wc_MaxReconnectAttempts oo then [RecDone]
           else [RecCount], s)"
| "wc_act oo ch RecCount s = Some ([RecDialing], s\<lparr>wy_count := wy_count s + 1\<rparr>)"
| "wc_act oo ch RecDialing s =
     (if wy_connected s then Some ([RecDone], s)
      else case ch of
             Succeed \<Rightarrow> Some ([RecDone, ReadInit, Writing], wc_dialled s)
           | Break \<Rightarrow> Some ([RecLoop], s\<lparr>wy_failed := wy_failed s + 1\<rparr>)
           | _ \<Rightarrow> None)"
| "wc_act oo ch RecDone s = Some ([], s\<lparr>wy_reconnecting := False\<rparr>)"

inductive wc_step :: "wc_options \<Rightarrow> wc_sys \<Rightarrow> wc_sys \<Rightarrow> bool" for oo where
  wc_call_connect: "wc_step oo s (s\<lparr>wy_threads := wy_threads s @ [ConnectCheck]\<rparr>)"
| wc_call_close: "wc_step oo s (s\<lparr>wy_threads := wy_threads s @ [WcCloseFlag]\<rparr>)"
| wc_call_send: "(err, s') \<in> set (wc_SendRaw m s) \<Longrightarrow> wc_step oo s s'"
| wc_go: "wy_threads s = as @ pc # bs \<Longrightarrow> wc_act oo ch pc s = Some (pcs, s') \<Longrightarrow>
     wc_step oo s (s'\<lparr>wy_threads := as @ pcs @ bs\<rparr>)"

section \<open>Invariants\<close>

definition reconnecter :: "wc_pc \<Rightarrow> bool" where
  "reconnecter pc \<longleftrightarrow> pc \<in> {RecLoop, RecCount, RecDialing, RecDone}"

definition wc_flag_ok :: "wc_sys \<Rightarrow> bool" where
  "wc_flag_ok s \<longleftrightarrow> length (filter reconnecter (wy_threads s)) = (if wy_reconnecting s then 1 else 0)"

definition wc_live_ok :: "wc_sys \<Rightarrow> bool" where
  "wc_live_ok s \<longleftrightarrow> wy_live s \<subseteq> (if wy_connected s then set_option (wy_conn s) else {})"

text \<open>With a limit of attempts: the counter, and the dials that failed in a row.\<close>

definition wc_count_ok :: "wc_options \<Rightarrow> wc_sys \<Rightarrow> bool" where
  "wc_count_ok oo s \<longleftrightarrow> 0 \<le> wy_count s \<and>
     (0 < wc_MaxReconnectAttempts oo \<longrightarrow> wy_count s \<le> wc_MaxReconnectAttempts oo \<and>
       (RecCount \<in> set (wy_threads s) \<longrightarrow> wy_count s < wc_MaxReconnectAttempts oo))"

definition wc_failed_ok :: "wc_sys \<Rightarrow> bool" where
  "wc_failed_ok s \<longleftrightarrow> wy_failed s \<le> wy_count s + 1 \<and> (RecDialing \<in> set (wy_threads s) \<longrightarrow> wy_failed s \<le> wy_count s)"

definition wc_ok :: "wc_options \<Rightarrow> wc_sys \<Rightarrow> bool" where
  "wc_ok oo s \<longleftrightarrow> wc_flag_ok s \<and> wc_live_ok s \<and> wc_count_ok oo s \<and> wc_failed_ok s"

lemma other_reconnecters:
  assumes "wc_flag_ok s" and "wy_threads s = as @ pc # bs" and "reconnecter pc"
  shows "RecCount \<notin> set (as @ bs)" and "RecDialing \<notin> set (as @ bs)" and "wy_reconnecting s"
proof -
  have "length (filter reconnecter (as @ bs)) = 0 \<and> wy_reconnecting s"
    using assms by (auto simp: wc_flag_ok_def split: if_splits)
  then show "RecCount \<notin> set (as @ bs)" "RecDialing \<notin> set (as @ bs)" "wy_reconnecting s"
    by (auto simp: filter_empty_conv reconnecter_def)
qed

lemmas wc_act_defs = wc_panic_def wc_dialled_def wc_drop_def

lemma reconnecter_simps [simp]:
  "reconnecter RecLoop" "reconnecter RecCount" "reconnecter RecDialing" "reconnecter RecDone"
  "\<not> reconnecter ConnectCheck" "\<not> reconnecter ConnectDial" "\<not> reconnecter WcCloseFlag"
  "\<not> reconnecter WcCloseChan" "\<not> reconnecter WcCloseConn" "\<not> reconnecter ReadInit" "\<not> reconnecter Reading"
  "\<not> reconnecter (Blocked c)" "\<not> reconnecter DropErr" "\<not> reconnecter AfterErr" "\<not> reconnecter DropDefer"
  "\<not> reconnecter AfterDefer" "\<not> reconnecter Writing" "\<not> reconnecter (Deadline m)"
  "\<not> reconnecter (WriteNow m)" "\<not> reconnecter RecStart"
  by (simp_all add: reconnecter_def)

lemma wc_act_reconnecters:
  "wc_act oo ch pc s = Some (pcs, s') \<Longrightarrow> (reconnecter pc \<Longrightarrow> wy_reconnecting s) \<Longrightarrow>
     length (filter reconnecter pcs) + of_bool (wy_reconnecting s) =
     of_bool (reconnecter pc) + (of_bool (wy_reconnecting s') :: nat)"
  by (cases pc) (auto simp: wc_act_defs split: if_splits wc_choice.splits option.splits prod.splits)

lemma wc_act_flag:
  assumes "wc_flag_ok s" and "wy_threads s = as @ pc # bs" and "wc_act oo ch pc s = Some (pcs, s')"
  shows "wc_flag_ok (s'\<lparr>wy_threads := as @ pcs @ bs\<rparr>)"
proof -
  have "reconnecter pc \<Longrightarrow> wy_reconnecting s" using other_reconnecters(3) [OF assms(1,2)] .
  note wc_act_reconnecters [OF assms(3) this]
  moreover have "length (filter reconnecter as) + of_bool (reconnecter pc) + length (filter reconnecter bs)
      = of_bool (wy_reconnecting s)"
    using assms(1,2) by (cases "reconnecter pc") (simp_all add: wc_flag_ok_def of_bool_def)
  ultimately show ?thesis by (simp add: wc_flag_ok_def of_bool_def split: if_splits)
qed

lemma wc_act_live:
  assumes "wc_live_ok s" and "wy_threads s = as @ pc # bs" and "wc_act oo ch pc s = Some (pcs, s')"
  shows "wc_live_ok (s'\<lparr>wy_threads := as @ pcs @ bs\<rparr>)"
  using assms by (cases pc)
    (auto simp: wc_live_ok_def wc_act_defs split: if_splits wc_choice.splits option.splits prod.splits)

text \<open>What an action does to the two counters.\<close>

lemma wc_act_counters:
  assumes "wc_act oo ch pc s = Some (pcs, s')"
  shows "(wy_count s' = wy_count s \<and> wy_failed s' = wy_failed s \<and> RecDialing \<notin> set pcs \<and>
       (RecCount \<in> set pcs \<longrightarrow> pc = RecLoop \<and> (0 < wc_MaxReconnectAttempts oo \<longrightarrow> wy_count s < wc_MaxReconnectAttempts oo))) \<or>
     (wy_count s' = 0 \<and> wy_failed s' = 0 \<and> RecDialing \<notin> set pcs \<and> RecCount \<notin> set pcs) \<or>
     (pc = RecCount \<and> wy_count s' = wy_count s + 1 \<and> wy_failed s' = wy_failed s \<and> pcs = [RecDialing]) \<or>
     (pc = RecDialing \<and> wy_count s' = wy_count s \<and> wy_failed s' = wy_failed s + 1 \<and> pcs = [RecLoop])"
  using assms by (cases pc) (auto simp: wc_act_defs split: if_splits wc_choice.splits option.splits prod.splits)

lemma wc_act_count:
  assumes "wc_flag_ok s" and "wc_count_ok oo s" and "wc_failed_ok s" and calls: "wy_threads s = as @ pc # bs"
    and act: "wc_act oo ch pc s = Some (pcs, s')"
  shows "wc_count_ok oo (s'\<lparr>wy_threads := as @ pcs @ bs\<rparr>) \<and> wc_failed_ok (s'\<lparr>wy_threads := as @ pcs @ bs\<rparr>)"
  using wc_act_counters [OF act]
proof (elim disjE conjE)
  assume "pc = RecCount" "wy_count s' = wy_count s + 1" "wy_failed s' = wy_failed s" "pcs = [RecDialing]"
  with other_reconnecters(1,2) [OF assms(1) calls] assms(2,3) calls show ?thesis
    by (auto simp: wc_count_ok_def wc_failed_ok_def)
next
  assume "pc = RecDialing" "wy_count s' = wy_count s" "wy_failed s' = wy_failed s + 1" "pcs = [RecLoop]"
  with other_reconnecters(1,2) [OF assms(1) calls] assms(2,3) calls show ?thesis
    by (auto simp: wc_count_ok_def wc_failed_ok_def)
qed (use assms(2,3) calls in \<open>auto simp: wc_count_ok_def wc_failed_ok_def\<close>)

lemma wc_ok_step: "wc_step oo s s' \<Longrightarrow> wc_ok oo s \<Longrightarrow> wc_ok oo s'"
proof (induction rule: wc_step.induct)
  case (wc_go s as pc bs ch pcs s')
  then show ?case using wc_act_flag [OF _ wc_go.hyps] wc_act_live [OF _ wc_go.hyps] wc_act_count [OF _ _ _ wc_go.hyps]
    unfolding wc_ok_def by blast
next
  case (wc_call_send err s' m s)
  then obtain c where "s' = s \<or> s' = s\<lparr>wy_send := c\<rparr>"
    by (auto simp: wc_SendRaw_def Let_def split: if_splits option.splits)
  with wc_call_send.prems show ?case
    by (auto simp: wc_ok_def wc_flag_ok_def wc_live_ok_def wc_count_ok_def wc_failed_ok_def)
qed (auto simp: wc_ok_def wc_flag_ok_def wc_live_ok_def wc_count_ok_def wc_failed_ok_def reconnecter_def)

lemma wc_ok_new: "wc_ok oo wc_NewClient"
  by (simp add: wc_ok_def wc_NewClient_def wc_flag_ok_def wc_live_ok_def wc_count_ok_def wc_failed_ok_def)

lemma wc_ok_reachable: "(wc_step oo)\<^sup>*\<^sup>* s s' \<Longrightarrow> wc_ok oo s \<Longrightarrow> wc_ok oo s'"
  by (induction rule: rtranclp_induct) (auto intro: wc_ok_step)

section \<open>Schedules\<close>

text \<open>The goroutine at a position takes its next action, with a choice of the environment.\<close>

fun wc_run :: "wc_options \<Rightarrow> (nat \<times> wc_choice) list \<Rightarrow> wc_sys \<Rightarrow> wc_sys option" where
  "wc_run oo [] s = Some s"
| "wc_run oo ((i, ch) # sched) s =
     (if i < length (wy_threads s)
      then (case wc_act oo ch (wy_threads s ! i) s of
              Some (pcs, s') \<Rightarrow> wc_run oo sched (s'\<lparr>wy_threads := take i (wy_threads s) @ pcs @ drop (Suc i) (wy_threads s)\<rparr>)
            | None \<Rightarrow> None)
      else None)"

lemma wc_run_steps: "wc_run oo sched s = Some s' \<Longrightarrow> (wc_step oo)\<^sup>*\<^sup>* s s'"
proof (induction oo sched s rule: wc_run.induct)
  case (2 oo i ch sched s)
  then have i: "i < length (wy_threads s)" by (simp split: if_splits)
  obtain pcs s1 where act: "wc_act oo ch (wy_threads s ! i) s = Some (pcs, s1)"
    using "2.prems" i by (auto split: option.splits)
  have "wy_threads s = take i (wy_threads s) @ wy_threads s ! i # drop (Suc i) (wy_threads s)"
    using i by (simp add: id_take_nth_drop)
  from wc_go [OF this act] "2.IH" [OF i act] "2.prems" i act show ?case
    by (simp add: converse_rtranclp_into_rtranclp)
qed simp

text \<open>From a call of \<open>Connect\<close>.\<close>

definition wc_calling :: wc_sys where
  "wc_calling = wc_NewClient\<lparr>wy_threads := [ConnectCheck]\<rparr>"

lemma wc_calling_reached: "(wc_step oo)\<^sup>*\<^sup>* wc_NewClient wc_calling"
  using wc_call_connect [of oo wc_NewClient] by (auto simp: wc_calling_def wc_NewClient_def)

lemma wc_scheduled: "wc_run oo sched wc_calling = Some s' \<Longrightarrow> (wc_step oo)\<^sup>*\<^sup>* wc_NewClient s'"
  using wc_calling_reached wc_run_steps by (meson rtranclp_trans)

section \<open>Properties\<close>

text \<open>
  C26: Whatever goroutines of a client run at once, it has at most one open socket, the one it holds while
  it is connected; one reconnect loop runs at a time; and with a limit of \<open>n\<close> reconnect attempts no
  more than \<open>n + 1\<close> reconnect dials fail in a row.
\<close>

theorem ws_client_invariant:
  assumes "(wc_step oo)\<^sup>*\<^sup>* wc_NewClient s"
  shows "wy_live s \<subseteq> (if wy_connected s then set_option (wy_conn s) else {}) \<and>
     length (filter reconnecter (wy_threads s)) \<le> 1 \<and>
     (0 < wc_MaxReconnectAttempts oo \<longrightarrow> wy_failed s \<le> wc_MaxReconnectAttempts oo + 1)"
proof -
  have "wc_ok oo s" using wc_ok_reachable [OF assms wc_ok_new] .
  then show ?thesis by (auto simp: wc_ok_def wc_flag_ok_def wc_live_ok_def wc_count_ok_def wc_failed_ok_def)
qed

text \<open>A client that connects, loses its connection, and reconnects.\<close>

definition losing :: "(nat \<times> wc_choice) list" where
  "losing = [(0, Succeed), (0, Succeed), (0, Succeed), (0, Succeed), (0, Break), (0, Succeed), (0, Succeed)]"

definition reconnecting :: "(nat \<times> wc_choice) list" where
  "reconnecting = losing @ [(0, Succeed), (0, Succeed), (0, Succeed), (0, Succeed), (0, Succeed)]"

lemmas wc_run_defs = losing_def reconnecting_def wc_calling_def wc_NewClient_def wc_DefaultOptions_def wc_act_defs

theorem ws_client_invariant_witness:
  "case wc_run wc_DefaultOptions reconnecting wc_calling of
     Some s \<Rightarrow> wy_live s \<subseteq> {1} \<and> wy_failed s \<le> 11 | None \<Rightarrow> False"
proof -
  obtain s where s: "wc_run wc_DefaultOptions reconnecting wc_calling = Some s"
    and conn: "wy_connected s" "wy_conn s = Some 1"
    by (simp add: wc_run_defs)
  from ws_client_invariant [OF wc_scheduled [OF s]] s conn show ?thesis by (simp add: wc_DefaultOptions_def)
qed

text \<open>
  A disconnected client can crash.  The write pump of a lost connection keeps waiting; when its ping
  timer fires before a new connection is made it uses the connection field, which the disconnect has
  set to nil.
\<close>

theorem ws_client_ping_after_disconnect_panics:
  "\<exists>s. (wc_step wc_DefaultOptions)\<^sup>*\<^sup>* wc_NewClient s \<and> wy_panicked s \<and> \<not> wy_closed s"
proof -
  obtain s where s: "wc_run wc_DefaultOptions (losing @ [(2, TakeTick), (2, Succeed)]) wc_calling = Some s"
    and p: "wy_panicked s" "\<not> wy_closed s"
    by (simp add: wc_run_defs)
  from wc_scheduled [OF s] p show ?thesis by blast
qed

text \<open>
  After a reconnect two write pumps serve the new connection: the pump of the old connection was never
  told to end.  Both can be inside \<open>WriteMessage\<close> on the same socket at once, which the library forbids.
\<close>

theorem ws_client_two_write_pumps:
  "\<exists>s. (wc_step wc_DefaultOptions)\<^sup>*\<^sup>* wc_NewClient s \<and> wy_connected s \<and>
     1 < length (filter (\<lambda>pc. pc = WriteNow None) (wy_threads s))"
proof -
  obtain s where s: "wc_run wc_DefaultOptions (reconnecting @
      [(2, TakeTick), (3, TakeTick), (2, Succeed), (3, Succeed)]) wc_calling = Some s"
    and p: "wy_connected s" "1 < length (filter (\<lambda>pc. pc = WriteNow None) (wy_threads s))"
    by (simp add: wc_run_defs)
  from wc_scheduled [OF s] p show ?thesis by blast
qed

text \<open>
  A client can be connected after \<open>Close\<close>: a \<open>Connect\<close> or a reconnect that has passed its check of the
  closed flag dials after \<open>Close\<close> has returned, and the socket it opens is never closed by the client.
\<close>

theorem ws_client_connected_after_close:
  "\<exists>s. (wc_step wc_DefaultOptions)\<^sup>*\<^sup>* wc_NewClient s \<and> wy_closed s \<and> wy_done s \<and> wy_connected s \<and> wy_live s \<noteq> {} \<and>
     set (wy_threads s) \<inter> {WcCloseFlag, WcCloseChan, WcCloseConn} = {}"
proof -
  define s0 where "s0 = wc_calling\<lparr>wy_threads := [ConnectCheck, WcCloseFlag]\<rparr>"
  have "wc_step wc_DefaultOptions wc_calling s0"
    using wc_call_close [of wc_DefaultOptions wc_calling] by (simp add: s0_def wc_calling_def)
  moreover obtain s where s: "wc_run wc_DefaultOptions
      [(0, Succeed), (1, Succeed), (1, Succeed), (1, Succeed), (0, Succeed)] s0 = Some s"
    and p: "wy_closed s" "wy_done s" "wy_connected s" "wy_live s = {0}" "wy_threads s = [ReadInit, Writing]"
    by (simp add: wc_run_defs s0_def)
  ultimately have "(wc_step wc_DefaultOptions)\<^sup>*\<^sup>* wc_NewClient s"
    using wc_calling_reached wc_run_steps [OF s] by (meson r_into_rtranclp rtranclp_trans)
  with p show ?thesis by (intro exI [of _ s]) simp
qed

end
