(* ===== verification/WsTable.thy ===== *)
theory WsTable
  imports WsServer
begin

text \<open>
  What the sharded table of the WebSocket server (\<open>transport/ws/ws.go\<close>) implements: a bounded map from
  identifiers to connections.  The specification keeps the map and the last number given; handshakes and
  closing connections refine it, output by output.
\<close>

section \<open>The specification\<close>

record 'p ws_spec =
  sp_conns :: "string \<Rightarrow> 'p connection option"
  sp_next :: nat

definition spec_init :: "'p ws_spec" where
  "spec_init = \<lparr>sp_conns = (\<lambda>_. None), sp_next = 0\<rparr>"

text \<open>A handshake is refused when the map is full, and else enters a new connection.\<close>

definition spec_full :: "ws_options \<Rightarrow> 'p ws_spec \<Rightarrow> bool" where
  "spec_full oo sp \<longleftrightarrow> 0 < wo_MaxConnections oo \<and> wo_MaxConnections oo \<le> int (card (dom (sp_conns sp)))"

definition spec_handshake :: "ws_options \<Rightarrow> bool \<Rightarrow> string \<times> string \<times> string \<Rightarrow> 'p ws_spec \<Rightarrow> 'p handshake \<times> 'p ws_spec" where
  "spec_handshake oo upgraded req sp =
     (if spec_full oo sp then (Refused 503 ''Too many connections'', sp)
      else if \<not> upgraded then (UpgradeFailed, sp)
      else (let n = sp_next sp + 1;
                c = (newConnection (format_base 36 n) (Some oo))\<lparr>cn_remoteAddr := fst req,
                      cn_requestURI := fst (snd req), cn_rawQuery := snd (snd req)\<rparr>
            in (Accepted c, \<lparr>sp_conns = (sp_conns sp)(cn_ID c \<mapsto> c), sp_next = n\<rparr>)))"

definition spec_close :: "string \<Rightarrow> 'p ws_spec \<Rightarrow> 'p ws_spec" where
  "spec_close i sp = sp\<lparr>sp_conns := (sp_conns sp)(i := None)\<rparr>"

section \<open>Runs\<close>

text \<open>What happens to a server between its start and its stop: handshakes, and connections that close.\<close>

datatype table_op = TbHandshake bool "string \<times> string \<times> string" | TbClose string

definition close_by_id :: "string \<Rightarrow> 'p ws_server \<Rightarrow> 'p ws_server" where
  "close_by_id i s = (case GetConnection i s of None \<Rightarrow> s | Some c \<Rightarrow> snd (closeConnection c s))"

fun tb_run :: "table_op list \<Rightarrow> 'p ws_server \<Rightarrow> 'p handshake list \<times> 'p ws_server" where
  "tb_run [] s = ([], s)"
| "tb_run (TbHandshake upgraded req # ops) s =
     (let (h, s1) = handleWebSocket upgraded req s; (hs, s2) = tb_run ops s1 in (h # hs, s2))"
| "tb_run (TbClose i # ops) s = tb_run ops (close_by_id i s)"

fun spec_run :: "ws_options \<Rightarrow> table_op list \<Rightarrow> 'p ws_spec \<Rightarrow> 'p handshake list \<times> 'p ws_spec" where
  "spec_run oo [] sp = ([], sp)"
| "spec_run oo (TbHandshake upgraded req # ops) sp =
     (let (h, sp1) = spec_handshake oo upgraded req sp; (hs, sp2) = spec_run oo ops sp1 in (h # hs, sp2))"
| "spec_run oo (TbClose i # ops) sp = spec_run oo ops (spec_close i sp)"

section \<open>The simulation\<close>

definition table_abs :: "'p ws_server \<Rightarrow> 'p ws_spec" where
  "table_abs s = \<lparr>sp_conns = (\<lambda>i. GetConnection i s), sp_next = unat (sv_nextConnID s)\<rparr>"

text \<open>
  The count is the size of the table, the connections in it are open, and their identifiers are numbers
  that were given.
\<close>

definition table_inv :: "'p ws_server \<Rightarrow> bool" where
  "table_inv s \<longleftrightarrow> table_ok s \<and> \<not> sv_stopping s \<and> finite (dom (\<lambda>i. GetConnection i s)) \<and>
     sv_activeCount s = int (card (dom (\<lambda>i. GetConnection i s))) \<and>
     (\<forall>i c. GetConnection i s = Some c \<longrightarrow> \<not> cn_closed c \<and>
        (\<exists>n. 1 \<le> n \<and> n \<le> unat (sv_nextConnID s) \<and> i = format_base 36 n))"

lemma GetConnection_fields [simp]:
  "GetConnection i (s\<lparr>sv_activeCount := n\<rparr>) = GetConnection i s"
  "GetConnection i (s\<lparr>sv_nextConnID := k\<rparr>) = GetConnection i s"
  by (simp_all add: GetConnection_def shard_index_def)

lemma table_ok_next [simp]: "table_ok (s\<lparr>sv_nextConnID := k\<rparr>) = table_ok s"
  by (simp add: table_ok_def shard_index_def)

lemma table_inv_new: "table_inv (ws_NewServer os uuid)"
  by (simp add: table_inv_def table_ok_new) (simp add: ws_NewServer_def)

text \<open>The next identifier is not in the table yet.\<close>

lemma table_fresh:
  assumes "table_inv s"
  shows "GetConnection (format_base 36 (unat (sv_nextConnID s) + 1)) s = None"
proof (rule ccontr)
  assume "\<not> ?thesis"
  then obtain k where "k \<le> unat (sv_nextConnID s)" "format_base 36 (unat (sv_nextConnID s) + 1) = format_base 36 k"
    using assms by (auto simp: table_inv_def)
  then show False using format_base_inj [of 36 "unat (sv_nextConnID s) + 1" k] by simp
qed

text \<open>A new connection under the next identifier.\<close>

definition entered :: "'p connection \<Rightarrow> 'p ws_server \<Rightarrow> 'p ws_server" where
  "entered c s = storeConnection c (s\<lparr>sv_activeCount := sv_activeCount s + 1, sv_nextConnID := sv_nextConnID s + 1\<rparr>)"

lemma entered_fields [simp]:
  "sv_nextConnID (entered c s) = sv_nextConnID s + 1" "sv_activeCount (entered c s) = sv_activeCount s + 1"
  "sv_opts (entered c s) = sv_opts s" "sv_stopping (entered c s) = sv_stopping s"
  by (simp_all add: entered_def storeConnection_def in_shard_def)

lemma entered_get: "table_ok s \<Longrightarrow> GetConnection i (entered c s) = (if i = cn_ID c then Some c else GetConnection i s)"
  unfolding entered_def by (subst GetConnection_store) simp_all

lemma entered_inv:
  assumes inv: "table_inv s" and bound: "unat (sv_nextConnID s) + 1 < 2 ^ 64"
    and id: "cn_ID c = format_base 36 (unat (sv_nextConnID s) + 1)" and "\<not> cn_closed c"
  shows "table_inv (entered c s)"
  unfolding table_inv_def
proof (intro conjI allI impI)
  let ?m = "\<lambda>i. GetConnection i s"
  have ok: "table_ok s" and fin: "finite (dom ?m)" and count: "sv_activeCount s = int (card (dom ?m))"
    using inv by (simp_all add: table_inv_def)
  have next': "unat (sv_nextConnID s + 1) = unat (sv_nextConnID s) + 1" using bound by (simp add: unat_word_ariths)
  have dom': "dom (\<lambda>i. GetConnection i (entered c s)) = insert (cn_ID c) (dom ?m)"
    by (auto simp: entered_get [OF ok] dom_def)
  show "table_ok (entered c s)" unfolding entered_def by (rule table_ok_store) (simp add: ok)
  show "\<not> sv_stopping (entered c s)" using inv by (simp add: table_inv_def)
  show "finite (dom (\<lambda>i. GetConnection i (entered c s)))" using fin by (simp add: dom')
  have "cn_ID c \<notin> dom ?m" using table_fresh [OF inv] by (simp add: id domIff)
  then show "sv_activeCount (entered c s) = int (card (dom (\<lambda>i. GetConnection i (entered c s))))"
    using fin count by (simp add: dom')
  fix i d assume d: "GetConnection i (entered c s) = Some d"
  show "\<not> cn_closed d" using d assms(4) inv by (auto simp: entered_get [OF ok] table_inv_def split: if_splits)
  show "\<exists>k\<ge>1. k \<le> unat (sv_nextConnID (entered c s)) \<and> i = format_base 36 k"
  proof (cases "i = cn_ID c")
    case True
    then show ?thesis using next' id by (intro exI [of _ "unat (sv_nextConnID s) + 1"]) simp
  next
    case False
    then obtain k where "1 \<le> k" "k \<le> unat (sv_nextConnID s)" "i = format_base 36 k"
      using d inv by (auto simp: entered_get [OF ok] table_inv_def)
    then show ?thesis using next' by (intro exI [of _ k]) simp
  qed
qed

lemma handshake_refines:
  assumes inv: "table_inv s" and bound: "unat (sv_nextConnID s) + 1 < 2 ^ 64"
    and run: "handleWebSocket upgraded req s = (h, s')"
  shows "spec_handshake (sv_opts s) upgraded req (table_abs s) = (h, table_abs s') \<and> table_inv s' \<and>
     sv_opts s' = sv_opts s \<and> unat (sv_nextConnID s') \<le> unat (sv_nextConnID s) + 1"
proof -
  have ok: "table_ok s" and running: "\<not> sv_stopping s" using inv by (simp_all add: table_inv_def)
  have full: "spec_full (sv_opts s) (table_abs s) \<longleftrightarrow> \<not> fst (tryAcquireConnectionSlot s)"
    using inv by (auto simp: spec_full_def table_abs_def tryAcquireConnectionSlot_def Let_def table_inv_def)
  show ?thesis
  proof (cases "fst (tryAcquireConnectionSlot s) \<and> upgraded")
    case False
    then have "s' = s" "h = (if spec_full (sv_opts s) (table_abs s) then Refused 503 ''Too many connections'' else UpgradeFailed)"
      using run running full by (auto simp: handleWebSocket_def tryAcquireConnectionSlot_def releaseConnectionSlot_def Let_def
          split: if_splits)
    then show ?thesis using False full inv by (auto simp: spec_handshake_def)
  next
    case True
    obtain addr uri query where req: "req = (addr, uri, query)" by (cases req)
    define n where "n = unat (sv_nextConnID s) + 1"
    have unat_next: "unat (sv_nextConnID s + 1) = n"
      using bound by (simp add: n_def unat_word_ariths)
    define c :: "'a connection" where "c = (newConnection (format_base 36 n) (Some (sv_opts s)))\<lparr>cn_remoteAddr := addr,
        cn_requestURI := uri, cn_rawQuery := query\<rparr>"
    have h: "h = Accepted c" and s': "s' = entered c s"
      using run running True
      by (auto simp: handleWebSocket_def tryAcquireConnectionSlot_def nextConnectionID_def Let_def req unat_next c_def
          entered_def split: if_splits)
    have c: "cn_ID c = format_base 36 n" "\<not> cn_closed c" by (simp_all add: c_def newConnection_def Let_def)
    have "table_inv s'" unfolding s' by (rule entered_inv [OF inv bound]) (simp_all add: c n_def)
    moreover have "spec_handshake (sv_opts s) upgraded req (table_abs s) = (h, table_abs s')"
      using True full by (simp add: spec_handshake_def h s' table_abs_def entered_get [OF ok] unat_next req c fun_eq_iff Let_def)
        (simp add: c_def n_def)
    ultimately show ?thesis using unat_next n_def by (simp add: s')
  qed
qed

lemma close_refines:
  assumes inv: "table_inv s"
  shows "table_abs (close_by_id i s) = spec_close i (table_abs s) \<and> table_inv (close_by_id i s) \<and>
     sv_opts (close_by_id i s) = sv_opts s \<and> sv_nextConnID (close_by_id i s) = sv_nextConnID s"
proof (cases "GetConnection i s")
  case None
  then show ?thesis using inv by (auto simp: close_by_id_def spec_close_def table_abs_def fun_eq_iff)
next
  case (Some c)
  have ok: "table_ok s" and open': "\<not> cn_closed c" using inv Some by (auto simp: table_inv_def)
  have "cn_ID c = i" using conn_table.get_key [OF ok Some] .
  then have eq: "close_by_id i s = removeConnection i s" using Some open' by (simp add: close_by_id_def closeConnection_def)
  define s' where "s' = removeConnection i s"
  have get: "GetConnection j s' = (if j = i then None else GetConnection j s)" for j
    unfolding s'_def by (rule GetConnection_remove [OF ok])
  have shard: "(sv_shards s ! shard_index i s) i = Some c" using Some by (simp add: GetConnection_def)
  have fields: "sv_activeCount s' = sv_activeCount s - 1" "sv_opts s' = sv_opts s" "sv_nextConnID s' = sv_nextConnID s"
    "sv_stopping s' = sv_stopping s" by (simp_all add: s'_def removeConnection_def shard in_shard_def)
  have dom': "dom (\<lambda>j. GetConnection j s') = dom (\<lambda>j. GetConnection j s) - {i}" by (auto simp: get dom_def)
  have fin: "finite (dom (\<lambda>j. GetConnection j s))" and count: "sv_activeCount s = int (card (dom (\<lambda>j. GetConnection j s)))"
    using inv by (simp_all add: table_inv_def)
  have "i \<in> dom (\<lambda>j. GetConnection j s)" using Some by blast
  then have card': "sv_activeCount s' = int (card (dom (\<lambda>j. GetConnection j s')))"
    using card_Suc_Diff1 [OF fin, of i] unfolding dom' fields count by linarith
  have "table_inv s'" unfolding table_inv_def
  proof (intro conjI allI impI)
    show "table_ok s'" unfolding s'_def by (rule table_ok_remove [OF ok])
    show "\<not> sv_stopping s'" "finite (dom (\<lambda>i. GetConnection i s'))" using inv by (simp_all add: fields dom' table_inv_def)
    fix j d assume "GetConnection j s' = Some d"
    then have "GetConnection j s = Some d" by (simp add: get split: if_splits)
    then show "\<not> cn_closed d" "\<exists>n\<ge>1. n \<le> unat (sv_nextConnID s') \<and> j = format_base 36 n"
      using inv by (auto simp: table_inv_def fields)
  qed (rule card')
  then show ?thesis unfolding eq s'_def [symmetric]
    by (simp add: fields table_abs_def spec_close_def get fun_eq_iff)
qed

lemma run_refines:
  "table_inv s \<Longrightarrow> unat (sv_nextConnID s) + length ops < 2 ^ 64 \<Longrightarrow> tb_run ops s = (hs, s') \<Longrightarrow>
     spec_run (sv_opts s) ops (table_abs s) = (hs, table_abs s') \<and> table_inv s'"
proof (induction ops s arbitrary: hs s' rule: tb_run.induct)
  case (2 upgraded req ops s)
  obtain h s1 where h: "handleWebSocket upgraded req s = (h, s1)" by fastforce
  obtain hs' where tl: "tb_run ops s1 = (hs', s')" "hs = h # hs'" using "2.prems"(3) h by (auto split: prod.splits)
  have b: "unat (sv_nextConnID s) + 1 < 2 ^ 64" using "2.prems"(2) by simp
  note ref = handshake_refines [OF "2.prems"(1) b h]
  have "spec_run (sv_opts s1) ops (table_abs s1) = (hs', table_abs s') \<and> table_inv s'"
  proof (rule "2.IH" [OF h [symmetric] refl])
    show "table_inv s1" using ref by simp
    show "unat (sv_nextConnID s1) + length ops < 2 ^ 64" using ref "2.prems"(2) by simp
  qed (rule tl(1))
  then show ?case using ref tl(2) by simp
next
  case (3 i ops s)
  then show ?case using close_refines [OF "3.prems"(1), of i] by simp
qed simp

section \<open>Properties\<close>

text \<open>
  C10: The sharded table refines a bounded map: for fewer than \<open>2 ^ 64\<close> handshakes and closings, in any order,
  a server that is not stopping answers each handshake as the specification does (refused when the map holds
  \<open>MaxConnections\<close> connections, else accepted under a new identifier), and at the end finds exactly the
  connections of the specification's map, whose number is the connection count.
\<close>

theorem ws_table_refines_bounded_map:
  assumes "length ops < 2 ^ 64" and "tb_run ops (ws_NewServer os uuid) = (hs, s')"
  shows "spec_run (fold apply_ws_option os (ws_DefaultOptions uuid)) ops spec_init = (hs, table_abs s') \<and>
     ConnectionCount s' = int (card (dom (\<lambda>i. GetConnection i s')))"
proof -
  let ?s = "ws_NewServer os uuid"
  have init: "table_abs ?s = spec_init" "sv_opts ?s = fold apply_ws_option os (ws_DefaultOptions uuid)"
    "unat (sv_nextConnID ?s) = 0"
    by (simp add: table_abs_def spec_init_def fun_eq_iff) (simp_all add: ws_NewServer_def)
  have "unat (sv_nextConnID ?s) + length ops < 2 ^ 64" unfolding init(3) using assms(1) by simp
  from run_refines [OF table_inv_new this assms(2)] show ?thesis
    unfolding init by (simp add: ConnectionCount_def table_inv_def)
qed

text \<open>A server for one connection: the second handshake is refused, the third one, after a closing, accepted.\<close>

theorem ws_table_refines_bounded_map_witness:
  "let r = (''peer'', ''/ws'', ''''); ops = [TbHandshake True r, TbHandshake True r, TbClose ''1'', TbHandshake True r];
       out = tb_run ops (ws_NewServer [WsWithConnectionLimits 1 64 32] ''01234567'' :: unit ws_server)
   in length (fst out) = 3 \<and> fst out ! 1 = Refused 503 ''Too many connections'' \<and> ConnectionCount (snd out) = 1 \<and>
      GetConnection ''2'' (snd out) \<noteq> None"
proof -
  define r where "r = (''peer'', ''/ws'', '''' :: string)"
  define ops where "ops = [TbHandshake True r, TbHandshake True r, TbClose ''1'', TbHandshake True r]"
  obtain hs s' where run: "tb_run ops (ws_NewServer [WsWithConnectionLimits 1 64 32] ''01234567'' :: unit ws_server) = (hs, s')"
    by fastforce
  have "length ops < 2 ^ 64" by (simp add: ops_def)
  note ref = ws_table_refines_bounded_map [OF this run]
  have ids: "format_base 36 1 = ''1''" "format_base 36 2 = ''2''" by code_simp+
  define oo where "oo = fold apply_ws_option [WsWithConnectionLimits 1 64 32] (ws_DefaultOptions ''01234567'')"
  define c where "c = (\<lambda>i. (newConnection i (Some oo) :: unit connection)\<lparr>cn_remoteAddr := ''peer'', cn_requestURI := ''/ws'',
    cn_rawQuery := ''''\<rparr>)"
  have max: "wo_MaxConnections oo = 1" by (simp add: oo_def)
  have c: "cn_ID (c i) = i" for i by (simp add: c_def)
  have new: "spec_handshake oo True r \<lparr>sp_conns = (\<lambda>_. None), sp_next = n\<rparr> =
      (Accepted (c (format_base 36 (n + 1))), \<lparr>sp_conns = [format_base 36 (n + 1) \<mapsto> c (format_base 36 (n + 1))], sp_next = n + 1\<rparr>)" for n
    using c [unfolded c_def] by (simp add: spec_handshake_def spec_full_def max r_def c_def Let_def)
  have full: "spec_handshake oo True r \<lparr>sp_conns = [i \<mapsto> c i], sp_next = n\<rparr> =
      (Refused 503 ''Too many connections'', \<lparr>sp_conns = [i \<mapsto> c i], sp_next = n\<rparr>)" for i n
    by (simp add: spec_handshake_def spec_full_def max)
  have "spec_run oo ops spec_init = (hs, table_abs s')" using ref by (simp add: oo_def)
  moreover have "spec_run oo ops spec_init = ([Accepted (c ''1''), Refused 503 ''Too many connections'', Accepted (c ''2'')],
      \<lparr>sp_conns = [''2'' \<mapsto> c ''2''], sp_next = 2\<rparr>)"
  proof -
    have one: "spec_handshake oo True r spec_init = (Accepted (c ''1''), \<lparr>sp_conns = [''1'' \<mapsto> c ''1''], sp_next = 1\<rparr>)"
      using new [of 0] by (simp only: spec_init_def add_0 ids)
    have two: "spec_handshake oo True r \<lparr>sp_conns = (\<lambda>_. None), sp_next = 1\<rparr> =
        (Accepted (c ''2''), \<lparr>sp_conns = [''2'' \<mapsto> c ''2''], sp_next = 2\<rparr>)"
      using new [of 1] by (simp only: one_add_one ids)
    have close: "spec_close ''1'' \<lparr>sp_conns = [''1'' \<mapsto> c ''1''], sp_next = 1\<rparr> = \<lparr>sp_conns = (\<lambda>_. None), sp_next = 1\<rparr>"
      by (simp add: spec_close_def)
    show ?thesis by (simp only: ops_def spec_run.simps one two full close Let_def prod.case)
  qed
  ultimately have "hs = [Accepted (c ''1''), Refused 503 ''Too many connections'', Accepted (c ''2'')]"
    "sp_conns (table_abs s') = [''2'' \<mapsto> c ''2'']" by (metis fst_conv, metis snd_conv ws_spec.select_convs(1))
  then have "length hs = 3 \<and> hs ! 1 = Refused 503 ''Too many connections'' \<and> dom (sp_conns (table_abs s')) = {''2''}"
    by simp
  moreover have "dom (\<lambda>i. GetConnection i s') = dom (sp_conns (table_abs s'))" by (simp add: table_abs_def)
  ultimately show ?thesis using ref run unfolding ops_def r_def by (auto simp: Let_def)
qed

end
