(* ===== verification/WsWriter.thy ===== *)
theory WsWriter
  imports Prelude "HOL-Library.Multiset"
begin

text \<open>
  The on-demand writers of a WebSocket connection under every interleaving (\<open>ensureWriter\<close> and
  \<open>writePump\<close> of \<open>transport/ws/connection.go\<close>).  One step is one atomic action of one goroutine: a
  load, a store or a compare-and-swap of \<open>closed\<close> and \<open>writerRunning\<close>, a send to or a receive from a
  queue, a write to the socket.  The two queues are one here, and the tests of their lengths
  before a writer leaves are one look: the protocol treats the queues alike.
\<close>

section \<open>The protocol\<close>

text \<open>Where a goroutine that runs \<open>writePump\<close> is.\<close>

datatype 'm writer_pc =
    Take            \<comment> \<open>in \<open>drainPendingWrites\<close>, about to receive\<close>
  | Holding 'm      \<comment> \<open>writing the message to the socket\<close>
  | Release         \<comment> \<open>found the queues empty, about to reset \<open>writerRunning\<close>\<close>
  | CheckClosed     \<comment> \<open>about to load \<open>closed\<close>\<close>
  | CheckPending    \<comment> \<open>about to look at the queues again\<close>
  | Retake          \<comment> \<open>about to try to set \<open>writerRunning\<close> again\<close>
  | Leave           \<comment> \<open>about to return: the deferred store resets \<open>writerRunning\<close>\<close>

text \<open>
  \<open>we_load\<close> and \<open>we_cas\<close> count the senders inside \<open>ensureWriter\<close>, before the load of \<open>closed\<close> and before
  the compare-and-swap.  \<open>we_accepted\<close> and \<open>we_failed\<close> record the messages that were queued and those
  whose write failed.
\<close>

record 'm writer_sys =
  we_cap :: nat
  we_queue :: "'m list"
  we_running :: bool
  we_closed :: bool
  we_load :: nat
  we_cas :: nat
  we_writers :: "'m writer_pc list"
  we_wire :: "'m list"
  we_accepted :: "'m list"
  we_failed :: "'m list"

definition writer_init :: "nat \<Rightarrow> 'm writer_sys" where
  "writer_init cap = \<lparr>we_cap = cap, we_queue = [], we_running = False, we_closed = False, we_load = 0,
     we_cas = 0, we_writers = [], we_wire = [], we_accepted = [], we_failed = []\<rparr>"

text \<open>The next action of a writer at a program counter.\<close>

inductive writer_act :: "'m writer_pc \<Rightarrow> 'm writer_sys \<Rightarrow> 'm writer_pc option \<Rightarrow> 'm writer_sys \<Rightarrow> bool" where
  act_take: "we_queue s = m # q \<Longrightarrow> writer_act Take s (Some (Holding m)) (s\<lparr>we_queue := q\<rparr>)"
| act_empty: "we_queue s = [] \<Longrightarrow> writer_act Take s (Some Release) s"
| act_write: "writer_act (Holding m) s (Some Take) (s\<lparr>we_wire := we_wire s @ [m]\<rparr>)"
| act_fail: "writer_act (Holding m) s (Some Leave) (s\<lparr>we_closed := True, we_failed := we_failed s @ [m]\<rparr>)"
| act_release: "writer_act Release s (Some CheckClosed) (s\<lparr>we_running := False\<rparr>)"
| act_closed: "we_closed s \<Longrightarrow> writer_act CheckClosed s (Some Leave) s"
| act_open: "\<not> we_closed s \<Longrightarrow> writer_act CheckClosed s (Some CheckPending) s"
| act_idle: "we_queue s = [] \<Longrightarrow> writer_act CheckPending s (Some Leave) s"
| act_more: "we_queue s \<noteq> [] \<Longrightarrow> writer_act CheckPending s (Some Retake) s"
| act_retake: "\<not> we_running s \<Longrightarrow> writer_act Retake s (Some Take) (s\<lparr>we_running := True\<rparr>)"
| act_lost: "we_running s \<Longrightarrow> writer_act Retake s (Some Leave) s"
| act_leave: "writer_act Leave s None (s\<lparr>we_running := False\<rparr>)"

text \<open>
  A message is queued when there is room (the sender looked at \<open>closed\<close> earlier); \<open>Close\<close> may come
  from anywhere.
\<close>

inductive writer_step :: "'m writer_sys \<Rightarrow> 'm writer_sys \<Rightarrow> bool" where
  step_accept: "length (we_queue s) < we_cap s \<Longrightarrow>
     writer_step s (s\<lparr>we_queue := we_queue s @ [m], we_accepted := we_accepted s @ [m], we_load := we_load s + 1\<rparr>)"
| step_load_closed: "we_load s = Suc n \<Longrightarrow> we_closed s \<Longrightarrow> writer_step s (s\<lparr>we_load := n\<rparr>)"
| step_load_open: "we_load s = Suc n \<Longrightarrow> \<not> we_closed s \<Longrightarrow>
     writer_step s (s\<lparr>we_load := n, we_cas := we_cas s + 1\<rparr>)"
| step_spawn: "we_cas s = Suc n \<Longrightarrow> \<not> we_running s \<Longrightarrow>
     writer_step s (s\<lparr>we_cas := n, we_running := True, we_writers := we_writers s @ [Take]\<rparr>)"
| step_no_spawn: "we_cas s = Suc n \<Longrightarrow> we_running s \<Longrightarrow> writer_step s (s\<lparr>we_cas := n\<rparr>)"
| step_close: "writer_step s (s\<lparr>we_closed := True\<rparr>)"
| step_writer: "we_writers s = as @ pc # bs \<Longrightarrow> writer_act pc s pc' s' \<Longrightarrow>
     writer_step s (s'\<lparr>we_writers := as @ opt_list pc' @ bs\<rparr>)"

inductive_cases writer_stepE: "writer_step s s'"
inductive_cases writer_actE: "writer_act pc s pc' s'"

inductive_simps writer_act_simps:
  "writer_act Take s pc' s'" "writer_act (Holding m) s pc' s'" "writer_act Release s pc' s'"
  "writer_act CheckClosed s pc' s'" "writer_act CheckPending s pc' s'" "writer_act Retake s pc' s'"
  "writer_act Leave s pc' s'"

section \<open>Invariants\<close>

fun owner :: "'m writer_pc \<Rightarrow> bool" where
  "owner Take = True" | "owner (Holding m) = True" | "owner Release = True" | "owner _ = False"

definition held :: "'m writer_pc list \<Rightarrow> 'm list" where
  "held ws = List.map_filter (\<lambda>pc. case pc of Holding m \<Rightarrow> Some m | _ \<Rightarrow> None) ws"

lemma held_simps [simp]:
  "held [] = []" "held (as @ bs) = held as @ held bs"
  "held (Holding m # ws) = m # held ws" "held (Take # ws) = held ws" "held (Release # ws) = held ws"
  "held (CheckClosed # ws) = held ws" "held (CheckPending # ws) = held ws" "held (Retake # ws) = held ws"
  "held (Leave # ws) = held ws"
  by (simp_all add: held_def List.map_filter_def)

text \<open>
  While the flag is set on an open connection some writer owns it; a waiting message has a goroutine
  that will look at the queue; no message is lost or doubled.
\<close>

definition writer_inv :: "'m writer_sys \<Rightarrow> bool" where
  "writer_inv s \<longleftrightarrow>
     (we_running s \<and> \<not> we_closed s \<longrightarrow> (\<exists>pc\<in>set (we_writers s). owner pc)) \<and>
     (we_queue s \<noteq> [] \<and> \<not> we_closed s \<longrightarrow> 0 < we_load s + we_cas s \<or> (\<exists>pc\<in>set (we_writers s). pc \<noteq> Leave)) \<and>
     (we_failed s \<noteq> [] \<longrightarrow> we_closed s) \<and>
     mset (we_accepted s) = mset (we_wire s) + mset (held (we_writers s)) + mset (we_queue s) + mset (we_failed s)"

lemma writer_inv_init: "writer_inv (writer_init cap)"
  by (simp add: writer_inv_def writer_init_def)

lemma owner_not_Leave: "owner pc \<Longrightarrow> pc \<noteq> Leave"
  by auto

lemma writer_inv_act:
  assumes "writer_act pc s pc' s'" and "we_writers s = as @ pc # bs" and "writer_inv s"
  shows "writer_inv (s'\<lparr>we_writers := as @ opt_list pc' @ bs\<rparr>)"
  using assms
proof (cases rule: writer_act.cases)
  case act_lost
  with assms(2,3) show ?thesis by (auto simp: writer_inv_def) (blast dest: owner_not_Leave)+
qed (use assms(2,3) in \<open>auto simp: writer_inv_def\<close>)

lemma writer_inv_step: "writer_step s s' \<Longrightarrow> writer_inv s \<Longrightarrow> writer_inv s'"
proof (induction rule: writer_step.induct)
  case (step_writer s as pc bs pc' s')
  then show ?case by (intro writer_inv_act)
next
  case (step_no_spawn s n)
  then show ?case by (auto simp: writer_inv_def dest!: owner_not_Leave)
qed (auto simp: writer_inv_def)

lemma writer_inv_reachable: "writer_step\<^sup>*\<^sup>* (writer_init cap) s \<Longrightarrow> writer_inv s"
  by (induction rule: rtranclp_induct) (auto intro: writer_inv_init writer_inv_step)

section \<open>Properties\<close>

text \<open>
  C4: No message is stuck or lost: whenever a connection is open and no goroutine is in the middle
  of sending or writing, the queue is empty and the messages written are exactly the messages
  accepted, each once.
\<close>

theorem ws_no_lost_wakeup:
  assumes "writer_step\<^sup>*\<^sup>* (writer_init cap) s" and "\<not> we_closed s"
    and "we_load s = 0" and "we_cas s = 0" and "we_writers s = []"
  shows "we_queue s = [] \<and> mset (we_wire s) = mset (we_accepted s)"
  using writer_inv_reachable [OF assms(1)] assms(2-) by (auto simp: writer_inv_def)

text \<open>Schedules: which goroutine moves next; \<open>Fail i\<close> is writer \<open>i\<close> whose write fails.\<close>

datatype 'm action = Accept 'm | LoadClosed | CompareAndSwap | CloseConn | Move nat | Fail nat

fun move_writer :: "'m writer_pc \<Rightarrow> 'm writer_sys \<Rightarrow> 'm writer_pc option \<times> 'm writer_sys" where
  "move_writer Take s =
     (case we_queue s of [] \<Rightarrow> (Some Release, s) | m # q \<Rightarrow> (Some (Holding m), s\<lparr>we_queue := q\<rparr>))"
| "move_writer (Holding m) s = (Some Take, s\<lparr>we_wire := we_wire s @ [m]\<rparr>)"
| "move_writer Release s = (Some CheckClosed, s\<lparr>we_running := False\<rparr>)"
| "move_writer CheckClosed s = (Some (if we_closed s then Leave else CheckPending), s)"
| "move_writer CheckPending s = (Some (if we_queue s = [] then Leave else Retake), s)"
| "move_writer Retake s = (if we_running s then (Some Leave, s) else (Some Take, s\<lparr>we_running := True\<rparr>))"
| "move_writer Leave s = (None, s\<lparr>we_running := False\<rparr>)"

definition replace_writer :: "nat \<Rightarrow> 'm writer_pc option \<Rightarrow> 'm writer_sys \<Rightarrow> 'm writer_sys \<Rightarrow> 'm writer_sys" where
  "replace_writer i pc' s s' =
     s'\<lparr>we_writers := take i (we_writers s) @ opt_list pc' @ drop (Suc i) (we_writers s)\<rparr>"

fun perform :: "'m action \<Rightarrow> 'm writer_sys \<Rightarrow> 'm writer_sys option" where
  "perform (Accept m) s =
     (if length (we_queue s) < we_cap s
      then Some (s\<lparr>we_queue := we_queue s @ [m], we_accepted := we_accepted s @ [m], we_load := we_load s + 1\<rparr>)
      else None)"
| "perform LoadClosed s =
     (if we_load s = 0 then None
      else if we_closed s then Some (s\<lparr>we_load := we_load s - 1\<rparr>)
      else Some (s\<lparr>we_load := we_load s - 1, we_cas := we_cas s + 1\<rparr>))"
| "perform CompareAndSwap s =
     (if we_cas s = 0 then None
      else if we_running s then Some (s\<lparr>we_cas := we_cas s - 1\<rparr>)
      else Some (s\<lparr>we_cas := we_cas s - 1, we_running := True, we_writers := we_writers s @ [Take]\<rparr>))"
| "perform CloseConn s = Some (s\<lparr>we_closed := True\<rparr>)"
| "perform (Move i) s =
     (if i < length (we_writers s)
      then (let (pc', s') = move_writer (we_writers s ! i) s in Some (replace_writer i pc' s s'))
      else None)"
| "perform (Fail i) s =
     (if i < length (we_writers s)
      then (case we_writers s ! i of
          Holding m \<Rightarrow> Some (replace_writer i (Some Leave) s (s\<lparr>we_closed := True, we_failed := we_failed s @ [m]\<rparr>))
        | _ \<Rightarrow> None)
      else None)"

fun performs :: "'m action list \<Rightarrow> 'm writer_sys \<Rightarrow> 'm writer_sys option" where
  "performs [] s = Some s"
| "performs (a # as) s = (case perform a s of None \<Rightarrow> None | Some s' \<Rightarrow> performs as s')"

lemma move_writer_act: "move_writer pc s = (pc', s') \<Longrightarrow> writer_act pc s pc' s'"
  by (cases pc) (auto simp: writer_act_simps split: list.splits if_splits)

lemma perform_step: "perform a s = Some s' \<Longrightarrow> writer_step s s'"
proof (cases a)
  case (Move i)
  assume p: "perform a s = Some s'"
  with Move obtain pc' t where i: "i < length (we_writers s)"
    and m: "move_writer (we_writers s ! i) s = (pc', t)" and s': "s' = replace_writer i pc' s t"
    by (auto split: if_splits prod.splits)
  show ?thesis unfolding s' replace_writer_def
    by (rule step_writer [OF id_take_nth_drop [OF i] move_writer_act [OF m]])
next
  case (Fail i)
  assume p: "perform a s = Some s'"
  with Fail obtain m where i: "i < length (we_writers s)" and m: "we_writers s ! i = Holding m"
    and s': "s' = replace_writer i (Some Leave) s (s\<lparr>we_closed := True, we_failed := we_failed s @ [m]\<rparr>)"
    by (auto split: if_splits writer_pc.splits)
  have "we_writers s = take i (we_writers s) @ Holding m # drop (Suc i) (we_writers s)"
    using id_take_nth_drop [OF i] m by simp
  from step_writer [OF this act_fail] show ?thesis unfolding s' replace_writer_def .
qed (auto split: if_splits intro: writer_step.intros step_accept [simplified]
      step_load_closed [of _ "we_load s - 1", simplified] step_load_open [of _ "we_load s - 1", simplified]
      step_spawn [of _ "we_cas s - 1", simplified] step_no_spawn [of _ "we_cas s - 1", simplified])

lemma performs_steps: "performs as s = Some s' \<Longrightarrow> writer_step\<^sup>*\<^sup>* s s'"
  by (induction as arbitrary: s)
    (auto split: option.splits intro: converse_rtranclp_into_rtranclp perform_step)

text \<open>One message is sent, written, and its writer leaves.\<close>

definition one_message :: "nat action list" where
  "one_message = [Accept 1, LoadClosed, CompareAndSwap, Move 0, Move 0, Move 0, Move 0, Move 0, Move 0, Move 0]"

theorem ws_no_lost_wakeup_witness:
  "(case performs one_message (writer_init 4) of
      Some s \<Rightarrow> we_queue s = [] \<and> mset (we_wire s) = {#1#}
    | None \<Rightarrow> False)"
proof -
  define s :: "nat writer_sys" where "s = \<lparr>we_cap = 4, we_queue = [], we_running = False, we_closed = False,
     we_load = 0, we_cas = 0, we_writers = [], we_wire = [1], we_accepted = [1], we_failed = []\<rparr>"
  have run: "performs one_message (writer_init 4) = Some s"
    by (simp add: one_message_def writer_init_def s_def replace_writer_def)
  have "we_queue s = [] \<and> mset (we_wire s) = mset (we_accepted s)"
    by (rule ws_no_lost_wakeup [OF performs_steps [OF run]]) (simp_all add: s_def)
  with run show ?thesis by (simp add: s_def)
qed

text \<open>
  Two goroutines can write to the same socket at once, which the WebSocket library forbids:
  a writer that has already reset \<open>writerRunning\<close> and found nothing more resets it again when it
  returns, and so undoes the flag of the writer that was started in between; the next sender then
  starts another one.
\<close>

theorem ws_two_writers_at_once:
  "\<exists>s. writer_step\<^sup>*\<^sup>* (writer_init 4) s \<and> \<not> we_closed s \<and> held (we_writers s) = [2 :: nat, 3]"
proof -
  have "performs
      ([Accept 1, LoadClosed, CompareAndSwap, Move 0, Move 0, Move 0, Move 0, Move 0, Move 0] @
       [Accept 2, LoadClosed, CompareAndSwap, Move 0, Accept 3, LoadClosed, CompareAndSwap, Move 0, Move 1])
      (writer_init 4) =
    Some \<lparr>we_cap = 4, we_queue = [], we_running = True, we_closed = False, we_load = 0, we_cas = 0,
      we_writers = [Holding 2, Holding 3], we_wire = [1], we_accepted = [1, 2, 3], we_failed = []\<rparr>"
    by (simp add: writer_init_def replace_writer_def)
  from performs_steps [OF this] show ?thesis by force
qed

end
